(* ===== verification/Prelude.thy ===== *)
theory Prelude
  imports Main "HOL-Library.Word"
begin

unbundle bit_operations_syntax

text \<open>
  Shared vocabulary of the development: machine integers, the outcome of a Rust call that may
  complete, wait for ever or panic, the byte-stream connection every asynchronous function of the
  program reads and writes, and the generic facts about them. Nothing here is specific to one
  source file; what is modelled is the part of the Rust language, of \<open>std\<close> and of the
  \<open>tokio::io\<close> traits that the program uses.
\<close>

named_theorems be_simps \<open>big-endian encoding and decoding\<close>
named_theorems net_simps \<open>equations of the connection primitives\<close>

section \<open>Machine integers and bytes\<close>

type_synonym byte = "8 word"
type_synonym u16 = "16 word"
type_synonym u32 = "32 word"
type_synonym u64 = "64 word"
type_synonym bytes = "byte list"

text \<open>\<open>u16::to_be_bytes\<close>, \<open>u16::from_be_bytes\<close> and the same for \<open>u32\<close> and \<open>u64\<close>.\<close>

definition be16 :: "u16 \<Rightarrow> bytes" where
  "be16 w = [ucast (drop_bit 8 w), ucast w]"

definition of_be16 :: "byte \<Rightarrow> byte \<Rightarrow> u16" where
  "of_be16 a b = push_bit 8 (ucast a) OR ucast b"

definition be32 :: "u32 \<Rightarrow> bytes" where
  "be32 w = [ucast (drop_bit 24 w), ucast (drop_bit 16 w), ucast (drop_bit 8 w), ucast w]"

definition of_be32 :: "byte \<Rightarrow> byte \<Rightarrow> byte \<Rightarrow> byte \<Rightarrow> u32" where
  "of_be32 a b c d =
     push_bit 24 (ucast a) OR push_bit 16 (ucast b) OR push_bit 8 (ucast c) OR ucast d"

definition be64 :: "u64 \<Rightarrow> bytes" where
  "be64 w = map (\<lambda>i. ucast (drop_bit i w)) [56, 48, 40, 32, 24, 16, 8, 0]"

lemma length_be [simp]: "length (be16 w) = 2" "length (be32 v) = 4" "length (be64 x) = 8"
  by (simp_all add: be16_def be32_def be64_def)

lemma byte_bit_beyond [simp]:
  "\<not> bit (b :: byte) (8 + n)" "\<not> bit (b :: byte) (16 + n)" "\<not> bit (b :: byte) (24 + n)"
  by (auto dest: bit_imp_le_length)

lemma of_be16_hi_lo [be_simps, simp]: "of_be16 (ucast (drop_bit 8 w)) (ucast w) = w"
  unfolding of_be16_def
  by (rule bit_word_eqI) (auto simp: bit_simps)

lemma hi_lo_of_be16 [be_simps, simp]: "be16 (of_be16 a b) = [a, b]"
  unfolding of_be16_def be16_def
  by (auto intro!: bit_word_eqI simp: bit_simps)

lemma of_be32_parts [be_simps, simp]:
  "of_be32 (ucast (drop_bit 24 w)) (ucast (drop_bit 16 w)) (ucast (drop_bit 8 w)) (ucast w) = w"
  unfolding of_be32_def
  apply (rule bit_word_eqI)
  subgoal for n
    by (cases "n < 8"; cases "n < 16"; cases "n < 24") (auto simp: bit_simps)
  done

lemma parts_of_be32 [be_simps, simp]: "be32 (of_be32 a b c d) = [a, b, c, d]"
  unfolding of_be32_def be32_def
  by (auto intro!: bit_word_eqI simp: bit_simps)

lemma of_be16_be16: "be16 w = [a, b] \<Longrightarrow> of_be16 a b = w"
  by (auto simp: be16_def)

lemma unat_u16_le: "unat (w :: u16) \<le> 65535"
proof -
  have "unat w < 2 ^ LENGTH(16)" by (rule unsigned_less)
  then show ?thesis by simp
qed

section \<open>Outcomes of a call\<close>

text \<open>
  An asynchronous call of the program either completes, or waits for input or buffer space that
  never comes (only a surrounding \<open>timeout\<close> or \<open>select!\<close> ends such a call), or panics. A fallible
  call completes with a sum: \<open>Inl\<close> carries the error, \<open>Inr\<close> the value. The state is returned in
  every case, because the effects of a call that waits, fails or panics have still happened.
\<close>

datatype 'a outcome = Ready 'a | Pending | Panics string

type_synonym ('s, 'e, 'a) action = "'s \<Rightarrow> ('e + 'a) outcome \<times> 's"

definition io_return :: "'a \<Rightarrow> ('s, 'e, 'a) action" where
  "io_return a s = (Ready (Inr a), s)"

definition io_fail :: "'e \<Rightarrow> ('s, 'e, 'a) action" where
  "io_fail e s = (Ready (Inl e), s)"

text \<open>Sequencing with the early return of Rust's \<open>?\<close> operator.\<close>

definition io_bind :: "('s, 'e, 'a) action \<Rightarrow> ('a \<Rightarrow> ('s, 'e, 'b) action) \<Rightarrow> ('s, 'e, 'b) action"
  where
  "io_bind m f s =
     (case m s of
        (Ready (Inr a), s') \<Rightarrow> f a s'
      | (Ready (Inl e), s') \<Rightarrow> (Ready (Inl e), s')
      | (Pending, s') \<Rightarrow> (Pending, s')
      | (Panics msg, s') \<Rightarrow> (Panics msg, s'))"

text \<open>\<open>Result::map_err\<close>, and the implicit \<open>From\<close> conversion of \<open>?\<close>.\<close>

definition io_map_err :: "('e \<Rightarrow> 'f) \<Rightarrow> ('s, 'e, 'a) action \<Rightarrow> ('s, 'f, 'a) action" where
  "io_map_err g m s =
     (case m s of
        (Ready (Inr a), s') \<Rightarrow> (Ready (Inr a), s')
      | (Ready (Inl e), s') \<Rightarrow> (Ready (Inl (g e)), s')
      | (Pending, s') \<Rightarrow> (Pending, s')
      | (Panics msg, s') \<Rightarrow> (Panics msg, s'))"

lemma io_return_apply [net_simps, simp]: "io_return a s = (Ready (Inr a), s)"
  by (simp add: io_return_def)

lemma io_fail_apply [net_simps, simp]: "io_fail e s = (Ready (Inl e), s)"
  by (simp add: io_fail_def)

lemma io_bind_cases [net_simps, simp]:
  "m s = (Ready (Inr a), s') \<Longrightarrow> io_bind m f s = f a s'"
  "m s = (Ready (Inl e), s') \<Longrightarrow> io_bind m f s = (Ready (Inl e), s')"
  "m s = (Pending, s') \<Longrightarrow> io_bind m f s = (Pending, s')"
  "m s = (Panics msg, s') \<Longrightarrow> io_bind m f s = (Panics msg, s')"
  by (simp_all add: io_bind_def)

lemma io_map_err_cases [net_simps, simp]:
  "m s = (Ready (Inr a), s') \<Longrightarrow> io_map_err g m s = (Ready (Inr a), s')"
  "m s = (Ready (Inl e), s') \<Longrightarrow> io_map_err g m s = (Ready (Inl (g e)), s')"
  "m s = (Pending, s') \<Longrightarrow> io_map_err g m s = (Pending, s')"
  "m s = (Panics msg, s') \<Longrightarrow> io_map_err g m s = (Panics msg, s')"
  by (simp_all add: io_map_err_def)

lemma io_bind_Ready_Inr:
  "io_bind m f s = (Ready (Inr b), t) \<longleftrightarrow>
     (\<exists>a u. m s = (Ready (Inr a), u) \<and> f a u = (Ready (Inr b), t))"
  by (auto simp: io_bind_def split: prod.splits outcome.splits sum.splits)

text \<open>
  An action on the first part of a pair whose second part is the list of the events reported so
  far, and the action that reports one.
\<close>

definition on_fst :: "('s, 'e, 'a) action \<Rightarrow> ('s \<times> 'l, 'e, 'a) action" where
  "on_fst m p = (case m (fst p) of (r, s') \<Rightarrow> (r, (s', snd p)))"

definition report :: "'l \<Rightarrow> ('s \<times> 'l list, 'e, unit) action" where
  "report x p = (Ready (Inr ()), (fst p, snd p @ [x]))"

lemma on_fst_apply [net_simps, simp]: "m s = (r, s') \<Longrightarrow> on_fst m (s, l) = (r, (s', l))"
  by (simp add: on_fst_def)

lemma report_apply [net_simps, simp]: "report x (s, l) = (Ready (Inr ()), (s, l @ [x]))"
  by (simp add: report_def)

text \<open>The same early return for the result of a synchronous function.\<close>

definition res_bind :: "'e + 'a \<Rightarrow> ('a \<Rightarrow> 'e + 'b) \<Rightarrow> 'e + 'b" where
  "res_bind r f = (case r of Inl e \<Rightarrow> Inl e | Inr a \<Rightarrow> f a)"

lemma res_bind_simps [simp]: "res_bind (Inl e) f = Inl e" "res_bind (Inr a) f = f a"
  by (simp_all add: res_bind_def)

lemma res_bind_Inr: "res_bind r f = Inr b \<longleftrightarrow> (\<exists>a. r = Inr a \<and> f a = Inr b)"
  by (cases r) simp_all

section \<open>Buffers\<close>

text \<open>\<open>buf[i..i + bs.len()].copy_from_slice(bs)\<close>, within the bounds of the buffer.\<close>

definition overwrite :: "nat \<Rightarrow> bytes \<Rightarrow> bytes \<Rightarrow> bytes" where
  "overwrite i bs buf = take i buf @ bs @ drop (i + length bs) buf"

lemma take_overwrite: "i \<le> length buf \<Longrightarrow> take (i + length bs) (overwrite i bs buf) = take i buf @ bs"
  by (simp add: overwrite_def)

lemma length_overwrite: "i + length bs \<le> length buf \<Longrightarrow> length (overwrite i bs buf) = length buf"
  by (simp add: overwrite_def)

text \<open>\<open>buf.copy_within(n..m, 0)\<close>.\<close>

definition copy_down :: "nat \<Rightarrow> nat \<Rightarrow> bytes \<Rightarrow> bytes" where
  "copy_down n m buf = overwrite 0 (drop n (take m buf)) buf"

lemma take_copy_down: "m \<le> length buf \<Longrightarrow> take (m - n) (copy_down n m buf) = drop n (take m buf)"
  using take_overwrite [of 0 buf "drop n (take m buf)"] by (simp add: copy_down_def)

lemma length_copy_down: "m \<le> length buf \<Longrightarrow> length (copy_down n m buf) = length buf"
  by (simp add: copy_down_def length_overwrite)

section \<open>I/O errors and connections\<close>

text \<open>The kinds of \<open>std::io::Error\<close> the program creates or looks at, and any other kind.\<close>

datatype io_kind = UnexpectedEof | InvalidData | InvalidInput | WriteZero | ConnectionAborted
  | Other | OtherKind nat

datatype io_error = IoError (io_kind_of: io_kind) (io_msg_of: string)

text \<open>What the reader of a connection sees once every byte sent to it has been read.\<close>

datatype read_end = Eof | ReadError io_error | Silent

text \<open>What the writer of a connection sees once the peer takes no more bytes.\<close>

datatype write_end = WriteError io_error | WriteBlocks

text \<open>
  A value of a type that implements \<open>AsyncRead + AsyncWrite\<close>: the bytes that will arrive and
  what follows them, the bytes written so far, and how many more can be written (\<open>None\<close>:
  any number) before what \<open>wr_end\<close> says happens.
\<close>

record conn =
  inp :: bytes
  inp_end :: read_end
  out :: bytes
  wr_room :: "nat option"
  wr_end :: write_end

text \<open>\<open>AsyncReadExt::read_exact\<close>. A short read has consumed what was there.\<close>

definition read_exact :: "nat \<Rightarrow> (conn, io_error, bytes) action" where
  "read_exact n c =
     (if n \<le> length (inp c) then (Ready (Inr (take n (inp c))), c\<lparr>inp := drop n (inp c)\<rparr>)
      else (case inp_end c of
              Eof \<Rightarrow> Ready (Inl (IoError UnexpectedEof ''early eof''))
            | ReadError e \<Rightarrow> Ready (Inl e)
            | Silent \<Rightarrow> Pending, c\<lparr>inp := []\<rparr>))"

text \<open>\<open>AsyncWriteExt::write_all\<close>. A failed write has written as much as there was room for.\<close>

definition write_all :: "bytes \<Rightarrow> (conn, io_error, unit) action" where
  "write_all bs c =
     (case wr_room c of
        None \<Rightarrow> (Ready (Inr ()), c\<lparr>out := out c @ bs\<rparr>)
      | Some n \<Rightarrow>
          (if length bs \<le> n
           then (Ready (Inr ()), c\<lparr>out := out c @ bs, wr_room := Some (n - length bs)\<rparr>)
           else (case wr_end c of
                   WriteError e \<Rightarrow> Ready (Inl e)
                 | WriteBlocks \<Rightarrow> Pending,
                 c\<lparr>out := out c @ take n bs, wr_room := Some 0\<rparr>)))"

lemma read_exact_append [net_simps]:
  "inp c = bs @ rest \<Longrightarrow> length bs = n \<Longrightarrow> read_exact n c = (Ready (Inr bs), c\<lparr>inp := rest\<rparr>)"
  by (simp add: read_exact_def)

lemma read_exact_result:
  assumes "read_exact n c = (Ready (Inr bs), c')"
  shows "inp c = bs @ inp c'" "length bs = n" "c' = c\<lparr>inp := drop n (inp c)\<rparr>"
  using assms by (auto simp: read_exact_def split: if_splits read_end.splits)

lemma read_exact_no_panic: "fst (read_exact n c) \<noteq> Panics msg"
  by (simp add: read_exact_def split: read_end.splits)

lemma read_exact_frame [simp]:
  "out (snd (read_exact n c)) = out c" "wr_room (snd (read_exact n c)) = wr_room c"
  "wr_end (snd (read_exact n c)) = wr_end c" "inp_end (snd (read_exact n c)) = inp_end c"
  by (simp_all add: read_exact_def)

lemma read_exact_cases:
  obtains (ok) bs c' where "read_exact n c = (Ready (Inr bs), c')" "out c' = out c" "inp_end c' = inp_end c"
  | (failed) e c' where "read_exact n c = (Ready (Inl e), c')" "out c' = out c" "inp c' = []"
  | (waits) c' where "read_exact n c = (Pending, c')" "out c' = out c" "inp c' = []" "inp_end c = Silent"
  by (cases "n \<le> length (inp c)"; cases "inp_end c") (auto simp: read_exact_def)

lemma write_all_unbounded [net_simps]:
  "wr_room c = None \<Longrightarrow> write_all bs c = (Ready (Inr ()), c\<lparr>out := out c @ bs\<rparr>)"
  by (simp add: write_all_def)

lemma write_all_result:
  assumes "write_all bs c = (Ready (Inr u), c')"
  shows "out c' = out c @ bs" "inp c' = inp c" "inp_end c' = inp_end c"
  using assms by (auto simp: write_all_def split: option.splits if_splits write_end.splits)

lemma write_all_prefix: "\<exists>n. out (snd (write_all bs c)) = out c @ take n bs"
proof (cases "wr_room c")
  case None
  then have "out (snd (write_all bs c)) = out c @ take (length bs) bs"
    by (simp add: write_all_def)
  then show ?thesis ..
next
  case (Some n)
  then have "out (snd (write_all bs c)) = out c @ take n bs"
    by (simp add: write_all_def)
  then show ?thesis ..
qed

lemma write_all_frame [simp]:
  "inp (snd (write_all bs c)) = inp c" "inp_end (snd (write_all bs c)) = inp_end c"
  "wr_end (snd (write_all bs c)) = wr_end c"
  by (auto simp: write_all_def split: option.splits)

lemma write_all_no_panic: "fst (write_all bs c) \<noteq> Panics msg"
  by (auto simp: write_all_def split: option.splits write_end.splits)

text \<open>
  The two ends of one connection: after \<open>a\<close> has written, \<open>deliver a b\<close> is \<open>b\<close> with those bytes
  on its way in.
\<close>

definition deliver :: "conn \<Rightarrow> conn \<Rightarrow> conn" where
  "deliver a b = b\<lparr>inp := inp b @ out a\<rparr>"

text \<open>A connection on which nothing has happened, that waits for ever and takes any write.\<close>

definition fresh_conn :: conn where
  "fresh_conn = \<lparr>inp = [], inp_end = Silent, out = [], wr_room = None, wr_end = WriteBlocks\<rparr>"

section \<open>Text\<close>

text \<open>Rust's \<open>{}\<close> formatting of an unsigned integer.\<close>

fun show_nat :: "nat \<Rightarrow> string" where
  "show_nat n =
     (if n < 10 then [char_of (48 + n)] else show_nat (n div 10) @ [char_of (48 + n mod 10)])"

declare show_nat.simps [simp del]

text \<open>
  \<open>str::parse\<close> for an unsigned type whose values are below \<open>bound\<close>: an optional \<open>+\<close>, then at
  least one decimal digit, and no overflow.
\<close>

definition digit_val :: "char \<Rightarrow> nat option" where
  "digit_val c = (let n = of_char c :: nat in if 48 \<le> n \<and> n \<le> 57 then Some (n - 48) else None)"

fun parse_digits :: "nat \<Rightarrow> nat \<Rightarrow> string \<Rightarrow> nat option" where
  "parse_digits bound acc [] = Some acc"
| "parse_digits bound acc (c # cs) =
     (case digit_val c of
        None \<Rightarrow> None
      | Some d \<Rightarrow>
          (if acc * 10 + d < bound then parse_digits bound (acc * 10 + d) cs else None))"

fun parse_unsigned :: "nat \<Rightarrow> string \<Rightarrow> nat option" where
  "parse_unsigned bound [] = None"
| "parse_unsigned bound (c # cs) =
     (if c = CHR ''+'' then (if cs = [] then None else parse_digits bound 0 cs)
      else parse_digits bound 0 (c # cs))"

lemma parse_digits_bound: "parse_digits bound acc s = Some n \<Longrightarrow> acc < bound \<Longrightarrow> n < bound"
  by (induction s arbitrary: acc) (auto split: option.splits if_splits)

lemma parse_unsigned_bound: "parse_unsigned bound s = Some n \<Longrightarrow> 0 < bound \<Longrightarrow> n < bound"
  by (cases s) (auto split: if_splits option.splits dest: parse_digits_bound)

lemma digit_val_char [simp]: "d < 10 \<Longrightarrow> digit_val (char_of (48 + d)) = Some d"
  by (simp add: digit_val_def Let_def)

lemma parse_digits_append:
  "parse_digits bound acc (s @ t) =
     (case parse_digits bound acc s of None \<Rightarrow> None | Some a \<Rightarrow> parse_digits bound a t)"
  by (induction s arbitrary: acc) (auto split: option.splits)

lemma parse_digits_show_nat: "n < bound \<Longrightarrow> parse_digits bound 0 (show_nat n) = Some n"
proof (induction n rule: show_nat.induct)
  case (1 n)
  show ?case
  proof (cases "n < 10")
    case True
    with 1 show ?thesis by (simp add: show_nat.simps [of n])
  next
    case False
    with 1 have "parse_digits bound 0 (show_nat (n div 10)) = Some (n div 10)"
      by simp
    with False 1 show ?thesis
      by (simp add: show_nat.simps [of n] parse_digits_append)
  qed
qed

end
