(* ===== verification/Codec.thy ===== *)
theory Codec
  imports Prelude
begin

text \<open>
  The interface between the wire formats of the program and everything that exchanges messages
  over a connection: a \<open>send\<close> that appends the wire form of a message and a \<open>recv\<close> that takes one
  message off the input. The locales state what a format promises; the lemmas proved in them once
  (in-order delivery, unambiguous parsing) hold for the session frames and for the trojan-style
  datagrams, which interpret them.
\<close>

section \<open>Sending and receiving several messages\<close>

fun send_all :: "('f \<Rightarrow> ('s, 'e, unit) action) \<Rightarrow> 'f list \<Rightarrow> ('s, 'e, unit) action" where
  "send_all send [] = io_return ()"
| "send_all send (f # fs) = io_bind (send f) (\<lambda>_. send_all send fs)"

fun recv_n :: "('s, 'e, 'f) action \<Rightarrow> nat \<Rightarrow> ('s, 'e, 'f list) action" where
  "recv_n recv 0 = io_return []"
| "recv_n recv (Suc n) = io_bind recv (\<lambda>f. io_bind (recv_n recv n) (\<lambda>fs. io_return (f # fs)))"

section \<open>Message formats\<close>

locale stream_codec =
  fixes wire :: "'f \<Rightarrow> bytes"
    and valid :: "'f \<Rightarrow> bool"
    and send :: "'f \<Rightarrow> (conn, 'e, unit) action"
    and recv :: "(conn, 'e, 'f) action"
  assumes send_wire: "valid f \<Longrightarrow> wr_room c = None \<Longrightarrow>
      send f c = (Ready (Inr ()), c\<lparr>out := out c @ wire f\<rparr>)"
    and recv_wire: "valid f \<Longrightarrow> inp c = wire f @ rest \<Longrightarrow>
      recv c = (Ready (Inr f), c\<lparr>inp := rest\<rparr>)"
begin

lemma send_all_wire:
  "list_all valid fs \<Longrightarrow> wr_room c = None \<Longrightarrow>
     send_all send fs c = (Ready (Inr ()), c\<lparr>out := out c @ concat (map wire fs)\<rparr>)"
proof (induction fs arbitrary: c)
  case Nil
  then show ?case by simp
next
  case (Cons f fs)
  then have "send f c = (Ready (Inr ()), c\<lparr>out := out c @ wire f\<rparr>)"
    by (simp add: send_wire)
  with Cons show ?case by simp
qed

lemma recv_n_wire:
  "list_all valid fs \<Longrightarrow> inp c = concat (map wire fs) @ rest \<Longrightarrow>
     recv_n recv (length fs) c = (Ready (Inr fs), c\<lparr>inp := rest\<rparr>)"
proof (induction fs arbitrary: c)
  case Nil
  then show ?case by simp
next
  case (Cons f fs)
  then have r: "recv c = (Ready (Inr f), c\<lparr>inp := concat (map wire fs) @ rest\<rparr>)"
    by (simp add: recv_wire)
  have "recv_n recv (length fs) (c\<lparr>inp := concat (map wire fs) @ rest\<rparr>)
      = (Ready (Inr fs), c\<lparr>inp := rest\<rparr>)"
    using Cons.IH [of "c\<lparr>inp := concat (map wire fs) @ rest\<rparr>"] Cons.prems by simp
  with r show ?case by simp
qed

lemma in_order_delivery:
  assumes "list_all valid fs" "wr_room a = None" "out a = []" "inp b = []"
    and "send_all send fs a = (r, a')"
  shows "r = Ready (Inr ()) \<and>
    recv_n recv (length fs) (deliver a' b) = (Ready (Inr fs), b)"
proof -
  from assms have a': "r = Ready (Inr ())" "out a' = concat (map wire fs)"
    by (auto simp: send_all_wire)
  then have "inp (deliver a' b) = concat (map wire fs) @ []"
    using assms by (simp add: deliver_def)
  from recv_n_wire [OF assms(1) this] a' assms(4) show ?thesis
    by (simp add: deliver_def)
qed

lemma wire_unambiguous:
  assumes "valid f" "valid g" "wire f @ r = wire g @ s"
  shows "f = g \<and> r = s"
proof -
  let ?c = "fresh_conn\<lparr>inp := wire f @ r\<rparr>"
  have "recv ?c = (Ready (Inr f), ?c\<lparr>inp := r\<rparr>)"
    using assms(1) by (rule recv_wire) simp
  moreover have "recv ?c = (Ready (Inr g), ?c\<lparr>inp := s\<rparr>)"
    using assms(2) by (rule recv_wire) (simp add: assms(3))
  ultimately have "f = g" and "?c\<lparr>inp := r\<rparr> = ?c\<lparr>inp := s\<rparr>"
    by simp_all
  from this(2) have "inp (?c\<lparr>inp := r\<rparr>) = inp (?c\<lparr>inp := s\<rparr>)" by (rule arg_cong)
  with \<open>f = g\<close> show ?thesis by simp
qed

end

text \<open>A format is canonical when a message is only ever received from its own wire form.\<close>

locale canonical_codec = stream_codec +
  assumes recv_sound: "recv c = (Ready (Inr f), c') \<Longrightarrow>
      valid f \<and> inp c = wire f @ inp c' \<and> c' = c\<lparr>inp := inp c'\<rparr>"
begin

lemma recv_n_sound:
  "recv_n recv n c = (Ready (Inr fs), c') \<Longrightarrow>
     length fs = n \<and> list_all valid fs \<and> inp c = concat (map wire fs) @ inp c'"
proof (induction n arbitrary: c fs)
  case 0
  then show ?case by auto
next
  case (Suc n)
  then obtain f c1 gs where f: "recv c = (Ready (Inr f), c1)"
    and gs: "recv_n recv n c1 = (Ready (Inr gs), c')" and "fs = f # gs"
    by (auto simp: io_bind_Ready_Inr)
  with Suc.IH [OF gs] recv_sound [OF f] show ?case by simp
qed

lemma received_iff_sent:
  "inp c' = [] \<Longrightarrow>
     recv_n recv n c = (Ready (Inr fs), c') \<longleftrightarrow>
       length fs = n \<and> list_all valid fs \<and> inp c = concat (map wire fs) \<and> c' = c\<lparr>inp := []\<rparr>"
proof (intro iffI)
  assume c': "inp c' = []" and r: "recv_n recv n c = (Ready (Inr fs), c')"
  from recv_n_sound [OF r] c' have s: "length fs = n" "list_all valid fs"
    "inp c = concat (map wire fs)" by simp_all
  with recv_n_wire [of fs c "[]"] r have "c' = c\<lparr>inp := []\<rparr>" by simp
  with s show "length fs = n \<and> list_all valid fs \<and> inp c = concat (map wire fs) \<and> c' = c\<lparr>inp := []\<rparr>"
    by simp
next
  assume "length fs = n \<and> list_all valid fs \<and> inp c = concat (map wire fs) \<and> c' = c\<lparr>inp := []\<rparr>"
  with recv_n_wire [of fs c "[]"] show "recv_n recv n c = (Ready (Inr fs), c')" by auto
qed

end

end
