(* ===== verification/Frame.thy ===== *)
theory Frame
  imports Codec
begin

text \<open>
  The session frame format of \<open>shuttle/src/session/frame.rs\<close>: the frame type, its binary encoding
  and decoding, and the asynchronous \<open>read_frame\<close> and \<open>write_frame\<close>. The format interprets
  \<^theory_text>\<open>canonical_codec\<close>, so frames arrive complete, in order and unchanged.
\<close>

section \<open>Frames and errors\<close>

abbreviation (input) FRAME_CLIENT_HELLO :: byte where "FRAME_CLIENT_HELLO \<equiv> 0x01"
abbreviation (input) FRAME_OPEN_REQUEST :: byte where "FRAME_OPEN_REQUEST \<equiv> 0x02"
abbreviation (input) FRAME_DATA :: byte where "FRAME_DATA \<equiv> 0x03"
abbreviation (input) FRAME_END_REQUEST :: byte where "FRAME_END_REQUEST \<equiv> 0x04"
abbreviation (input) FRAME_RESET :: byte where "FRAME_RESET \<equiv> 0x05"
abbreviation (input) FRAME_PING :: byte where "FRAME_PING \<equiv> 0x06"
abbreviation (input) FRAME_PONG :: byte where "FRAME_PONG \<equiv> 0x07"
abbreviation (input) FRAME_CLOSE :: byte where "FRAME_CLOSE \<equiv> 0x08"
abbreviation (input) MAX_FRAME_PAYLOAD :: nat where "MAX_FRAME_PAYLOAD \<equiv> 65535"
abbreviation (input) PROTOCOL_VERSION :: byte where "PROTOCOL_VERSION \<equiv> 1"

datatype frame_error =
    UnknownFrameType byte
  | OversizedPayload nat
  | UnexpectedEof
  | InvalidPayload string
  | Io io_error

fun frame_error_display :: "frame_error \<Rightarrow> string" where
  "frame_error_display (UnknownFrameType t) = ''unknown frame type: '' @ show_nat (unat t)"
| "frame_error_display (OversizedPayload len) = ''oversized payload: '' @ show_nat len @ '' bytes''"
| "frame_error_display UnexpectedEof = ''unexpected end of input''"
| "frame_error_display (InvalidPayload m) = ''invalid payload: '' @ m"
| "frame_error_display (Io e) = ''I/O error: '' @ io_msg_of e"

datatype frame =
    ClientHello (version: byte) (capabilities: u16)
  | OpenRequest (cmd: byte) (atyp: byte) (addr: bytes) (port: u16)
  | Data bytes
  | EndRequest byte
  | Reset byte
  | Ping u32
  | Pong u32
  | Close byte

section \<open>Encoding and decoding\<close>

fun payload :: "frame \<Rightarrow> byte \<times> bytes" where
  "payload (ClientHello v caps) = (FRAME_CLIENT_HELLO, [v] @ be16 caps)"
| "payload (OpenRequest c a ad p) = (FRAME_OPEN_REQUEST, [c] @ [a] @ ad @ be16 p)"
| "payload (Data d) = (FRAME_DATA, d)"
| "payload (EndRequest r) = (FRAME_END_REQUEST, [r])"
| "payload (Reset r) = (FRAME_RESET, [r])"
| "payload (Ping t) = (FRAME_PING, be32 t)"
| "payload (Pong t) = (FRAME_PONG, be32 t)"
| "payload (Close r) = (FRAME_CLOSE, [r])"

definition encode :: "frame \<Rightarrow> bytes \<Rightarrow> bytes outcome" where
  "encode f buf =
     (let (frame_type, pl) = payload f in
      if length pl \<le> MAX_FRAME_PAYLOAD
      then Ready (buf @ [frame_type] @ be16 (of_nat (length pl)) @ pl)
      else Panics (frame_error_display (OversizedPayload (length pl))))"

definition require_len :: "bytes \<Rightarrow> nat \<Rightarrow> string \<Rightarrow> frame_error + unit" where
  "require_len pl expected frame_name =
     (if length pl = expected then Inr ()
      else Inl (InvalidPayload (frame_name @ '' payload must be '' @ show_nat expected
                 @ '' bytes, got '' @ show_nat (length pl))))"

definition decode_payload :: "byte \<Rightarrow> bytes \<Rightarrow> frame_error + frame" where
  "decode_payload frame_type pl =
     (if frame_type = FRAME_CLIENT_HELLO then
        res_bind (require_len pl 3 ''client hello'')
          (\<lambda>_. Inr (ClientHello (pl ! 0) (of_be16 (pl ! 1) (pl ! 2))))
      else if frame_type = FRAME_OPEN_REQUEST then
        (if length pl < 4 then Inl (InvalidPayload ''open request payload too short'')
         else (let addr_len = length pl - 4 in
               Inr (OpenRequest (pl ! 0) (pl ! 1) (take addr_len (drop 2 pl))
                      (of_be16 (pl ! (length pl - 2)) (pl ! (length pl - 1))))))
      else if frame_type = FRAME_DATA then Inr (Data pl)
      else if frame_type = FRAME_END_REQUEST then
        res_bind (require_len pl 1 ''end request'') (\<lambda>_. Inr (EndRequest (pl ! 0)))
      else if frame_type = FRAME_RESET then
        res_bind (require_len pl 1 ''reset'') (\<lambda>_. Inr (Reset (pl ! 0)))
      else if frame_type = FRAME_PING then
        res_bind (require_len pl 4 ''ping'')
          (\<lambda>_. Inr (Ping (of_be32 (pl ! 0) (pl ! 1) (pl ! 2) (pl ! 3))))
      else if frame_type = FRAME_PONG then
        res_bind (require_len pl 4 ''pong'')
          (\<lambda>_. Inr (Pong (of_be32 (pl ! 0) (pl ! 1) (pl ! 2) (pl ! 3))))
      else if frame_type = FRAME_CLOSE then
        res_bind (require_len pl 1 ''close'') (\<lambda>_. Inr (Close (pl ! 0)))
      else Inl (UnknownFrameType frame_type))"

definition decode :: "bytes \<Rightarrow> frame_error + frame" where
  "decode bs =
     (if length bs < 3 then Inl UnexpectedEof
      else
        (let frame_type = bs ! 0;
             payload_len = unat (of_be16 (bs ! 1) (bs ! 2)) in
         if length bs < 3 + payload_len then Inl UnexpectedEof
         else decode_payload frame_type (take payload_len (drop 3 bs))))"

section \<open>Frames on a connection\<close>

definition read_frame :: "(conn, frame_error, frame) action" where
  "read_frame =
     io_bind (io_map_err Io (read_exact 3)) (\<lambda>header.
     let payload_len = unat (of_be16 (header ! 1) (header ! 2)) in
     io_bind (io_map_err Io (read_exact payload_len)) (\<lambda>pl.
     (\<lambda>c. (Ready (decode (header @ pl)), c))))"

definition write_frame :: "frame \<Rightarrow> (conn, frame_error, unit) action" where
  "write_frame f c =
     (case encode f [] of
        Ready buf \<Rightarrow> io_map_err Io (write_all buf) c
      | Pending \<Rightarrow> (Pending, c)
      | Panics msg \<Rightarrow> (Panics msg, c))"

section \<open>The format is a canonical codec\<close>

text \<open>The bytes of a frame, and the frames whose payload length fits the two length bytes.\<close>

definition frame_wire :: "frame \<Rightarrow> bytes" where
  "frame_wire f = [fst (payload f)] @ be16 (of_nat (length (snd (payload f)))) @ snd (payload f)"

definition encodable :: "frame \<Rightarrow> bool" where
  "encodable f \<longleftrightarrow> length (snd (payload f)) \<le> MAX_FRAME_PAYLOAD"

lemma encode_eq:
  "encode f buf =
     (if encodable f then Ready (buf @ frame_wire f)
      else Panics (''oversized payload: '' @ show_nat (length (snd (payload f))) @ '' bytes''))"
  by (cases "payload f") (simp add: encode_def encodable_def frame_wire_def)

lemma length_list_1: "length xs = Suc 0 \<longleftrightarrow> (\<exists>a. xs = [a])"
  by (cases xs) auto

lemma length_list_3: "length xs = 3 \<longleftrightarrow> (\<exists>a b c. xs = [a, b, c])"
  by (auto simp: eval_nat_numeral length_Suc_conv)

lemma length_list_4: "length xs = 4 \<longleftrightarrow> (\<exists>a b c d. xs = [a, b, c, d])"
  by (auto simp: eval_nat_numeral length_Suc_conv)

lemma unat_len16: "n \<le> MAX_FRAME_PAYLOAD \<Longrightarrow> unat (of_nat n :: u16) = n"
  by (simp add: unat_of_nat take_bit_nat_eq_self)

lemma decode_payload_payload: "decode_payload (fst (payload f)) (snd (payload f)) = Inr f"
  by (cases f)
     (simp_all add: decode_payload_def require_len_def be16_def be32_def nth_append)

lemma open_request_payload:
  assumes "4 \<le> length pl"
  shows "[pl ! 0] @ [pl ! 1] @ take (length pl - 4) (drop 2 pl)
           @ [pl ! (length pl - 2), pl ! (length pl - 1)] = pl"
proof -
  obtain a b q where pl: "pl = a # b # q" and "2 \<le> length q"
    using assms by (cases pl; cases "tl pl") auto
  moreover obtain m z where q: "q = m @ [z]" and "1 \<le> length m"
    using \<open>2 \<le> length q\<close> by (cases q rule: rev_cases) auto
  moreover obtain k y where "m = k @ [y]"
    using \<open>1 \<le> length m\<close> by (cases m rule: rev_cases) auto
  ultimately show ?thesis
    by (simp add: nth_append)
qed

lemma decode_open_request:
  assumes "decode_payload FRAME_OPEN_REQUEST pl = Inr f"
  shows "payload f = (FRAME_OPEN_REQUEST, pl)"
proof -
  from assms have "4 \<le> length pl"
    and f: "f = OpenRequest (pl ! 0) (pl ! 1) (take (length pl - 4) (drop 2 pl))
              (of_be16 (pl ! (length pl - 2)) (pl ! (length pl - 1)))"
    by (simp_all add: decode_payload_def Let_def split: if_splits)
  then show ?thesis
    unfolding f payload.simps hi_lo_of_be16 by (simp only: open_request_payload)
qed

lemma decode_payload_Inr:
  assumes "decode_payload t pl = Inr f"
  shows "payload f = (t, pl)"
proof (cases "t = FRAME_OPEN_REQUEST")
  case True
  with assms show ?thesis by (simp add: decode_open_request)
next
  case False
  with assms show ?thesis
    by (auto simp: decode_payload_def require_len_def res_bind_Inr
        length_list_1 length_list_3 length_list_4 split: if_splits)
qed

lemma decode_frame_wire: "encodable f \<Longrightarrow> decode (frame_wire f @ rest) = Inr f"
  by (simp add: decode_def frame_wire_def encodable_def be16_def unat_len16 decode_payload_payload Let_def)

lemma decode_Inr:
  assumes "decode bs = Inr f"
  shows "encodable f \<and> (\<exists>rest. bs = frame_wire f @ rest)"
proof -
  from assms obtain t h l rest where bs: "bs = t # h # l # rest"
    by (cases bs; cases "tl bs"; cases "tl (tl bs)") (auto simp: decode_def)
  let ?n = "unat (of_be16 h l)"
  from assms bs have n: "?n \<le> length rest" and d: "decode_payload t (take ?n rest) = Inr f"
    by (auto simp: decode_def Let_def split: if_splits)
  from decode_payload_Inr [OF d] n have p: "payload f = (t, take ?n rest)" "length (take ?n rest) = ?n"
    by simp_all
  have "?n \<le> MAX_FRAME_PAYLOAD"
    by (rule unat_u16_le)
  moreover have "bs = frame_wire f @ drop ?n rest"
    using bs p n by (simp add: frame_wire_def)
  ultimately show ?thesis
    using p by (auto simp: encodable_def)
qed

lemma read_frame_wire:
  assumes "encodable f" "inp c = frame_wire f @ rest"
  shows "read_frame c = (Ready (Inr f), c\<lparr>inp := rest\<rparr>)"
proof -
  let ?pl = "snd (payload f)"
  obtain h l where hl: "be16 (of_nat (length ?pl)) = [h, l]"
    by (simp add: be16_def)
  then have len: "unat (of_be16 h l) = length ?pl"
    using assms(1) by (simp add: of_be16_be16 encodable_def unat_len16)
  have "inp c = [fst (payload f), h, l] @ ?pl @ rest"
    using assms(2) hl by (simp add: frame_wire_def)
  then have r3: "read_exact 3 c = (Ready (Inr [fst (payload f), h, l]), c\<lparr>inp := ?pl @ rest\<rparr>)"
    by (rule read_exact_append) simp
  have rp: "read_exact (length ?pl) (c\<lparr>inp := ?pl @ rest\<rparr>) = (Ready (Inr ?pl), c\<lparr>inp := rest\<rparr>)"
    using read_exact_append [of "c\<lparr>inp := ?pl @ rest\<rparr>" ?pl rest "length ?pl"] by simp
  have "[fst (payload f), h, l] @ ?pl = frame_wire f @ []"
    using hl by (simp add: frame_wire_def)
  then have "decode ([fst (payload f), h, l] @ ?pl) = Inr f"
    using decode_frame_wire [OF assms(1), of "[]"] by simp
  with r3 rp len show ?thesis
    by (simp add: read_frame_def)
qed

lemma read_frame_Inr:
  assumes "read_frame c = (Ready (Inr f), c')"
  shows "encodable f \<and> inp c = frame_wire f @ inp c' \<and> c' = c\<lparr>inp := inp c'\<rparr>"
proof -
  from assms obtain h c1 pl where h: "read_exact 3 c = (Ready (Inr h), c1)"
    and pl: "read_exact (unat (of_be16 (h ! 1) (h ! 2))) c1 = (Ready (Inr pl), c')"
    and d: "decode (h @ pl) = Inr f"
    by (auto simp: read_frame_def io_bind_def io_map_err_def Let_def
        split: prod.splits outcome.splits sum.splits)
  note H = read_exact_result [OF h] and P = read_exact_result [OF pl]
  from decode_Inr [OF d] obtain rest where e: "encodable f" and w: "h @ pl = frame_wire f @ rest"
    by blast
  obtain t a b where hd: "h = [t, a, b]"
    using H(2) by (auto simp: length_list_3)
  have "length (frame_wire f) = 3 + unat (of_be16 a b)"
  proof -
    from w hd have "[a, b] = be16 (of_nat (length (snd (payload f))))"
      by (simp add: frame_wire_def be16_def)
    then have "of_be16 a b = of_nat (length (snd (payload f)))"
      by (simp add: of_be16_be16)
    with e show ?thesis
      by (simp add: frame_wire_def encodable_def unat_len16)
  qed
  with hd P(2) have "rest = []"
    using arg_cong [OF w, of length] by simp
  with w have hp: "h @ pl = frame_wire f" by simp
  have "inp c = frame_wire f @ inp c'"
    using H(1) P(1) by (simp flip: hp)
  moreover have "c' = c\<lparr>inp := inp c'\<rparr>"
    unfolding P(3) H(3) by simp
  ultimately show ?thesis using e by blast
qed

interpretation frames: canonical_codec frame_wire encodable write_frame read_frame
proof unfold_locales
  fix f and c :: conn
  assume "encodable f" "wr_room c = None"
  then show "write_frame f c = (Ready (Inr ()), c\<lparr>out := out c @ frame_wire f\<rparr>)"
    by (simp add: write_frame_def encode_eq write_all_unbounded)
next
  fix f and c :: conn and rest
  assume "encodable f" "inp c = frame_wire f @ rest"
  then show "read_frame c = (Ready (Inr f), c\<lparr>inp := rest\<rparr>)"
    by (rule read_frame_wire)
next
  fix f c c'
  assume "read_frame c = (Ready (Inr f), c')"
  then show "encodable f \<and> inp c = frame_wire f @ inp c' \<and> c' = c\<lparr>inp := inp c'\<rparr>"
    by (rule read_frame_Inr)
qed

section \<open>Properties\<close>

lemma decode_append:
  assumes "decode bs \<noteq> Inl UnexpectedEof"
  shows "decode (bs @ ys) = decode bs"
proof -
  obtain t h l rest where bs: "bs = t # h # l # rest"
    using assms by (cases bs; cases "tl bs"; cases "tl (tl bs)") (auto simp: decode_def)
  moreover have "unat (of_be16 h l) \<le> length rest"
    using assms bs by (auto simp: decode_def Let_def split: if_splits)
  ultimately show ?thesis
    by (simp add: decode_def Let_def)
qed

lemma decode_payload_not_Eof: "decode_payload t pl \<noteq> Inl UnexpectedEof"
  by (simp add: decode_payload_def require_len_def Let_def)

lemma decode_Eof_short: "decode bs = Inl UnexpectedEof \<Longrightarrow>
    length bs < 3 \<or> length bs < 3 + unat (of_be16 (bs ! 1) (bs ! 2))"
  unfolding decode_def Let_def
  by (metis decode_payload_not_Eof)

lemma read_frame_full_length:
  assumes "read_exact 3 c = (Ready (Inr h), c1)"
    and "read_exact (unat (of_be16 (h ! 1) (h ! 2))) c1 = (Ready (Inr pl), c2)"
  shows "decode (h @ pl) \<noteq> Inl UnexpectedEof"
proof
  assume e: "decode (h @ pl) = Inl UnexpectedEof"
  have "length h = 3" and "length pl = unat (of_be16 (h ! 1) (h ! 2))"
    using assms [THEN read_exact_result(2)] by simp_all
  then obtain t a b where "h = [t, a, b]" "length pl = unat (of_be16 a b)"
    by (auto simp: length_list_3)
  with decode_Eof_short [OF e] show False by simp
qed

text \<open>
  C16. Encoding followed by decoding gives the frame back, whatever bytes follow it, and leaves
  what was in the buffer before untouched; a payload that does not fit the 16-bit length field is
  never truncated: \<open>encode\<close> panics instead.
\<close>

theorem frame_roundtrip:
  "if length (snd (payload f)) \<le> MAX_FRAME_PAYLOAD
   then \<exists>w. encode f buf = Ready (buf @ w) \<and> decode (w @ rest) = Inr f
   else \<exists>msg. encode f buf = Panics msg"
  by (auto simp: encode_eq encodable_def decode_frame_wire)

text \<open>
  The format is canonical: bytes that decode to a frame start with exactly the bytes that
  encoding this frame produces, so no frame has two encodings, and every decoded frame can be
  encoded again.
\<close>

lemma decode_canonical:
  assumes "decode bs = Inr f"
  shows "\<exists>w rest. encode f [] = Ready w \<and> bs = w @ rest"
  using decode_Inr [OF assms] by (auto simp: encode_eq)

text \<open>
  Frames written one after the other to one end of a connection are read at the other end
  complete, unchanged and in the same order, and nothing is left over.
\<close>

lemma frames_delivered_in_order:
  assumes "list_all encodable fs" "wr_room a = None" "out a = []" "inp b = []"
    and "send_all write_frame fs a = (r, a')"
  shows "r = Ready (Inr ()) \<and> recv_n read_frame (length fs) (deliver a' b) = (Ready (Inr fs), b)"
  using assms by (rule frames.in_order_delivery)

text \<open>
  C33. What \<open>read_frame\<close> does on any connection: it never panics and writes nothing; on success it
  has consumed exactly the bytes of the frame it returns; it waits only when the peer stays silent;
  and it never reports its own \<open>UnexpectedEof\<close> variant: a connection closed in the middle of a
  frame, or before one, surfaces as an I/O error.
\<close>

theorem read_frame_outcome:
  "out (snd (read_frame c)) = out c \<and>
   (case fst (read_frame c) of
      Ready (Inr f) \<Rightarrow> encodable f \<and> inp c = frame_wire f @ inp (snd (read_frame c))
    | Ready (Inl e) \<Rightarrow> e \<noteq> UnexpectedEof
    | Pending \<Rightarrow> inp_end c = Silent
    | Panics msg \<Rightarrow> False)"
proof (cases c rule: read_exact_cases [of 3])
  case (ok h c1)
  let ?n = "unat (of_be16 (h ! 1) (h ! 2))"
  note h = ok
  show ?thesis
  proof (cases c1 rule: read_exact_cases [of ?n])
    case (ok pl c2)
    have rf: "read_frame c = (Ready (decode (h @ pl)), c2)"
      unfolding read_frame_def using h(1) ok(1) by simp
    show ?thesis
    proof (cases "decode (h @ pl)")
      case (Inl e)
      with rf read_frame_full_length [OF h(1) ok(1)] h(2) ok(2) show ?thesis by simp
    next
      case (Inr f)
      with rf read_frame_Inr [of c f c2] h(2) ok(2) show ?thesis by simp
    qed
  next
    case (failed e c2)
    then have "read_frame c = (Ready (Inl (Io e)), c2)"
      unfolding read_frame_def using h(1) by simp
    with failed h(2) show ?thesis by simp
  next
    case (waits c2)
    then have "read_frame c = (Pending, c2)"
      unfolding read_frame_def using h(1) by simp
    with waits h show ?thesis by simp
  qed
qed (simp_all add: read_frame_def)

text \<open>
  Decoding looks only at the frame: once the bytes of a frame are all there, the result (a
  frame or the error for its content) does not depend on the bytes that follow.
\<close>

lemma decode_ignores_following_bytes:
  assumes "decode bs \<noteq> Inl UnexpectedEof"
  shows "decode (bs @ ys) = decode bs"
  using assms by (rule decode_append)

end
