(* ===== verification/Lifecycle.thy ===== *)
theory Lifecycle
  imports Prelude
begin

text \<open>
  \<open>shuttle/src/session/lifecycle.rs\<close>: the states of a reusable session with the transition
  predicate \<open>can_transition_to\<close>, the close reasons with their numeric codes, and the session events
  with the log record each one emits. \<open>transitions\<close> is the reachability relation the predicate
  induces; the properties say which paths it allows.
\<close>

section \<open>States\<close>

datatype session_state =
    Connecting
  | Handshaking
  | Idle
  | Opening
  | Active
  | Draining
  | Closing
  | Closed
  | Poisoned

definition can_transition_to :: "session_state \<Rightarrow> session_state \<Rightarrow> bool" where
  "can_transition_to s target =
     (case (s, target) of
        (Connecting, Handshaking) \<Rightarrow> True
      | (Handshaking, Idle) \<Rightarrow> True
      | (Handshaking, Closed) \<Rightarrow> True
      | (Idle, Opening) \<Rightarrow> True
      | (Idle, Closing) \<Rightarrow> True
      | (Idle, Poisoned) \<Rightarrow> True
      | (Opening, Active) \<Rightarrow> True
      | (Opening, Poisoned) \<Rightarrow> True
      | (Active, Draining) \<Rightarrow> True
      | (Active, Poisoned) \<Rightarrow> True
      | (Draining, Idle) \<Rightarrow> True
      | (Draining, Closing) \<Rightarrow> True
      | (Draining, Poisoned) \<Rightarrow> True
      | (Closing, Closed) \<Rightarrow> True
      | (Poisoned, Closed) \<Rightarrow> True
      | (_, Poisoned) \<Rightarrow> True
      | (_, Closed) \<Rightarrow> True
      | _ \<Rightarrow> False)"

fun session_state_display :: "session_state \<Rightarrow> string" where
  "session_state_display Connecting = ''Connecting''"
| "session_state_display Handshaking = ''Handshaking''"
| "session_state_display Idle = ''Idle''"
| "session_state_display Opening = ''Opening''"
| "session_state_display Active = ''Active''"
| "session_state_display Draining = ''Draining''"
| "session_state_display Closing = ''Closing''"
| "session_state_display Closed = ''Closed''"
| "session_state_display Poisoned = ''Poisoned''"

section \<open>Close reasons\<close>

datatype close_reason =
    ClientClose
  | ClientInitiated
  | ServerClose
  | ServerError
  | IdleTimeout
  | MaxAgeExceeded
  | MaxRequestsExceeded
  | MaxRequestsReached
  | KeepaliveTimeout
  | ProtocolError
  | VersionMismatch
  | ShutdownDrain
  | CheckoutFailed
  | Poisoned

fun close_reason_display :: "close_reason \<Rightarrow> string" where
  "close_reason_display ClientClose = ''ClientClose''"
| "close_reason_display ClientInitiated = ''ClientInitiated''"
| "close_reason_display ServerClose = ''ServerClose''"
| "close_reason_display ServerError = ''ServerError''"
| "close_reason_display IdleTimeout = ''IdleTimeout''"
| "close_reason_display MaxAgeExceeded = ''MaxAgeExceeded''"
| "close_reason_display MaxRequestsExceeded = ''MaxRequestsExceeded''"
| "close_reason_display MaxRequestsReached = ''MaxRequestsReached''"
| "close_reason_display KeepaliveTimeout = ''KeepaliveTimeout''"
| "close_reason_display ProtocolError = ''ProtocolError''"
| "close_reason_display VersionMismatch = ''VersionMismatch''"
| "close_reason_display ShutdownDrain = ''ShutdownDrain''"
| "close_reason_display CheckoutFailed = ''CheckoutFailed''"
| "close_reason_display close_reason.Poisoned = ''Poisoned''"

text \<open>\<open>reason as u8\<close>: the position of the variant in the declaration of the enum.\<close>

fun close_reason_as_u8 :: "close_reason \<Rightarrow> byte" where
  "close_reason_as_u8 ClientClose = 0"
| "close_reason_as_u8 ClientInitiated = 1"
| "close_reason_as_u8 ServerClose = 2"
| "close_reason_as_u8 ServerError = 3"
| "close_reason_as_u8 IdleTimeout = 4"
| "close_reason_as_u8 MaxAgeExceeded = 5"
| "close_reason_as_u8 MaxRequestsExceeded = 6"
| "close_reason_as_u8 MaxRequestsReached = 7"
| "close_reason_as_u8 KeepaliveTimeout = 8"
| "close_reason_as_u8 ProtocolError = 9"
| "close_reason_as_u8 VersionMismatch = 10"
| "close_reason_as_u8 ShutdownDrain = 11"
| "close_reason_as_u8 CheckoutFailed = 12"
| "close_reason_as_u8 close_reason.Poisoned = 13"

section \<open>Events\<close>

datatype session_event =
    PoolHit
  | PoolMiss
  | CheckoutFailed
  | FallbackToOneShot
  | SessionReused nat
  | PingSent
  | PingAcked
  | PingTimeout
  | IdleEviction
  | MaxAgeEviction
  | MaxRequestsEviction
  | RemoteClose
  | GracefulDrain

datatype log_level = DEBUG | INFO | WARN

record log_record =
  log_level :: log_level
  log_event :: string
  log_fields :: "(string \<times> string) list"
  log_message :: string

definition log_event_rec :: "log_level \<Rightarrow> string \<Rightarrow> (string \<times> string) list \<Rightarrow> string \<Rightarrow> log_record"
  where
  "log_event_rec l ev fs m = \<lparr>log_level = l, log_event = ev, log_fields = fs, log_message = m\<rparr>"

text \<open>The structured record one \<open>SessionEvent::emit\<close> call hands to the tracing layer.\<close>

fun emit :: "session_event \<Rightarrow> log_record" where
  "emit PoolHit = log_event_rec INFO ''pool_hit'' [] ''Session acquired from pool''"
| "emit PoolMiss = log_event_rec INFO ''pool_miss'' [] ''No reusable session in pool''"
| "emit session_event.CheckoutFailed =
     log_event_rec WARN ''checkout_failed'' [] ''Failed to checkout session from pool''"
| "emit FallbackToOneShot =
     log_event_rec WARN ''fallback_to_oneshot'' [] ''Falling back to one-shot mode''"
| "emit (SessionReused count) =
     log_event_rec INFO ''session_reused'' [(''reuse_count'', show_nat count)]
       ''Session reused from pool''"
| "emit PingSent = log_event_rec DEBUG ''ping_sent'' [] ''Keepalive ping sent''"
| "emit PingAcked = log_event_rec DEBUG ''ping_acked'' [] ''Keepalive ping acked''"
| "emit PingTimeout = log_event_rec WARN ''ping_timeout'' [] ''Keepalive ping timed out''"
| "emit IdleEviction =
     log_event_rec INFO ''idle_eviction'' [(''reason'', close_reason_display IdleTimeout)]
       ''Session evicted due to idle timeout''"
| "emit MaxAgeEviction =
     log_event_rec INFO ''max_age_eviction'' [(''reason'', close_reason_display MaxAgeExceeded)]
       ''Session evicted due to max age''"
| "emit MaxRequestsEviction =
     log_event_rec INFO ''max_requests_eviction''
       [(''reason'', close_reason_display MaxRequestsExceeded)]
       ''Session evicted due to max requests''"
| "emit RemoteClose = log_event_rec INFO ''remote_close'' [] ''Server closed the connection''"
| "emit GracefulDrain = log_event_rec INFO ''graceful_drain'' [] ''Session gracefully drained''"

section \<open>Paths through the states\<close>

text \<open>The states a session visits when every change of state obeys \<open>can_transition_to\<close>.\<close>

inductive transitions :: "session_state \<Rightarrow> session_state list \<Rightarrow> session_state \<Rightarrow> bool" where
  stop: "transitions s [] s"
| step: "can_transition_to s t \<Longrightarrow> transitions t ts u \<Longrightarrow> transitions s (t # ts) u"

inductive_cases transitions_ConsE: "transitions s (t # ts) u"

inductive_simps transitions_simps [simp]:
  "transitions s [] u"
  "transitions s (t # ts) u"

definition terminated :: "session_state \<Rightarrow> bool" where
  "terminated s \<longleftrightarrow> s = Closed \<or> s = session_state.Poisoned"

lemma can_transition_to_terminated [simp]: "terminated t \<Longrightarrow> can_transition_to s t"
  by (cases s) (auto simp: terminated_def can_transition_to_def)

lemma terminated_closed: "terminated s \<Longrightarrow> can_transition_to s t \<Longrightarrow> terminated t"
  by (cases t) (auto simp: terminated_def can_transition_to_def)

lemma transitions_terminated: "transitions s ts u \<Longrightarrow> terminated s \<Longrightarrow> list_all terminated ts"
  by (induction rule: transitions.induct) (auto dest: terminated_closed)

lemma only_opening_to_active: "can_transition_to s Active \<Longrightarrow> s = Opening"
  by (cases s) (auto simp: can_transition_to_def)

lemma only_idle_to_opening: "can_transition_to s Opening \<Longrightarrow> s = Idle"
  by (cases s) (auto simp: can_transition_to_def)

text \<open>
  The transition predicate keeps its documented promises on every path: from any state the
  session can be closed or poisoned at once; a closed or poisoned session never becomes usable
  again; and traffic is relayed (\<open>Active\<close>) only by a session that was just taken from
  \<open>Idle\<close> through \<open>Opening\<close>.
\<close>

lemma lifecycle_paths:
  "transitions s ts u \<Longrightarrow>
     can_transition_to u Closed \<and> can_transition_to u session_state.Poisoned \<and>
     (terminated s \<longrightarrow> list_all terminated ts) \<and>
     (\<forall>i. i < length ts \<and> ts ! i = Active \<and> 2 \<le> i \<longrightarrow>
        ts ! (i - 1) = Opening \<and> ts ! (i - 2) = Idle)"
proof -
  assume p: "transitions s ts u"
  have step: "transitions a ts u \<Longrightarrow> Suc j < length ts \<Longrightarrow> can_transition_to (ts ! j) (ts ! Suc j)"
    for a j
  proof (induction arbitrary: j rule: transitions.induct)
    case (step s t ts u)
    then show ?case by (cases j; cases ts) auto
  qed simp
  have "ts ! (i - 1) = Opening \<and> ts ! (i - 2) = Idle"
    if i: "i < length ts" "ts ! i = Active" "2 \<le> i" for i
  proof -
    obtain k where k: "i = Suc (Suc k)"
      using i(3) by (metis add_2_eq_Suc le_Suc_ex)
    from step [OF p, of "Suc k"] i k have "ts ! Suc k = Opening"
      by (auto dest: only_opening_to_active)
    moreover from step [OF p, of k] i k this have "ts ! k = Idle"
      by (auto dest: only_idle_to_opening)
    ultimately show ?thesis using k by simp
  qed
  moreover have "can_transition_to u Closed" "can_transition_to u session_state.Poisoned"
    by (simp_all add: terminated_def)
  ultimately show ?thesis
    using transitions_terminated [OF p] by blast
qed

end
