(* ===== verification/Negotiate.thy ===== *)
theory Negotiate
  imports Frame Lifecycle
begin

text \<open>
  \<open>shuttle/src/session/negotiate.rs\<close>: capability bits, the client and the server side of the hello
  exchange, and the tracker that warns once per endpoint. A hello that has not arrived when
  \<open>NEGOTIATION_TIMEOUT\<close> (5 seconds) is over counts as never arriving: the connection is then
  \<open>Silent\<close> for the exchange.
\<close>

section \<open>Capabilities\<close>

abbreviation (input) CAP_REUSE :: u16 where "CAP_REUSE \<equiv> 0x0001"
abbreviation (input) CAP_KEEPALIVE :: u16 where "CAP_KEEPALIVE \<equiv> 0x0002"

datatype capabilities = Capabilities (bits: u16)

definition cap_reuse :: "capabilities \<Rightarrow> bool" where
  "cap_reuse c \<longleftrightarrow> bits c AND CAP_REUSE \<noteq> 0"

definition cap_keepalive :: "capabilities \<Rightarrow> bool" where
  "cap_keepalive c \<longleftrightarrow> bits c AND CAP_KEEPALIVE \<noteq> 0"

definition intersect :: "capabilities \<Rightarrow> capabilities \<Rightarrow> capabilities" where
  "intersect a b = Capabilities (bits a AND bits b)"

record negotiated =
  reuse :: bool
  keepalive :: bool
  server_version :: byte

definition from_intersect :: "capabilities \<Rightarrow> capabilities \<Rightarrow> byte \<Rightarrow> negotiated" where
  "from_intersect client_caps server_caps v =
     (let shared = intersect client_caps server_caps in
      \<lparr>reuse = cap_reuse shared, keepalive = cap_keepalive shared, server_version = v\<rparr>)"

section \<open>The hello exchange\<close>

datatype negotiation_error =
    ServerRejected byte
  | VersionMismatch byte byte
  | NoResponse
  | UnexpectedFrame
  | Io io_error

fun negotiation_error_from :: "frame_error \<Rightarrow> negotiation_error" where
  "negotiation_error_from (frame_error.Io e) = Io e"
| "negotiation_error_from frame_error.UnexpectedEof = NoResponse"
| "negotiation_error_from other = Io (IoError InvalidData (frame_error_display other))"

definition client_accepts_server_version :: "byte \<Rightarrow> bool" where
  "client_accepts_server_version v \<longleftrightarrow> v \<ge> PROTOCOL_VERSION"

definition server_accepts_client_version :: "byte \<Rightarrow> bool" where
  "server_accepts_client_version v \<longleftrightarrow> v \<le> PROTOCOL_VERSION"

definition read_with_timeout :: "(conn, negotiation_error, frame) action" where
  "read_with_timeout c =
     (case read_frame c of
        (Ready (Inr f), c') \<Rightarrow> (Ready (Inr f), c')
      | (Ready (Inl e), c') \<Rightarrow> (Ready (Inl (negotiation_error_from e)), c')
      | (Pending, c') \<Rightarrow> (Ready (Inl NoResponse), c')
      | (Panics m, c') \<Rightarrow> (Panics m, c'))"

definition negotiate_client :: "capabilities \<Rightarrow> (conn, negotiation_error, negotiated) action" where
  "negotiate_client client_caps =
     io_bind (io_map_err negotiation_error_from
                (write_frame (ClientHello PROTOCOL_VERSION (bits client_caps)))) (\<lambda>_.
     io_bind read_with_timeout (\<lambda>f.
     case f of
       ClientHello v caps \<Rightarrow>
         (if \<not> client_accepts_server_version v
          then io_fail (VersionMismatch PROTOCOL_VERSION v)
          else io_return (from_intersect client_caps (Capabilities caps) v))
     | Close reason \<Rightarrow> io_fail (ServerRejected reason)
     | _ \<Rightarrow> io_fail NoResponse))"

definition negotiate_server :: "capabilities \<Rightarrow> (conn, negotiation_error, negotiated) action" where
  "negotiate_server server_caps =
     io_bind read_with_timeout (\<lambda>f.
     case f of
       ClientHello v caps \<Rightarrow>
         (if \<not> server_accepts_client_version v
          then io_bind (io_map_err negotiation_error_from
                 (write_frame (Close (close_reason_as_u8 close_reason.VersionMismatch))))
                 (\<lambda>_. io_fail (VersionMismatch v PROTOCOL_VERSION))
          else io_bind (io_map_err negotiation_error_from
                 (write_frame (ClientHello PROTOCOL_VERSION (bits server_caps))))
                 (\<lambda>_. io_return (from_intersect (Capabilities caps) server_caps PROTOCOL_VERSION)))
     | _ \<Rightarrow> io_fail UnexpectedFrame)"

section \<open>Warning once per endpoint\<close>

type_synonym fallback_tracker = "string set"

definition tracker_new :: fallback_tracker where
  "tracker_new = {}"

text \<open>Returns the updated tracker and whether the warning is logged.\<close>

definition warn_fallback :: "string \<Rightarrow> fallback_tracker \<Rightarrow> fallback_tracker \<times> bool" where
  "warn_fallback endpoint warned = (insert endpoint warned, endpoint \<notin> warned)"

fun warn_fallbacks :: "string list \<Rightarrow> fallback_tracker \<Rightarrow> fallback_tracker \<times> string list" where
  "warn_fallbacks [] w = (w, [])"
| "warn_fallbacks (e # es) w =
     (let (w1, logged) = warn_fallback e w; (w2, ls) = warn_fallbacks es w1
      in (w2, (if logged then [e] else []) @ ls))"

section \<open>Properties\<close>

lemma hello_encodable [simp]: "encodable (ClientHello v caps)" "encodable (Close r)"
  "encodable (Ping t)" "encodable (Pong t)" "encodable (EndRequest r)" "encodable (Reset r)"
  by (simp_all add: encodable_def)

lemma read_with_timeout_wire:
  "encodable f \<Longrightarrow> inp c = frame_wire f @ rest \<Longrightarrow>
     read_with_timeout c = (Ready (Inr f), c\<lparr>inp := rest\<rparr>)"
  by (simp add: read_with_timeout_def read_frame_wire)

lemma read_with_timeout_Inr:
  "read_with_timeout c = (Ready (Inr f), c') \<Longrightarrow> read_frame c = (Ready (Inr f), c')"
  by (auto simp: read_with_timeout_def split: prod.splits outcome.splits sum.splits)

lemma cap_reuse_bit: "cap_reuse c \<longleftrightarrow> bit (bits c) 0"
  by (simp add: cap_reuse_def and_one_eq mod_2_eq_odd bit_0)

lemma cap_reuse_intersect: "cap_reuse (intersect a b) \<longleftrightarrow> cap_reuse a \<and> cap_reuse b"
  by (simp add: cap_reuse_bit intersect_def bit_and_iff)

lemma cap_keepalive_bit: "cap_keepalive c \<longleftrightarrow> bit (bits c) 1"
proof -
  have "bits c AND 2 = 0 \<longleftrightarrow> \<not> bit (bits c) 1"
  proof
    assume "bits c AND 2 = 0"
    then have "\<not> bit (bits c AND 2) 1" by simp
    then show "\<not> bit (bits c) 1" by (simp add: bit_and_iff bit_numeral_rec(1))
  next
    assume "\<not> bit (bits c) 1"
    then show "bits c AND 2 = 0"
      by (intro bit_word_eqI) (auto simp: bit_and_iff bit_2_iff)
  qed
  then show ?thesis by (simp add: cap_keepalive_def)
qed

lemma cap_keepalive_intersect:
  "cap_keepalive (intersect a b) \<longleftrightarrow> cap_keepalive a \<and> cap_keepalive b"
  by (simp add: cap_keepalive_bit intersect_def bit_and_iff)

text \<open>The reply of the server to a hello, and what the client makes of a reply.\<close>

lemma negotiate_server_hello:
  assumes "inp c = frame_wire (ClientHello v caps) @ rest" "wr_room c = None"
  shows "negotiate_server sc c =
    (if v \<le> PROTOCOL_VERSION
     then (Ready (Inr (from_intersect (Capabilities caps) sc PROTOCOL_VERSION)),
           c\<lparr>inp := rest, out := out c @ frame_wire (ClientHello PROTOCOL_VERSION (bits sc))\<rparr>)
     else (Ready (Inl (VersionMismatch v PROTOCOL_VERSION)),
           c\<lparr>inp := rest, out := out c @ frame_wire (Close 10)\<rparr>))"
  using assms
  by (simp add: negotiate_server_def server_accepts_client_version_def
      read_with_timeout_wire [of "ClientHello v caps"] frames.send_wire)

lemma negotiate_client_reply:
  assumes "inp c = frame_wire f @ rest" "encodable f" "wr_room c = None"
  shows "negotiate_client cc c =
    (Ready (case f of
        ClientHello v caps \<Rightarrow>
          (if v \<ge> PROTOCOL_VERSION then Inr (from_intersect cc (Capabilities caps) v)
           else Inl (VersionMismatch PROTOCOL_VERSION v))
      | Close r \<Rightarrow> Inl (ServerRejected r)
      | _ \<Rightarrow> Inl NoResponse),
     c\<lparr>inp := rest, out := out c @ frame_wire (ClientHello PROTOCOL_VERSION (bits cc))\<rparr>)"
proof -
  let ?c = "c\<lparr>out := out c @ frame_wire (ClientHello PROTOCOL_VERSION (bits cc))\<rparr>"
  have "write_frame (ClientHello PROTOCOL_VERSION (bits cc)) c = (Ready (Inr ()), ?c)"
    using assms(3) by (simp add: frames.send_wire)
  moreover have "read_with_timeout ?c = (Ready (Inr f), ?c\<lparr>inp := rest\<rparr>)"
    using assms by (intro read_with_timeout_wire) simp_all
  ultimately show ?thesis
    by (cases f) (simp_all add: negotiate_client_def client_accepts_server_version_def)
qed

text \<open>
  C17. The two sides agree. The server reads the hello the client wrote and answers it; the client
  reads that answer; both then hold the same result, in which a capability is on exactly when both
  sides offered it.
\<close>

theorem negotiation_agreement:
  assumes "inp a = [] \<and> out a = [] \<and> wr_room a = None" and "inp b = [] \<and> out b = [] \<and> wr_room b = None"
    and "write_frame (ClientHello PROTOCOL_VERSION (bits cc)) a = (Ready (Inr ()), a1)"
    and "negotiate_server sc (deliver a1 b) = (rs, b1)"
    and "negotiate_client cc (deliver b1 a) = (rc, a2)"
  shows "rs = rc \<and> out a2 = out a1 \<and>
    rc = Ready (Inr \<lparr>reuse = cap_reuse cc \<and> cap_reuse sc,
                     keepalive = cap_keepalive cc \<and> cap_keepalive sc,
                     server_version = PROTOCOL_VERSION\<rparr>)"
proof -
  let ?hello = "ClientHello PROTOCOL_VERSION (bits cc)"
  let ?reply = "ClientHello PROTOCOL_VERSION (bits sc)"
  have a1: "out a1 = frame_wire ?hello"
    using assms(1,3) by (auto simp: frames.send_wire)
  then have "inp (deliver a1 b) = frame_wire ?hello @ []" "wr_room (deliver a1 b) = None"
    "out (deliver a1 b) = []"
    using assms(2) by (simp_all add: deliver_def)
  with assms(4) negotiate_server_hello [of "deliver a1 b" _ "bits cc" "[]" sc]
  have rs: "rs = Ready (Inr (from_intersect cc sc PROTOCOL_VERSION))" and b1: "out b1 = frame_wire ?reply"
    by auto
  then have "inp (deliver b1 a) = frame_wire ?reply @ []" "wr_room (deliver b1 a) = None"
    "out (deliver b1 a) = []"
    using assms(1) by (simp_all add: deliver_def)
  with assms(5) negotiate_client_reply [of "deliver b1 a" ?reply "[]" cc]
  have "rc = Ready (Inr (from_intersect cc sc PROTOCOL_VERSION))" and "out a2 = frame_wire ?hello"
    by auto
  with rs a1 show ?thesis
    by (simp add: from_intersect_def Let_def cap_reuse_intersect cap_keepalive_intersect)
qed

theorem negotiation_agreement_witness:
  "\<exists>a1 b1 a2. negotiate_server (Capabilities 1) (deliver a1 fresh_conn)
       = (Ready (Inr \<lparr>reuse = True, keepalive = False, server_version = 1\<rparr>), b1) \<and>
     negotiate_client (Capabilities 3) (deliver b1 fresh_conn)
       = (Ready (Inr \<lparr>reuse = True, keepalive = False, server_version = 1\<rparr>), a2)"
proof -
  have f: "inp fresh_conn = [] \<and> out fresh_conn = [] \<and> wr_room fresh_conn = None"
    by (simp add: fresh_conn_def)
  obtain a1 where w: "write_frame (ClientHello 1 (bits (Capabilities 3))) fresh_conn
      = (Ready (Inr ()), a1)"
    using f by (simp add: frames.send_wire)
  obtain rs b1 where s: "negotiate_server (Capabilities 1) (deliver a1 fresh_conn) = (rs, b1)"
    by fastforce
  obtain rc a2 where c: "negotiate_client (Capabilities 3) (deliver b1 fresh_conn) = (rc, a2)"
    by fastforce
  have "rc = Ready (Inr \<lparr>reuse = True, keepalive = False, server_version = 1\<rparr>)" "rs = rc"
    using negotiation_agreement [OF f f w s c] by (simp_all add: cap_reuse_def cap_keepalive_def)
  with s c show ?thesis by blast
qed

text \<open>
  An incompatible hello is refused on both sides: a client version above the server's is
  answered with a close frame (and so reported to that client as a rejection), and a server version
  below the client's ends the exchange with a version mismatch. In both cases nothing is negotiated.
\<close>

lemma negotiation_refuses_versions:
  assumes "wr_room c = None" and "inp c = frame_wire (ClientHello v caps) @ rest"
  shows "(v > PROTOCOL_VERSION \<longrightarrow>
      (\<exists>c'. negotiate_server sc c = (Ready (Inl (VersionMismatch v PROTOCOL_VERSION)), c') \<and>
           out c' = out c @ frame_wire (Close 10) \<and>
           (\<forall>d. inp d = frame_wire (Close 10) \<and> wr_room d = None \<longrightarrow>
              fst (negotiate_client cc d) = Ready (Inl (ServerRejected 10))))) \<and>
    (v < PROTOCOL_VERSION \<longrightarrow>
      fst (negotiate_client cc c) = Ready (Inl (VersionMismatch PROTOCOL_VERSION v)))"
proof -
  have "fst (negotiate_client cc d) = Ready (Inl (ServerRejected 10))"
    if "inp d = frame_wire (Close 10) \<and> wr_room d = None" for d
    using negotiate_client_reply [of d "Close 10" "[]" cc] that by simp
  with negotiate_server_hello [OF assms(2,1)] negotiate_client_reply [OF assms(2) _ assms(1)]
  show ?thesis by (auto simp: not_le)
qed

lemma warn_fallbacks_eq:
  "fst (warn_fallbacks es w) = w \<union> set es \<and>
   distinct (snd (warn_fallbacks es w)) \<and> set (snd (warn_fallbacks es w)) = set es - w"
proof (induction es arbitrary: w)
  case (Cons e es)
  obtain w2 ls where r: "warn_fallbacks es (insert e w) = (w2, ls)" by fastforce
  from Cons.IH [of "insert e w"] r show ?case
    by (auto simp: warn_fallback_def)
qed simp

text \<open>
  Over any sequence of fallbacks, each endpoint is warned about exactly once: the warnings
  logged are the distinct endpoints of the sequence, each a single time.
\<close>

lemma fallback_warned_once:
  "distinct (snd (warn_fallbacks es tracker_new)) \<and>
   set (snd (warn_fallbacks es tracker_new)) = set es"
  using warn_fallbacks_eq [of es tracker_new] by (simp add: tracker_new_def)

end
