(* ===== verification/Opt.thy ===== *)
theory Opt
  imports Prelude
begin

text \<open>
  \<open>shuttle/src/opt.rs\<close>: the reuse configuration with its validation, the client options it is built
  from, and the parser of the \<open>--preflight\<close> bounds. Durations are counted in nanoseconds. Command
  line text is ASCII.
\<close>

section \<open>Durations and text\<close>

type_synonym duration = nat
type_synonym instant = nat

definition from_secs :: "nat \<Rightarrow> duration" where
  "from_secs s = s * 1000000000"

text \<open>The largest \<open>Duration\<close>: \<open>u64::MAX\<close> seconds and 999999999 nanoseconds.\<close>

definition DURATION_MAX :: duration where
  "DURATION_MAX = (2 ^ 64 - 1) * 1000000000 + 999999999"

definition is_space :: "char \<Rightarrow> bool" where
  "is_space c = (let n = of_char c :: nat in n = 32 \<or> 9 \<le> n \<and> n \<le> 13)"

definition trim :: "string \<Rightarrow> string" where
  "trim s = rev (dropWhile is_space (rev (dropWhile is_space s)))"

abbreviation (input) USIZE_BOUND :: nat where "USIZE_BOUND \<equiv> 18446744073709551616"

section \<open>Reuse configuration\<close>

record reuse_config =
  max_idle :: nat
  max_requests :: nat
  max_age :: duration
  idle_timeout :: duration
  keepalive_interval :: duration
  keepalive_timeout :: duration
  jitter_percent :: byte

definition reuse_config_new ::
  "nat \<Rightarrow> nat \<Rightarrow> nat \<Rightarrow> nat \<Rightarrow> nat \<Rightarrow> nat \<Rightarrow> byte \<Rightarrow> bool \<Rightarrow> string + reuse_config" where
  "reuse_config_new mx_idle mx_requests max_age_secs idle_timeout_secs keepalive_interval_secs
       keepalive_timeout_secs jitter keepalive_flag_was_set =
     (if mx_idle = 0 then Inl ''reuse-max-idle must be greater than 0''
      else if mx_requests = 0 then Inl ''reuse-max-requests must be greater than 0''
      else if max_age_secs = 0 then Inl ''reuse-max-age must be greater than 0''
      else if idle_timeout_secs = 0 then Inl ''reuse-idle-timeout must be greater than 0''
      else if keepalive_interval_secs = 0 then Inl ''keepalive-interval must be greater than 0''
      else if keepalive_timeout_secs = 0 then Inl ''keepalive-timeout must be greater than 0''
      else if keepalive_timeout_secs \<ge> keepalive_interval_secs
        then Inl ''keepalive-timeout must be less than keepalive-interval''
      else if idle_timeout_secs \<ge> max_age_secs
        then Inl ''reuse-idle-timeout must be less than reuse-max-age''
      else if jitter > 100 then Inl ''reuse-jitter-percent must be between 0 and 100''
      else Inr \<lparr>max_idle = mx_idle, max_requests = mx_requests,
                max_age = from_secs max_age_secs, idle_timeout = from_secs idle_timeout_secs,
                keepalive_interval = from_secs keepalive_interval_secs,
                keepalive_timeout = from_secs keepalive_timeout_secs,
                jitter_percent = jitter\<rparr>)"

text \<open>The options of \<open>CltOpt\<close> that the reuse configuration is built from.\<close>

record clt_opt =
  preflight :: "nat \<times> nat option"
  reuse_flag :: bool
  opt_max_idle :: nat
  opt_max_requests :: nat
  opt_max_age :: nat
  opt_idle_timeout :: nat
  opt_keepalive_interval :: nat
  opt_keepalive_timeout :: nat
  opt_jitter_percent :: byte

definition opt_reuse_config :: "clt_opt \<Rightarrow> string + reuse_config option" where
  "opt_reuse_config o1 =
     (if \<not> reuse_flag o1 then Inr None
      else map_sum id Some
        (reuse_config_new (opt_max_idle o1) (opt_max_requests o1) (opt_max_age o1)
           (opt_idle_timeout o1) (opt_keepalive_interval o1) (opt_keepalive_timeout o1)
           (opt_jitter_percent o1) True))"

section \<open>Preflight bounds\<close>

fun parse_preflight_bounds :: "string \<Rightarrow> string + nat \<times> nat option" where
  "parse_preflight_bounds s0 =
     (let s = trim s0 in
      if s = [] then Inr (0, Some 0)
      else
        (case parse_unsigned USIZE_BOUND s of
           Some n \<Rightarrow> Inr (n, Some n)
         | None \<Rightarrow>
             (if CHR '':'' \<in> set s then
                (let a = trim (takeWhile (\<lambda>c. c \<noteq> CHR '':'') s);
                     b = trim (tl (dropWhile (\<lambda>c. c \<noteq> CHR '':'') s)) in
                 res_bind
                   (if a = [] then Inr 0
                    else case parse_unsigned USIZE_BOUND a of
                           Some n \<Rightarrow> Inr n
                         | None \<Rightarrow> Inl ''Min present but not integer'') (\<lambda>a.
                 res_bind
                   (if b = [] then Inr None
                    else case parse_unsigned USIZE_BOUND b of
                           Some n \<Rightarrow> Inr (Some n)
                         | None \<Rightarrow> Inl ''Max present but not integer'') (\<lambda>b.
                 if a = 0 \<and> b \<noteq> Some 0 then Inl ''Min cannot be 0 if max is not 0''
                 else Inr (a, b))))
              else Inl ''Unrecognized bounds, expected format: NUM, MIN:MAX, MIN:, :MAX'')))"

declare parse_preflight_bounds.simps [simp del]

section \<open>Properties\<close>

text \<open>What the rest of the program may assume of a reuse configuration.\<close>

definition valid_config :: "reuse_config \<Rightarrow> bool" where
  "valid_config cfg \<longleftrightarrow>
     0 < max_idle cfg \<and> 0 < max_requests cfg \<and>
     0 < idle_timeout cfg \<and> idle_timeout cfg < max_age cfg \<and>
     0 < keepalive_timeout cfg \<and> keepalive_timeout cfg < keepalive_interval cfg \<and>
     jitter_percent cfg \<le> 100"

lemma reuse_config_new_valid: "reuse_config_new a b c d e f g h = Inr cfg \<Longrightarrow> valid_config cfg"
  by (auto simp: reuse_config_new_def valid_config_def from_secs_def split: if_splits)

text \<open>
  Validation is exact: the client runs with session reuse if and only if \<open>--reuse\<close> is given,
  every count and timer is positive, the keep-alive timeout is below its interval, the idle timeout
  is below the maximum age and the jitter is a percentage; the configuration then carries the given
  values; without \<open>--reuse\<close> the other options are not looked at.
\<close>

lemma reuse_config_exact:
  "opt_reuse_config opt = Inr (Some cfg) \<longleftrightarrow>
     reuse_flag opt \<and> valid_config cfg \<and>
     max_idle cfg = opt_max_idle opt \<and> max_requests cfg = opt_max_requests opt \<and>
     max_age cfg = from_secs (opt_max_age opt) \<and>
     idle_timeout cfg = from_secs (opt_idle_timeout opt) \<and>
     keepalive_interval cfg = from_secs (opt_keepalive_interval opt) \<and>
     keepalive_timeout cfg = from_secs (opt_keepalive_timeout opt) \<and>
     jitter_percent cfg = opt_jitter_percent opt"
proof (cases "reuse_config_new (opt_max_idle opt) (opt_max_requests opt) (opt_max_age opt)
           (opt_idle_timeout opt) (opt_keepalive_interval opt) (opt_keepalive_timeout opt)
           (opt_jitter_percent opt) True")
  case (Inl e)
  then show ?thesis
    by (auto simp: opt_reuse_config_def reuse_config_new_def valid_config_def from_secs_def not_less
        split: if_splits)
next
  case (Inr c)
  then have c: "opt_reuse_config opt = Inr (if reuse_flag opt then Some c else None)"
    and v: "valid_config c"
    by (auto simp: opt_reuse_config_def dest: reuse_config_new_valid)
  from Inr have f: "max_idle c = opt_max_idle opt" "max_requests c = opt_max_requests opt"
    "max_age c = from_secs (opt_max_age opt)" "idle_timeout c = from_secs (opt_idle_timeout opt)"
    "keepalive_interval c = from_secs (opt_keepalive_interval opt)"
    "keepalive_timeout c = from_secs (opt_keepalive_timeout opt)"
    "jitter_percent c = opt_jitter_percent opt"
    by (auto simp: reuse_config_new_def split: if_splits)
  show ?thesis
    using c v f by (cases cfg; cases c) auto
qed

lemma parse_preflight_bounds_min:
  "parse_preflight_bounds s = Inr (a, b) \<Longrightarrow> a = 0 \<Longrightarrow> b = Some 0"
  by (auto simp: parse_preflight_bounds.simps res_bind_Inr Let_def split: if_splits option.splits)

end
