(* ===== verification/Keepalive.thy ===== *)
theory Keepalive
  imports Negotiate Opt
begin

text \<open>
  \<open>shuttle/src/session/keepalive.rs\<close>: the keep-alive driver. \<open>ping\<close> acts on a connection and the
  list of session events reported so far; the random token is an argument. The driver's timeout
  elapses when the answer does not come, that is when the connection stays \<open>Silent\<close>.
\<close>

section \<open>The driver\<close>

record keepalive_driver =
  interval :: duration
  timeout :: duration

datatype keepalive_error =
    Timeout
  | TokenMismatch u32 u32
  | UnexpectedResponse
  | Io io_error

fun keepalive_error_display :: "keepalive_error \<Rightarrow> string" where
  "keepalive_error_display Timeout = ''keepalive timeout''"
| "keepalive_error_display (TokenMismatch expected got) =
     ''keepalive token mismatch: expected '' @ show_nat (unat expected) @ '', got '' @ show_nat (unat got)"
| "keepalive_error_display UnexpectedResponse = ''unexpected response frame type''"
| "keepalive_error_display (Io e) = ''I/O error: '' @ io_msg_of e"

definition checked_mul2 :: "duration \<Rightarrow> duration option" where
  "checked_mul2 d = (if 2 * d \<le> DURATION_MAX then Some (2 * d) else None)"

definition driver_new :: "duration \<Rightarrow> keepalive_driver" where
  "driver_new i =
     \<lparr>interval = i, timeout = (case checked_mul2 i of Some t \<Rightarrow> t | None \<Rightarrow> i)\<rparr>"

fun map_frame_error :: "frame_error \<Rightarrow> keepalive_error" where
  "map_frame_error (frame_error.Io e) = Io e"
| "map_frame_error _ = UnexpectedResponse"

section \<open>One ping\<close>

type_synonym monitored = "conn \<times> session_event list"

text \<open>The answer read within the timeout: the event and the error are those of the closure.\<close>

definition read_frame_timeout :: "(monitored, keepalive_error, frame) action" where
  "read_frame_timeout p =
     (case read_frame (fst p) of
        (Ready (Inr f), c') \<Rightarrow> (Ready (Inr f), (c', snd p))
      | (Ready (Inl e), c') \<Rightarrow> (Ready (Inl (map_frame_error e)), (c', snd p))
      | (Pending, c') \<Rightarrow> (Ready (Inl Timeout), (c', snd p @ [PingTimeout]))
      | (Panics m, c') \<Rightarrow> (Panics m, (c', snd p)))"

definition ping :: "u32 \<Rightarrow> (monitored, keepalive_error, unit) action" where
  "ping token =
     io_bind (io_map_err map_frame_error (on_fst (write_frame (Ping token)))) (\<lambda>_.
     io_bind (report PingSent) (\<lambda>_.
     io_bind read_frame_timeout (\<lambda>response.
     case response of
       Pong received \<Rightarrow>
         (if received = token then report PingAcked
          else io_fail (TokenMismatch token received))
     | _ \<Rightarrow> io_fail UnexpectedResponse)))"

section \<open>The keep-alive task\<close>

text \<open>
  \<open>spawn_keepalive_task\<close>: sleep, ping, again, until a ping fails; then \<open>on_timeout\<close> is called and
  the task ends. The argument lists the tokens of the pings there is time for. The result says
  whether the task has ended and called \<open>on_timeout\<close>; a ping never ends the task by waiting, because
  its write either completes or the whole task waits.
\<close>

datatype task_status = Running | Evicted keepalive_error | Stuck | Panicked

fun keepalive_task :: "u32 list \<Rightarrow> monitored \<Rightarrow> task_status \<times> monitored" where
  "keepalive_task [] p = (Running, p)"
| "keepalive_task (t # ts) p =
     (case ping t p of
        (Ready (Inr _), p') \<Rightarrow> keepalive_task ts p'
      | (Ready (Inl e), p') \<Rightarrow> (Evicted e, p')
      | (Pending, p') \<Rightarrow> (Stuck, p')
      | (Panics m, p') \<Rightarrow> (Panicked, p'))"

section \<open>Properties\<close>

lemma ping_sent:
  "wr_room c = None \<Longrightarrow>
     ping t (c, ev) = io_bind read_frame_timeout (\<lambda>response.
       case response of
         Pong received \<Rightarrow>
           (if received = t then report PingAcked else io_fail (TokenMismatch t received))
       | _ \<Rightarrow> io_fail UnexpectedResponse)
       (c\<lparr>out := out c @ frame_wire (Ping t)\<rparr>, ev @ [PingSent])"
  by (simp add: ping_def frames.send_wire)

lemma read_frame_timeout_wire:
  "inp c = frame_wire f @ rest \<Longrightarrow> encodable f \<Longrightarrow>
     read_frame_timeout (c, ev) = (Ready (Inr f), (c\<lparr>inp := rest\<rparr>, ev))"
  by (simp add: read_frame_timeout_def read_frame_wire)

lemma ping_pong:
  assumes "wr_room c = None" "inp c = frame_wire (Pong t) @ rest"
  shows "ping t (c, ev) =
    (Ready (Inr ()),
     (c\<lparr>inp := rest, out := out c @ frame_wire (Ping t)\<rparr>, ev @ [PingSent, PingAcked]))"
proof -
  let ?c = "c\<lparr>out := out c @ frame_wire (Ping t)\<rparr>"
  have "read_frame_timeout (?c, ev @ [PingSent])
      = (Ready (Inr (Pong t)), (?c\<lparr>inp := rest\<rparr>, ev @ [PingSent]))"
    using assms(2) by (intro read_frame_timeout_wire) simp_all
  then show ?thesis
    using assms(1) by (simp add: ping_sent)
qed

lemma ping_Inr:
  assumes "wr_room c = None" "ping t (c, ev) = (Ready (Inr ()), p')"
  shows "\<exists>rest. inp c = frame_wire (Pong t) @ rest"
proof -
  let ?c = "c\<lparr>out := out c @ frame_wire (Ping t)\<rparr>"
  from assms obtain f q where r: "read_frame_timeout (?c, ev @ [PingSent]) = (Ready (Inr f), q)"
    and f: "(case f of Pong received \<Rightarrow>
           (if received = t then report PingAcked else io_fail (TokenMismatch t received))
       | _ \<Rightarrow> io_fail UnexpectedResponse) q = (Ready (Inr ()), p')"
    by (auto simp: ping_sent io_bind_Ready_Inr)
  from f have "f = Pong t"
    by (cases f) (auto split: if_splits)
  with r obtain c' where "read_frame ?c = (Ready (Inr (Pong t)), c')"
    by (auto simp: read_frame_timeout_def split: prod.splits outcome.splits sum.splits)
  from read_frame_Inr [OF this] show ?thesis by auto
qed

text \<open>
  A ping succeeds exactly when the next thing the peer sends is a pong that carries the same
  token; it then has written one ping frame, consumed that pong and reported the ping as sent and
  acknowledged.
\<close>

lemma ping_succeeds_iff_pong:
  assumes "wr_room c = None"
  shows "(\<exists>p'. ping t (c, ev) = (Ready (Inr ()), p')) \<longleftrightarrow>
           (\<exists>rest. inp c = frame_wire (Pong t) @ rest \<and>
              ping t (c, ev) = (Ready (Inr ()),
                (c\<lparr>inp := rest, out := out c @ frame_wire (Ping t)\<rparr>, ev @ [PingSent, PingAcked])))"
  using ping_pong [OF assms] ping_Inr [OF assms] by metis

lemma keepalive_task_pongs:
  "wr_room c = None \<Longrightarrow> inp c = concat (map (\<lambda>t. frame_wire (Pong t)) ts) @ rest \<Longrightarrow>
     keepalive_task ts (c, ev) =
       (Running, (c\<lparr>inp := rest, out := out c @ concat (map (\<lambda>t. frame_wire (Ping t)) ts)\<rparr>,
                  ev @ concat (map (\<lambda>_. [PingSent, PingAcked]) ts)))"
proof (induction ts arbitrary: c ev)
  case Nil
  then show ?case by simp
next
  case (Cons t ts)
  let ?r = "concat (map (\<lambda>t. frame_wire (Pong t)) ts) @ rest"
  let ?c = "c\<lparr>inp := ?r, out := out c @ frame_wire (Ping t)\<rparr>"
  have "ping t (c, ev) = (Ready (Inr ()), (?c, ev @ [PingSent, PingAcked]))"
    using Cons.prems by (intro ping_pong) simp_all
  moreover have "keepalive_task ts (?c, ev @ [PingSent, PingAcked]) =
       (Running, (?c\<lparr>inp := rest, out := out ?c @ concat (map (\<lambda>t. frame_wire (Ping t)) ts)\<rparr>,
                  (ev @ [PingSent, PingAcked]) @ concat (map (\<lambda>_. [PingSent, PingAcked]) ts)))"
    using Cons.prems by (intro Cons.IH) simp_all
  ultimately show ?case by simp
qed

lemma keepalive_task_append:
  "keepalive_task ts p = (Running, p') \<Longrightarrow> keepalive_task (ts @ us) p = keepalive_task us p'"
  by (induction ts arbitrary: p)
     (auto split: prod.splits outcome.splits sum.splits)

lemma ping_silent:
  assumes "wr_room c = None" "inp c = []" "inp_end c = Silent"
  shows "fst (ping t (c, ev)) = Ready (Inl Timeout)"
    and "snd (snd (ping t (c, ev))) = ev @ [PingSent, PingTimeout]"
proof -
  let ?c = "c\<lparr>out := out c @ frame_wire (Ping t)\<rparr>"
  have "read_frame ?c = (Pending, ?c)"
    using assms by (simp add: read_frame_def read_exact_def)
  then have "ping t (c, ev) = (Ready (Inl Timeout), (?c, ev @ [PingSent, PingTimeout]))"
    using assms(1) by (simp add: ping_sent read_frame_timeout_def)
  then show "fst (ping t (c, ev)) = Ready (Inl Timeout)"
    and "snd (snd (ping t (c, ev))) = ev @ [PingSent, PingTimeout]"
    by simp_all
qed

text \<open>
  The keep-alive task keeps a session for as long as the peer answers every ping, and evicts it
  with a timeout at the first ping the peer leaves unanswered: not earlier and not later.
\<close>

lemma keepalive_evicts_at_first_silence:
  assumes "wr_room c = None" "inp_end c = Silent"
    and "inp c = concat (map (\<lambda>t. frame_wire (Pong t)) ts)"
  shows "fst (keepalive_task ts (c, ev)) = Running \<and>
         fst (keepalive_task (ts @ t # us) (c, ev)) = Evicted Timeout"
proof -
  let ?c = "c\<lparr>inp := [], out := out c @ concat (map (\<lambda>t. frame_wire (Ping t)) ts)\<rparr>"
  let ?ev = "ev @ concat (map (\<lambda>_. [PingSent, PingAcked]) ts)"
  have run: "keepalive_task ts (c, ev) = (Running, (?c, ?ev))"
    using assms by (intro keepalive_task_pongs) simp_all
  moreover have "fst (ping t (?c, ?ev)) = Ready (Inl Timeout)"
    using assms by (intro ping_silent(1)) simp_all
  ultimately show ?thesis
    by (auto simp: keepalive_task_append split: prod.splits)
qed

end
