(* ===== verification/Net.thy ===== *)
theory Net
  imports Frame
begin

text \<open>
  What the relays of client and server share: the errors of \<open>anyhow\<close> with their contexts, the single
  \<open>read\<close> of \<open>AsyncReadExt\<close>, a \<open>read_frame\<close> that \<open>select!\<close> drops before it is complete, network
  addresses, and UTF-8 validation as \<open>String::from_utf8\<close> does it.
\<close>

section \<open>Errors\<close>

text \<open>The messages keep the fixed part of their format strings.\<close>

datatype anyhow =
    Anyhow string
  | FrameErr frame_error
  | IoErr io_error
  | Context string anyhow

section \<open>One read\<close>

text \<open>
  \<open>AsyncReadExt::read\<close> into a buffer of \<open>cap\<close> bytes, when \<open>k\<close> bytes are there: it returns at least
  one and at most \<open>cap\<close> bytes, or none at the end of the stream.
\<close>

definition read_some :: "nat \<Rightarrow> nat \<Rightarrow> (conn, io_error, bytes) action" where
  "read_some cap k c =
     (if inp c = [] then
        (case inp_end c of
           Eof \<Rightarrow> (Ready (Inr []), c)
         | ReadError e \<Rightarrow> (Ready (Inl e), c)
         | Silent \<Rightarrow> (Pending, c))
      else (let n = min cap (max 1 k) in (Ready (Inr (take n (inp c))), c\<lparr>inp := drop n (inp c)\<rparr>)))"

lemma read_some_Inr:
  assumes "read_some cap k c = (Ready (Inr bs), c')"
  shows "inp c = bs @ inp c' \<and> out c' = out c \<and> inp_end c' = inp_end c \<and> length bs \<le> cap \<and>
    wr_room c' = wr_room c \<and> (bs = [] \<longrightarrow> cap = 0 \<or> inp c = [] \<and> inp_end c = Eof)"
  using assms by (auto simp: read_some_def Let_def split: if_splits read_end.splits)

lemma read_some_cases:
  obtains (got) bs c' where "read_some cap k c = (Ready (Inr bs), c')"
  | (failed) e where "read_some cap k c = (Ready (Inl e), c)" "inp c = []"
  | (waits) "read_some cap k c = (Pending, c)" "inp c = []" "inp_end c = Silent"
  by (cases "inp c = []"; cases "inp_end c") (auto simp: read_some_def Let_def)

section \<open>A dropped \<open>read_frame\<close>\<close>

text \<open>
  \<open>select!\<close> polls its branches and drops those that lose. A \<open>read_frame\<close> that was polled when only
  the first \<open>n\<close> bytes of its frame were there has taken them off the connection; they are gone with
  the future. Only a number of bytes on which \<open>read_frame\<close> is still waiting can be lost.
\<close>

definition interrupted :: "nat \<Rightarrow> conn \<Rightarrow> conn" where
  "interrupted n c =
     (if fst (read_frame (c\<lparr>inp := take n (inp c), inp_end := Silent\<rparr>)) = Pending
      then c\<lparr>inp := drop n (inp c)\<rparr> else c)"

lemma interrupted_0 [simp]: "interrupted 0 c = c"
  by (simp add: interrupted_def)

lemma interrupted_frame [simp]:
  "out (interrupted n c) = out c" "inp_end (interrupted n c) = inp_end c"
  "wr_room (interrupted n c) = wr_room c" "wr_end (interrupted n c) = wr_end c"
  by (simp_all add: interrupted_def)

section \<open>Addresses\<close>

text \<open>
  \<open>std::net::IpAddr\<close> by its octets, and the \<open>Address\<close> of the \<open>socks5_protocol\<close> crate: a socket address,
  or a domain name (the bytes of the string) with a port.
\<close>

datatype ip_addr = V4 (octets: bytes) | V6 (octets: bytes)

datatype trojan_addr = SocketAddr ip_addr u16 | Domain bytes u16

fun ip_wf :: "ip_addr \<Rightarrow> bool" where
  "ip_wf (V4 bs) \<longleftrightarrow> length bs = 4"
| "ip_wf (V6 bs) \<longleftrightarrow> length bs = 16"

section \<open>UTF-8\<close>

abbreviation (input) cont_byte :: "byte \<Rightarrow> bool" where "cont_byte b \<equiv> 0x80 \<le> b \<and> b \<le> 0xBF"

fun utf8_valid :: "bytes \<Rightarrow> bool" where
  "utf8_valid [] \<longleftrightarrow> True"
| "utf8_valid (a # r) \<longleftrightarrow>
     (if a < 0x80 then utf8_valid r
      else (case r of
          [] \<Rightarrow> False
        | b # r2 \<Rightarrow>
            (if 0xC2 \<le> a \<and> a \<le> 0xDF then cont_byte b \<and> utf8_valid r2
             else (case r2 of
                 [] \<Rightarrow> False
               | c # r3 \<Rightarrow>
                   (if 0xE0 \<le> a \<and> a \<le> 0xEF then
                      (if a = 0xE0 then 0xA0 \<le> b \<and> b \<le> 0xBF
                       else if a = 0xED then 0x80 \<le> b \<and> b \<le> 0x9F else cont_byte b)
                        \<and> cont_byte c \<and> utf8_valid r3
                    else (case r3 of
                        [] \<Rightarrow> False
                      | d # r4 \<Rightarrow>
                          0xF0 \<le> a \<and> a \<le> 0xF4 \<and>
                          (if a = 0xF0 then 0x90 \<le> b \<and> b \<le> 0xBF
                           else if a = 0xF4 then 0x80 \<le> b \<and> b \<le> 0x8F else cont_byte b)
                            \<and> cont_byte c \<and> cont_byte d \<and> utf8_valid r4))))))"

lemma utf8_valid_ascii: "(\<And>b. b \<in> set bs \<Longrightarrow> b < 0x80) \<Longrightarrow> utf8_valid bs"
  by (induction bs) simp_all

section \<open>An action on a part of the state\<close>

definition zoom :: "('s \<Rightarrow> 'c) \<Rightarrow> ('c \<Rightarrow> 's \<Rightarrow> 's) \<Rightarrow> ('e \<Rightarrow> 'f) \<Rightarrow> ('c, 'e, 'a) action \<Rightarrow> ('s, 'f, 'a) action"
  where
  "zoom get put err m s =
     (case m (get s) of
        (Ready (Inr a), c) \<Rightarrow> (Ready (Inr a), put c s)
      | (Ready (Inl e), c) \<Rightarrow> (Ready (Inl (err e)), put c s)
      | (Pending, c) \<Rightarrow> (Pending, put c s)
      | (Panics msg, c) \<Rightarrow> (Panics msg, put c s))"

lemma zoom_cases [net_simps, simp]:
  "m (get s) = (Ready (Inr a), c) \<Longrightarrow> zoom get put err m s = (Ready (Inr a), put c s)"
  "m (get s) = (Ready (Inl e), c) \<Longrightarrow> zoom get put err m s = (Ready (Inl (err e)), put c s)"
  "m (get s) = (Pending, c) \<Longrightarrow> zoom get put err m s = (Pending, put c s)"
  "m (get s) = (Panics msg, c) \<Longrightarrow> zoom get put err m s = (Panics msg, put c s)"
  by (simp_all add: zoom_def)

lemma zoom_Ready_Inr:
  "zoom get put err m s = (Ready (Inr a), s') \<longleftrightarrow>
     (\<exists>c. m (get s) = (Ready (Inr a), c) \<and> s' = put c s)"
  by (auto simp: zoom_def split: prod.splits outcome.splits sum.splits)

lemma write_frame_Inr:
  assumes "write_frame f c = (Ready (Inr u), c')"
  shows "encodable f \<and> out c' = out c @ frame_wire f \<and> inp c' = inp c \<and> inp_end c' = inp_end c"
proof -
  have e: "encodable f"
    using assms by (cases "encodable f") (simp_all add: write_frame_def encode_eq)
  with assms have "io_map_err Io (write_all (frame_wire f)) c = (Ready (Inr u), c')"
    by (simp add: write_frame_def encode_eq)
  then have "write_all (frame_wire f) c = (Ready (Inr u), c')"
    by (auto simp: io_map_err_def split: prod.splits outcome.splits sum.splits)
  from write_all_result [OF this] e show ?thesis by simp
qed

end
