(* ===== verification/Relay.thy ===== *)
theory Relay
  imports Net
begin

text \<open>
  The interface of the two loops that relay one request of a reusable session: the one of the server
  (\<open>relay_framed_tcp\<close>) between the session and the target, and the one of the client
  (\<open>relay_tcp_frames\<close>) between the session and the local application. Each iteration of such a loop
  is one \<open>select!\<close>; which branch wins is an event. The locale states what one iteration does to the
  framed and to the plain connection; that a whole relay is transparent is proved once from that.
\<close>

section \<open>Running a loop of \<open>select!\<close> over events\<close>

text \<open>A loop with no further event waits.\<close>

fun relay_run :: "('ev \<Rightarrow> ('st, 'e, unit) action) \<Rightarrow> ('st \<Rightarrow> bool) \<Rightarrow> 'ev list \<Rightarrow> ('st, 'e, unit) action"
  where
  "relay_run step finished [] st = (Pending, st)"
| "relay_run step finished (e # es) st =
     io_bind (step e) (\<lambda>_ st'. if finished st' then (Ready (Inr ()), st')
                               else relay_run step finished es st') st"

section \<open>What frames carry\<close>

definition data_of :: "frame list \<Rightarrow> bytes" where
  "data_of fs = concat (map (\<lambda>f. case f of Data d \<Rightarrow> d | _ \<Rightarrow> []) fs)"

definition has_end :: "frame list \<Rightarrow> bool" where
  "has_end fs \<longleftrightarrow> list_ex (\<lambda>f. case f of EndRequest _ \<Rightarrow> True | _ \<Rightarrow> False) fs"

definition ping_tokens :: "frame list \<Rightarrow> u32 list" where
  "ping_tokens fs = concat (map (\<lambda>f. case f of Ping t \<Rightarrow> [t] | _ \<Rightarrow> []) fs)"

definition pong_tokens :: "frame list \<Rightarrow> u32 list" where
  "pong_tokens fs = concat (map (\<lambda>f. case f of Pong t \<Rightarrow> [t] | _ \<Rightarrow> []) fs)"

definition wires :: "frame list \<Rightarrow> bytes" where
  "wires fs = concat (map frame_wire fs)"

lemmas frames_carry = data_of_def has_end_def ping_tokens_def pong_tokens_def wires_def

lemma frames_carry_append [simp]:
  "data_of (xs @ ys) = data_of xs @ data_of ys" "has_end (xs @ ys) \<longleftrightarrow> has_end xs \<or> has_end ys"
  "ping_tokens (xs @ ys) = ping_tokens xs @ ping_tokens ys"
  "pong_tokens (xs @ ys) = pong_tokens xs @ pong_tokens ys"
  "wires (xs @ ys) = wires xs @ wires ys"
  by (simp_all add: frames_carry)

lemma frames_carry_Nil [simp]:
  "data_of [] = []" "\<not> has_end []" "ping_tokens [] = []" "pong_tokens [] = []" "wires [] = []"
  by (simp_all add: frames_carry)

definition at_eof :: "conn \<Rightarrow> bool" where
  "at_eof c \<longleftrightarrow> inp c = [] \<and> inp_end c = Eof"

text \<open>
  From the connections \<open>s\<close> and \<open>r\<close> to \<open>s'\<close> and \<open>r'\<close> the frames \<open>ins\<close> have been read from the session
  and the frames \<open>outs\<close> written to it, every byte of data went over in order, nothing else did, and
  every ping was answered.
\<close>

definition carried :: "frame list \<Rightarrow> frame list \<Rightarrow> conn \<Rightarrow> conn \<Rightarrow> conn \<Rightarrow> conn \<Rightarrow> bool" where
  "carried ins outs s r s' r' \<longleftrightarrow>
     inp s = wires ins @ inp s' \<and> out s' = out s @ wires outs \<and>
     out r' = out r @ data_of ins \<and> inp r = data_of outs @ inp r' \<and>
     inp_end r' = inp_end r \<and> pong_tokens outs = ping_tokens ins"

lemma carried_refl: "carried [] [] s r s r"
  by (simp add: carried_def)

lemma carried_trans:
  "carried i1 o1 s r s1 r1 \<Longrightarrow> carried i2 o2 s1 r1 s2 r2 \<Longrightarrow> carried (i1 @ i2) (o1 @ o2) s r s2 r2"
  by (simp add: carried_def)

lemma carried_at_eof: "carried i1 o1 s r s' r' \<Longrightarrow> at_eof r \<Longrightarrow> at_eof r'"
  by (simp add: carried_def at_eof_def)

section \<open>The loops\<close>

locale framed_relay =
  fixes session_of :: "'st \<Rightarrow> conn"
    and plain_of :: "'st \<Rightarrow> conn"
    and from_session :: "'st \<Rightarrow> nat"
    and from_plain :: "'st \<Rightarrow> nat"
    and session_ended :: "'st \<Rightarrow> bool"
    and plain_ended :: "'st \<Rightarrow> bool"
    and finished :: "'st \<Rightarrow> bool"
    and uninterrupted :: "'ev \<Rightarrow> bool"
    and step :: "'ev \<Rightarrow> ('st, 'e, unit) action"
  assumes step_carries: "uninterrupted e \<Longrightarrow> \<not> finished st \<Longrightarrow> step e st = (Ready (Inr u), st') \<Longrightarrow>
      \<exists>ins outs. carried ins outs (session_of st) (plain_of st) (session_of st') (plain_of st') \<and>
        length ins \<le> 1 \<and> (session_ended st \<longrightarrow> ins = []) \<and>
        from_session st' = from_session st + length (data_of ins) \<and>
        from_plain st' = from_plain st + length (data_of outs) \<and>
        (session_ended st' \<longleftrightarrow> session_ended st \<or> has_end ins) \<and>
        (plain_ended st' \<longleftrightarrow> plain_ended st \<or> has_end outs) \<and>
        (plain_ended st' \<longrightarrow> plain_ended st \<or> at_eof (plain_of st'))"
begin

definition transparent :: "frame list \<Rightarrow> frame list \<Rightarrow> 'st \<Rightarrow> 'st \<Rightarrow> bool" where
  "transparent ins outs st st' \<longleftrightarrow>
     carried ins outs (session_of st) (plain_of st) (session_of st') (plain_of st') \<and>
     (session_ended st \<longrightarrow> ins = []) \<and> \<not> has_end (butlast ins) \<and>
     from_session st' = from_session st + length (data_of ins) \<and>
     from_plain st' = from_plain st + length (data_of outs) \<and>
     (session_ended st' \<longleftrightarrow> session_ended st \<or> has_end ins) \<and>
     (plain_ended st' \<longleftrightarrow> plain_ended st \<or> has_end outs) \<and>
     (plain_ended st' \<longrightarrow> plain_ended st \<or> at_eof (plain_of st'))"

lemma step_transparent:
  assumes "uninterrupted e" "\<not> finished st" "step e st = (Ready (Inr u), st')"
  shows "\<exists>ins outs. transparent ins outs st st'"
proof -
  from step_carries [OF assms] obtain ins outs where
    "carried ins outs (session_of st) (plain_of st) (session_of st') (plain_of st')"
    "length ins \<le> 1" "session_ended st \<longrightarrow> ins = []"
    "from_session st' = from_session st + length (data_of ins)"
    "from_plain st' = from_plain st + length (data_of outs)"
    "session_ended st' \<longleftrightarrow> session_ended st \<or> has_end ins"
    "plain_ended st' \<longleftrightarrow> plain_ended st \<or> has_end outs"
    "plain_ended st' \<longrightarrow> plain_ended st \<or> at_eof (plain_of st')"
    by blast
  moreover have "butlast ins = []" using \<open>length ins \<le> 1\<close> by (cases ins) simp_all
  ultimately have "transparent ins outs st st'" by (simp add: transparent_def)
  then show ?thesis by blast
qed

lemma transparent_trans:
  assumes "transparent i1 o1 st0 st1" "transparent i2 o2 st1 st2"
  shows "transparent (i1 @ i2) (o1 @ o2) st0 st2"
proof -
  have "\<not> has_end (butlast (i1 @ i2))"
  proof (cases "i2 = []")
    case True
    with assms(1) show ?thesis by (simp add: transparent_def)
  next
    case False
    with assms have "\<not> has_end i1" by (auto simp: transparent_def)
    with assms(2) False show ?thesis by (simp add: transparent_def butlast_append)
  qed
  moreover have "carried (i1 @ i2) (o1 @ o2) (session_of st0) (plain_of st0) (session_of st2) (plain_of st2)"
    using assms carried_trans by (simp add: transparent_def) blast
  moreover have "plain_ended st2 \<longrightarrow> plain_ended st0 \<or> at_eof (plain_of st2)"
    using assms carried_at_eof by (simp add: transparent_def) blast
  ultimately show ?thesis
    using assms by (auto simp: transparent_def)
qed

lemma run_transparent:
  "list_all uninterrupted es \<Longrightarrow> \<not> finished st \<Longrightarrow> relay_run step finished es st = (Ready (Inr u), st') \<Longrightarrow>
     finished st' \<and> (\<exists>ins outs. transparent ins outs st st')"
proof (induction es arbitrary: st)
  case Nil
  then show ?case by simp
next
  case (Cons e es)
  from Cons.prems(3) obtain v st1 where s: "step e st = (Ready (Inr v), st1)"
    and r: "(if finished st1 then (Ready (Inr ()), st1) else relay_run step finished es st1) = (Ready (Inr u), st')"
    by (auto simp: io_bind_Ready_Inr)
  from Cons.prems(1,2) s obtain i1 o1 where t1: "transparent i1 o1 st st1"
    using step_transparent [of e st v st1] by auto
  show ?case
  proof (cases "finished st1")
    case True
    with r t1 show ?thesis by auto
  next
    case False
    with r Cons.prems(1) Cons.IH [of st1] obtain i2 o2 where
      "finished st'" "transparent i2 o2 st1 st'" by auto
    with transparent_trans [OF t1] show ?thesis by blast
  qed
qed

end

end
