(* ===== verification/Trojan.thy ===== *)
theory Trojan
  imports Net
begin

text \<open>
  \<open>shuttle/src/trojan.rs\<close>: the trojan-like request header and the datagrams of a UDP association.
  Reading and writing an address is the \<open>socks5_protocol\<close> crate's: an \<open>addr_codec\<close> is a parameter, and
  \<open>addr_codec_ok\<close> says what is relied on, that an address is read back from the bytes it was written
  as. The datagrams interpret \<^theory_text>\<open>stream_codec\<close>.
\<close>

section \<open>The address codec\<close>

text \<open>\<open>Address::serialized_len\<close>, the bytes of \<open>write_to\<close>, and the asynchronous \<open>write\<close> and \<open>read\<close>.\<close>

record addr_codec =
  ac_len :: "trojan_addr \<Rightarrow> nat option"
  ac_bytes :: "trojan_addr \<Rightarrow> bytes option"
  ac_write :: "trojan_addr \<Rightarrow> (conn, io_error, unit) action"
  ac_read :: "(conn, io_error, trojan_addr) action"

text \<open>The addresses that have a serialised form: the length of a domain name is one byte.\<close>

fun addr_valid :: "trojan_addr \<Rightarrow> bool" where
  "addr_valid (SocketAddr ip p) \<longleftrightarrow> ip_wf ip"
| "addr_valid (Domain h p) \<longleftrightarrow> length h < 256 \<and> utf8_valid h"

definition addr_codec_ok :: "addr_codec \<Rightarrow> bool" where
  "addr_codec_ok ac \<longleftrightarrow>
     (\<forall>a. addr_valid a \<longrightarrow>
        (\<exists>bs. ac_bytes ac a = Some bs \<and> ac_len ac a = Some (length bs) \<and>
           (\<forall>c. wr_room c = None \<longrightarrow> ac_write ac a c = (Ready (Inr ()), c\<lparr>out := out c @ bs\<rparr>)) \<and>
           (\<forall>c rest. inp c = bs @ rest \<longrightarrow> ac_read ac c = (Ready (Inr a), c\<lparr>inp := rest\<rparr>))))"

definition addr_wire :: "addr_codec \<Rightarrow> trojan_addr \<Rightarrow> bytes" where
  "addr_wire ac a = (case ac_bytes ac a of Some bs \<Rightarrow> bs | None \<Rightarrow> [])"

lemma addr_codec_laws:
  assumes "addr_codec_ok ac" "addr_valid a"
  shows "ac_bytes ac a = Some (addr_wire ac a)" "ac_len ac a = Some (length (addr_wire ac a))"
    "wr_room c = None \<Longrightarrow> ac_write ac a c = (Ready (Inr ()), c\<lparr>out := out c @ addr_wire ac a\<rparr>)"
    "inp c = addr_wire ac a @ rest \<Longrightarrow> ac_read ac c = (Ready (Inr a), c\<lparr>inp := rest\<rparr>)"
  using assms by (auto simp: addr_codec_ok_def addr_wire_def)

section \<open>Requests\<close>

abbreviation (input) CR :: byte where "CR \<equiv> 0x0d"
abbreviation (input) LF :: byte where "LF \<equiv> 0x0a"
abbreviation (input) CRLF :: u16 where "CRLF \<equiv> 0x0d0a"
abbreviation (input) MAX_DATAGRAM_SIZE :: nat where "MAX_DATAGRAM_SIZE \<equiv> 65507"

datatype trojan_cmd = Connect | UdpAssociate

fun cmd_to_u8 :: "trojan_cmd \<Rightarrow> byte" where
  "cmd_to_u8 Connect = 0x01"
| "cmd_to_u8 UdpAssociate = 0x03"

definition cmd_from_u8 :: "byte \<Rightarrow> trojan_cmd option" where
  "cmd_from_u8 b = (if b = 0x01 then Some Connect else if b = 0x03 then Some UdpAssociate else None)"

record trojan_like_request =
  req_cmd :: trojan_cmd
  dest_addr :: trojan_addr

text \<open>\<open>write_to\<close> into a cursor over the rest of a slice: it fails when the slice is too short.\<close>

definition encode_request :: "addr_codec \<Rightarrow> trojan_like_request \<Rightarrow> bytes \<Rightarrow> (nat \<times> bytes) outcome" where
  "encode_request ac req buf =
     (case ac_len ac (dest_addr req) of
        None \<Rightarrow> Panics ''called `Result::unwrap()` on an `Err` value''
      | Some n \<Rightarrow>
          (let len = 1 + n + 2 in
           if buf = [] then Panics ''index out of bounds''
           else
             (let buf = buf[0 := cmd_to_u8 (req_cmd req)] in
              case ac_bytes ac (dest_addr req) of
                None \<Rightarrow> Panics ''called `Result::unwrap()` on an `Err` value''
              | Some bs \<Rightarrow>
                  (if length buf - 1 < length bs
                   then Panics ''called `Result::unwrap()` on an `Err` value''
                   else
                     (let buf = overwrite 1 bs buf in
                      if length buf < len then Panics ''index out of bounds''
                      else Ready (len, buf[len - 2 := CR, len - 1 := LF]))))))"

text \<open>The fresh buffer of \<open>vec_uninit\<close> holds arbitrary bytes.\<close>

definition encoded :: "addr_codec \<Rightarrow> (nat \<Rightarrow> byte) \<Rightarrow> trojan_like_request \<Rightarrow> bytes outcome" where
  "encoded ac uninit req =
     (case ac_len ac (dest_addr req) of
        None \<Rightarrow> Panics ''called `Result::unwrap()` on an `Err` value''
      | Some n \<Rightarrow>
          (case encode_request ac req (map uninit [0..<1 + n + 2]) of
             Ready (len, buf) \<Rightarrow> Ready buf
           | Pending \<Rightarrow> Pending
           | Panics msg \<Rightarrow> Panics msg))"

definition write_request :: "addr_codec \<Rightarrow> trojan_like_request \<Rightarrow> (conn, io_error, nat) action" where
  "write_request ac req c =
     (case ac_len ac (dest_addr req) of
        None \<Rightarrow> (Panics ''called `Result::unwrap()` on an `Err` value'', c)
      | Some n \<Rightarrow>
          io_bind (write_all [cmd_to_u8 (req_cmd req)]) (\<lambda>_.
          io_bind (ac_write ac (dest_addr req)) (\<lambda>_.
          io_bind (write_all (be16 CRLF)) (\<lambda>_. io_return (1 + n + 2)))) c)"

definition read_u16 :: "(conn, io_error, u16) action" where
  "read_u16 = io_bind (read_exact 2) (\<lambda>bs. io_return (of_be16 (bs ! 0) (bs ! 1)))"

definition read_trojan_like_request :: "addr_codec \<Rightarrow> (conn, io_error, trojan_like_request) action" where
  "read_trojan_like_request ac =
     io_bind (read_exact 1) (\<lambda>t.
     (case cmd_from_u8 (t ! 0) of
        None \<Rightarrow> io_fail (IoError InvalidData ''client request unspported command'')
      | Some c \<Rightarrow>
          io_bind (ac_read ac) (\<lambda>a.
          io_bind read_u16 (\<lambda>crlf.
          if crlf \<noteq> CRLF then io_fail (IoError Other ''malformed trojan-like request'')
          else io_return \<lparr>req_cmd = c, dest_addr = a\<rparr>))))"

section \<open>Datagrams\<close>

text \<open>\<open>data.len() as u16\<close> keeps the low sixteen bits.\<close>

definition send_to :: "addr_codec \<Rightarrow> bytes \<Rightarrow> trojan_addr \<Rightarrow> (conn, io_error, unit) action" where
  "send_to ac dat a =
     io_bind (ac_write ac a) (\<lambda>_.
     io_bind (write_all (be16 (of_nat (length dat)))) (\<lambda>_.
     io_bind (write_all (be16 CRLF)) (\<lambda>_.
     write_all dat)))"

text \<open>\<open>recv_from\<close> into a buffer of \<open>cap\<close> bytes; the result holds what was written to the buffer.\<close>

definition recv_payload :: "nat \<Rightarrow> trojan_addr \<Rightarrow> (conn, io_error, (bytes \<times> trojan_addr) option) action" where
  "recv_payload cap a =
     io_bind read_u16 (\<lambda>len.
     io_bind read_u16 (\<lambda>crlf c.
     if crlf \<noteq> CRLF then (Ready (Inl (IoError Other ''malformed trojan-like request'')), c)
     else if \<not> unat len < cap then (Panics ''assertion failed: len < buf.len()'', c)
     else io_bind (read_exact (unat len)) (\<lambda>dat. io_return (Some (dat, a))) c))"

definition recv_from :: "addr_codec \<Rightarrow> nat \<Rightarrow> (conn, io_error, (bytes \<times> trojan_addr) option) action" where
  "recv_from ac cap c =
     (case ac_read ac c of
        (Ready (Inr a), c') \<Rightarrow> recv_payload cap a c'
      | (Ready (Inl e), c') \<Rightarrow>
          (if io_kind_of e = io_kind.UnexpectedEof then (Ready (Inr None), c') else (Ready (Inl e), c'))
      | (Pending, c') \<Rightarrow> (Pending, c')
      | (Panics msg, c') \<Rightarrow> (Panics msg, c'))"

section \<open>Requests and datagrams on the wire\<close>

definition request_wire :: "addr_codec \<Rightarrow> trojan_like_request \<Rightarrow> bytes" where
  "request_wire ac req = [cmd_to_u8 (req_cmd req)] @ addr_wire ac (dest_addr req) @ [CR, LF]"

lemma cmd_from_to [simp]: "cmd_from_u8 (cmd_to_u8 c) = Some c"
  by (cases c) (simp_all add: cmd_from_u8_def)

lemma be16_CRLF [simp]: "be16 CRLF = [CR, LF]" "of_be16 CR LF = CRLF"
proof -
  show b: "be16 CRLF = [CR, LF]" by (simp add: be16_def drop_bit_eq_div)
  show "of_be16 CR LF = CRLF" by (rule of_be16_be16 [OF b])
qed

lemma read_u16_append:
  "inp c = a # b # rest \<Longrightarrow> read_u16 c = (Ready (Inr (of_be16 a b)), c\<lparr>inp := rest\<rparr>)"
  by (simp add: read_u16_def read_exact_def)

lemma read_u16_be16: "inp c = be16 w @ rest \<Longrightarrow> read_u16 c = (Ready (Inr w), c\<lparr>inp := rest\<rparr>)"
  by (simp add: be16_def read_u16_append)

lemma overwrite_exact:
  assumes "length buf = 1 + length bs + 2"
  shows "(overwrite 1 bs (buf[0 := b]))[length bs + 1 := CR, length bs + 2 := LF] = b # bs @ [CR, LF]"
proof -
  have "length (drop (1 + length bs) buf) = 2" using assms by simp
  then obtain x y where "drop (1 + length bs) buf = [x, y]"
    by (cases "drop (1 + length bs) buf"; cases "tl (drop (1 + length bs) buf)") (auto simp del: length_drop)
  moreover obtain z zs where "buf = z # zs" using assms by (cases buf) auto
  ultimately show ?thesis
    by (simp add: overwrite_def list_update_append)
qed

lemma encoded_wire:
  assumes "addr_codec_ok ac" "addr_valid (dest_addr req)"
  shows "encoded ac uninit req = Ready (request_wire ac req)"
proof -
  let ?w = "addr_wire ac (dest_addr req)"
  let ?buf = "map uninit [0..<1 + length ?w + 2]"
  note laws = addr_codec_laws [OF assms]
  have "(overwrite 1 ?w (?buf[0 := cmd_to_u8 (req_cmd req)]))[length ?w + 1 := CR, length ?w + 2 := LF]
      = request_wire ac req"
    using overwrite_exact [of ?buf ?w] by (simp add: request_wire_def)
  moreover have "length (overwrite 1 ?w (?buf[0 := cmd_to_u8 (req_cmd req)])) = length ?w + 3"
    by (simp add: overwrite_def)
  moreover have "?buf \<noteq> []" "length ?buf = length ?w + 3" by simp_all
  ultimately show ?thesis
    using laws(1,2)
    by (simp add: encoded_def encode_request_def Let_def del: upt_Suc)
qed

lemma write_request_wire:
  assumes "addr_codec_ok ac" "addr_valid (dest_addr req)" "wr_room c = None"
  shows "write_request ac req c =
    (Ready (Inr (length (request_wire ac req))), c\<lparr>out := out c @ request_wire ac req\<rparr>)"
proof -
  note laws = addr_codec_laws [OF assms(1,2)]
  let ?c = "c\<lparr>out := out c @ [cmd_to_u8 (req_cmd req)]\<rparr>"
  have "ac_write ac (dest_addr req) ?c = (Ready (Inr ()), ?c\<lparr>out := out ?c @ addr_wire ac (dest_addr req)\<rparr>)"
    by (rule laws(3)) (simp add: assms(3))
  with laws(2) assms(3) show ?thesis
    by (simp add: write_request_def write_all_unbounded request_wire_def)
qed

lemma read_request_wire:
  assumes "addr_codec_ok ac" "addr_valid (dest_addr req)" "inp c = request_wire ac req @ rest"
  shows "read_trojan_like_request ac c = (Ready (Inr req), c\<lparr>inp := rest\<rparr>)"
proof -
  let ?b = "cmd_to_u8 (req_cmd req)" and ?w = "addr_wire ac (dest_addr req)"
  have i: "inp c = [?b] @ ?w @ [CR, LF] @ rest" using assms(3) by (simp add: request_wire_def)
  have "read_exact 1 c = (Ready (Inr [?b]), c\<lparr>inp := ?w @ [CR, LF] @ rest\<rparr>)"
    using i by (simp add: read_exact_append)
  moreover have "ac_read ac (c\<lparr>inp := ?w @ [CR, LF] @ rest\<rparr>) =
      (Ready (Inr (dest_addr req)), c\<lparr>inp := [CR, LF] @ rest\<rparr>)"
    using addr_codec_laws(4) [OF assms(1,2), of "c\<lparr>inp := ?w @ [CR, LF] @ rest\<rparr>" "[CR, LF] @ rest"] by simp
  moreover have "read_u16 (c\<lparr>inp := [CR, LF] @ rest\<rparr>) = (Ready (Inr CRLF), c\<lparr>inp := rest\<rparr>)"
    using read_u16_append [of "c\<lparr>inp := [CR, LF] @ rest\<rparr>" CR LF rest] by simp
  ultimately show ?thesis
    by (simp add: read_trojan_like_request_def)
qed

definition datagram_wire :: "addr_codec \<Rightarrow> bytes \<Rightarrow> trojan_addr \<Rightarrow> bytes" where
  "datagram_wire ac dat a = addr_wire ac a @ be16 (of_nat (length dat)) @ [CR, LF] @ dat"

lemma send_to_wire:
  assumes "addr_codec_ok ac" "addr_valid a" "wr_room c = None"
  shows "send_to ac dat a c = (Ready (Inr ()), c\<lparr>out := out c @ datagram_wire ac dat a\<rparr>)"
  using assms(3) addr_codec_laws(3) [OF assms]
  by (simp add: send_to_def write_all_unbounded datagram_wire_def)

lemma recv_from_header:
  assumes "addr_codec_ok ac" "addr_valid a" "inp c = datagram_wire ac dat a @ rest"
    and "length dat < 65536"
  shows "recv_from ac cap c =
    (if length dat < cap then (Ready (Inr (Some (dat, a))), c\<lparr>inp := rest\<rparr>)
     else (Panics ''assertion failed: len < buf.len()'', c\<lparr>inp := dat @ rest\<rparr>))"
proof -
  let ?n = "of_nat (length dat) :: u16"
  let ?r1 = "be16 ?n @ [CR, LF] @ dat @ rest"
  have n: "unat ?n = length dat" using assms(4) by (intro unat_len16) simp
  have "ac_read ac c = (Ready (Inr a), c\<lparr>inp := ?r1\<rparr>)"
    using assms(3) by (intro addr_codec_laws(4) [OF assms(1,2)]) (simp add: datagram_wire_def)
  moreover have "read_u16 (c\<lparr>inp := ?r1\<rparr>) = (Ready (Inr ?n), c\<lparr>inp := [CR, LF] @ dat @ rest\<rparr>)"
    using read_u16_be16 [of "c\<lparr>inp := ?r1\<rparr>" ?n "[CR, LF] @ dat @ rest"] by simp
  moreover have "read_u16 (c\<lparr>inp := [CR, LF] @ dat @ rest\<rparr>) = (Ready (Inr CRLF), c\<lparr>inp := dat @ rest\<rparr>)"
    using read_u16_append [of "c\<lparr>inp := [CR, LF] @ dat @ rest\<rparr>" CR LF "dat @ rest"] by simp
  moreover have "read_exact (length dat) (c\<lparr>inp := dat @ rest\<rparr>) = (Ready (Inr dat), c\<lparr>inp := rest\<rparr>)"
    by (simp add: read_exact_def)
  ultimately show ?thesis
    using n by (simp add: recv_from_def recv_payload_def)
qed

text \<open>
  The datagrams that both sides can handle, and the format as a codec. \<open>recv_from\<close> returns \<open>None\<close> at
  the end of the stream, so a message is an option that is never \<open>None\<close>.
\<close>

fun datagram_ok :: "addr_codec \<Rightarrow> nat \<Rightarrow> (bytes \<times> trojan_addr) option \<Rightarrow> bool" where
  "datagram_ok ac cap None \<longleftrightarrow> False"
| "datagram_ok ac cap (Some (dat, a)) \<longleftrightarrow>
     addr_codec_ok ac \<and> addr_valid a \<and> length dat < cap \<and> length dat < 65536"

fun datagram_bytes :: "addr_codec \<Rightarrow> (bytes \<times> trojan_addr) option \<Rightarrow> bytes" where
  "datagram_bytes ac None = []"
| "datagram_bytes ac (Some (dat, a)) = datagram_wire ac dat a"

fun datagram_send :: "addr_codec \<Rightarrow> (bytes \<times> trojan_addr) option \<Rightarrow> (conn, io_error, unit) action" where
  "datagram_send ac None = io_return ()"
| "datagram_send ac (Some (dat, a)) = send_to ac dat a"

interpretation datagrams: stream_codec "datagram_bytes ac" "datagram_ok ac cap" "datagram_send ac"
    "recv_from ac cap" for ac cap
proof unfold_locales
  fix f and c :: conn
  assume "datagram_ok ac cap f" "wr_room c = None"
  then show "datagram_send ac f c = (Ready (Inr ()), c\<lparr>out := out c @ datagram_bytes ac f\<rparr>)"
    by (cases f) (auto simp: send_to_wire)
next
  fix f and c :: conn and rest
  assume "datagram_ok ac cap f" "inp c = datagram_bytes ac f @ rest"
  then show "recv_from ac cap c = (Ready (Inr f), c\<lparr>inp := rest\<rparr>)"
    by (cases f) (auto simp: recv_from_header)
qed

section \<open>An address codec\<close>

text \<open>
  The address format that the head of \<open>trojan.rs\<close> documents, which RFC 1928 defines. It shows that
  \<open>addr_codec_ok\<close> can hold, and serves as the address codec of the witnesses.
\<close>

fun rfc1928_bytes :: "trojan_addr \<Rightarrow> bytes" where
  "rfc1928_bytes (SocketAddr (V4 os) p) = [0x01] @ os @ be16 p"
| "rfc1928_bytes (SocketAddr (V6 os) p) = [0x04] @ os @ be16 p"
| "rfc1928_bytes (Domain h p) = [0x03, of_nat (length h)] @ h @ be16 p"

definition rfc1928_rest :: "nat \<Rightarrow> (bytes \<Rightarrow> u16 \<Rightarrow> trojan_addr) \<Rightarrow> (conn, io_error, trojan_addr) action" where
  "rfc1928_rest n mk = io_bind (read_exact n) (\<lambda>bs. io_bind read_u16 (\<lambda>p. io_return (mk bs p)))"

definition rfc1928_read :: "(conn, io_error, trojan_addr) action" where
  "rfc1928_read =
     io_bind (read_exact 1) (\<lambda>t.
       if t ! 0 = 0x01 then rfc1928_rest 4 (\<lambda>os. SocketAddr (V4 os))
       else if t ! 0 = 0x04 then rfc1928_rest 16 (\<lambda>os. SocketAddr (V6 os))
       else if t ! 0 = 0x03 then io_bind (read_exact 1) (\<lambda>l. rfc1928_rest (unat (l ! 0)) Domain)
       else io_fail (IoError InvalidData ''invalid address type''))"

definition rfc1928 :: addr_codec where
  "rfc1928 = \<lparr>ac_len = (\<lambda>a. Some (length (rfc1928_bytes a))), ac_bytes = (\<lambda>a. Some (rfc1928_bytes a)),
     ac_write = (\<lambda>a. write_all (rfc1928_bytes a)), ac_read = rfc1928_read\<rparr>"

lemma rfc1928_rest_append:
  "inp c = bs @ be16 p @ rest \<Longrightarrow> length bs = n \<Longrightarrow>
     rfc1928_rest n mk c = (Ready (Inr (mk bs p)), c\<lparr>inp := rest\<rparr>)"
  using read_u16_be16 [of "c\<lparr>inp := be16 p @ rest\<rparr>" p rest]
  by (simp add: rfc1928_rest_def read_exact_append)

lemma rfc1928_read_bytes:
  assumes "addr_valid a" "inp c = rfc1928_bytes a @ rest"
  shows "rfc1928_read c = (Ready (Inr a), c\<lparr>inp := rest\<rparr>)"
proof (cases a)
  case (SocketAddr ip p)
  show ?thesis
  proof (cases ip)
    case (V4 os)
    have "read_exact 1 c = (Ready (Inr [0x01]), c\<lparr>inp := os @ be16 p @ rest\<rparr>)"
      using assms(2) SocketAddr V4 by (simp add: read_exact_append)
    moreover have "rfc1928_rest 4 (\<lambda>os. SocketAddr (V4 os)) (c\<lparr>inp := os @ be16 p @ rest\<rparr>)
        = (Ready (Inr a), c\<lparr>inp := rest\<rparr>)"
      using assms(1) SocketAddr V4 rfc1928_rest_append [of "c\<lparr>inp := os @ be16 p @ rest\<rparr>"] by simp
    ultimately show ?thesis by (simp add: rfc1928_read_def)
  next
    case (V6 os)
    have "read_exact 1 c = (Ready (Inr [0x04]), c\<lparr>inp := os @ be16 p @ rest\<rparr>)"
      using assms(2) SocketAddr V6 by (simp add: read_exact_append)
    moreover have "rfc1928_rest 16 (\<lambda>os. SocketAddr (V6 os)) (c\<lparr>inp := os @ be16 p @ rest\<rparr>)
        = (Ready (Inr a), c\<lparr>inp := rest\<rparr>)"
      using assms(1) SocketAddr V6 rfc1928_rest_append [of "c\<lparr>inp := os @ be16 p @ rest\<rparr>"] by simp
    ultimately show ?thesis by (simp add: rfc1928_read_def)
  qed
next
  case (Domain h p)
  let ?l = "of_nat (length h) :: byte"
  have l: "unat ?l = length h"
    using assms(1) Domain by (simp add: unat_of_nat take_bit_nat_eq_self)
  have "read_exact 1 c = (Ready (Inr [0x03]), c\<lparr>inp := ?l # h @ be16 p @ rest\<rparr>)"
    using assms(2) Domain by (simp add: read_exact_append)
  moreover have "read_exact 1 (c\<lparr>inp := ?l # h @ be16 p @ rest\<rparr>) = (Ready (Inr [?l]), c\<lparr>inp := h @ be16 p @ rest\<rparr>)"
    by (simp add: read_exact_def)
  moreover have "rfc1928_rest (length h) Domain (c\<lparr>inp := h @ be16 p @ rest\<rparr>)
      = (Ready (Inr a), c\<lparr>inp := rest\<rparr>)"
    using Domain rfc1928_rest_append [of "c\<lparr>inp := h @ be16 p @ rest\<rparr>"] by simp
  ultimately show ?thesis using l by (simp add: rfc1928_read_def)
qed

lemma rfc1928_ok: "addr_codec_ok rfc1928"
  by (auto simp: addr_codec_ok_def rfc1928_def write_all_unbounded rfc1928_read_bytes)

section \<open>Properties\<close>

text \<open>
  C26. A request is read back as it was written: \<open>encoded\<close> never panics for a valid address, both
  \<open>encoded\<close> and \<open>write\<close> produce the same bytes, every byte of the uninitialised buffer is overwritten,
  and \<open>read_trojan_like_request\<close> takes exactly these bytes off the connection and returns the request.
\<close>

theorem request_roundtrip:
  assumes "addr_codec_ok ac" "addr_valid (dest_addr req)"
  shows "\<exists>w. (\<forall>uninit. encoded ac uninit req = Ready w) \<and>
    (\<forall>c. wr_room c = None \<longrightarrow> write_request ac req c = (Ready (Inr (length w)), c\<lparr>out := out c @ w\<rparr>)) \<and>
    (\<forall>c rest. inp c = w @ rest \<longrightarrow> read_trojan_like_request ac c = (Ready (Inr req), c\<lparr>inp := rest\<rparr>))"
  using assms encoded_wire write_request_wire read_request_wire
  by (intro exI [of _ "request_wire ac req"]) blast

definition sample_request :: trojan_like_request where
  "sample_request = \<lparr>req_cmd = Connect, dest_addr = SocketAddr (V4 [127, 0, 0, 1]) 80\<rparr>"

theorem request_roundtrip_witness:
  "\<exists>w. encoded rfc1928 (\<lambda>_. 0xff) sample_request = Ready w \<and>
     fst (read_trojan_like_request rfc1928 (fresh_conn\<lparr>inp := w @ [5]\<rparr>)) = Ready (Inr sample_request)"
proof -
  have "addr_valid (dest_addr sample_request)" by (simp add: sample_request_def)
  from request_roundtrip [OF rfc1928_ok this] obtain w where
    "encoded rfc1928 (\<lambda>_. 0xff) sample_request = Ready w"
    "\<And>c rest. inp c = w @ rest \<Longrightarrow>
       read_trojan_like_request rfc1928 c = (Ready (Inr sample_request), c\<lparr>inp := rest\<rparr>)"
    by blast
  from this(1) this(2) [of "fresh_conn\<lparr>inp := w @ [5]\<rparr>" "[5]"] show ?thesis by simp
qed

text \<open>
  The datagrams of a UDP association sent over one end of the tunnel are received at the other
  end complete, unchanged, with their addresses and in the same order, as long as each of them is
  shorter than the receiver's buffer.
\<close>

lemma datagrams_in_order:
  assumes "addr_codec_ok ac" "list_all (\<lambda>(dat, a). addr_valid a \<and> length dat < cap) ds" "cap \<le> 65536"
    and "wr_room a = None" "out a = []" "inp b = []"
    and "send_all (datagram_send ac) (map Some ds) a = (r, a')"
  shows "r = Ready (Inr ()) \<and>
    recv_n (recv_from ac cap) (length ds) (deliver a' b) = (Ready (Inr (map Some ds)), b)"
proof -
  have "list_all (datagram_ok ac cap) (map Some ds)"
    using assms(1-3) by (auto simp: list_all_iff)
  from datagrams.in_order_delivery [OF this assms(4-7)] show ?thesis by simp
qed

text \<open>
  The receiver's buffer is one byte too short: a datagram of \<open>MAX_DATAGRAM_SIZE\<close> bytes, the
  largest that UDP over IPv4 carries, is sent without an error and makes the receiving relay panic.
\<close>

lemma largest_datagram_panics:
  assumes "addr_codec_ok ac" "addr_valid a" "length dat = MAX_DATAGRAM_SIZE" "wr_room c = None"
    and "out c = []" "inp c' = []"
  shows "\<exists>c1 msg. send_to ac dat a c = (Ready (Inr ()), c1) \<and>
    fst (recv_from ac MAX_DATAGRAM_SIZE (deliver c1 c')) = Panics msg"
proof -
  have "send_to ac dat a c = (Ready (Inr ()), c\<lparr>out := datagram_wire ac dat a\<rparr>)"
    using send_to_wire [OF assms(1,2,4)] assms(5) by simp
  moreover have "recv_from ac MAX_DATAGRAM_SIZE (deliver (c\<lparr>out := datagram_wire ac dat a\<rparr>) c') =
      (Panics ''assertion failed: len < buf.len()'', (deliver (c\<lparr>out := datagram_wire ac dat a\<rparr>) c')\<lparr>inp := dat @ []\<rparr>)"
    using assms(3,6) recv_from_header [OF assms(1,2), of _ dat "[]" MAX_DATAGRAM_SIZE]
    by (simp add: deliver_def)
  ultimately show ?thesis by auto
qed

end
