(* ===== verification/ServerRelay.thy ===== *)
theory ServerRelay
  imports Relay
begin

text \<open>
  The relay of one request in \<open>shuttle/src/server/session_loop.rs\<close>: the target of an \<open>OpenRequest\<close>
  (\<open>frame_addr_to_trojan_addr\<close>), and the \<open>select!\<close> loop \<open>relay_framed_tcp\<close> between the session and
  the target. The loop interprets \<^theory_text>\<open>framed_relay\<close>. Connecting to the target is the operating
  system's: \<open>connect\<close> is a parameter.
\<close>

section \<open>The target of a request\<close>

abbreviation (input) CMD_CONNECT :: byte where "CMD_CONNECT \<equiv> 0x01"

definition frame_addr_to_trojan_addr :: "byte \<Rightarrow> bytes \<Rightarrow> u16 \<Rightarrow> anyhow + trojan_addr" where
  "frame_addr_to_trojan_addr a ad p =
     (if a = 0x01 then
        (if length ad = 4 then Inr (SocketAddr (V4 ad) p)
         else Inl (Anyhow ''invalid ipv4 address length''))
      else if a = 0x04 then
        (if length ad = 16 then Inr (SocketAddr (V6 ad) p)
         else Inl (Anyhow ''invalid ipv6 address length''))
      else if a = 0x03 then
        (if utf8_valid ad then Inr (Domain ad p)
         else Inl (Anyhow ''invalid domain address encoding''))
      else Inl (Anyhow (''unsupported address type: '' @ show_nat (unat a))))"

section \<open>The loop\<close>

record relay_state =
  rs_session :: conn
  rs_target :: conn
  rs_tx :: nat
  rs_rx :: nat
  client_ended :: bool
  target_ended :: bool
  target_shut :: bool
  draining :: bool

text \<open>
  The branch of \<open>select!\<close> that wins: a frame of the session; \<open>k\<close> bytes of the target; a change of the
  shutdown flag, with its new value; the end of the drain time. The last number of the others says
  how many bytes the dropped \<open>read_frame\<close> had consumed.
\<close>

datatype relay_event =
    OnFrame
  | OnTarget nat nat
  | OnShutdown bool nat
  | OnDrain nat

definition on_session :: "(conn, frame_error, 'a) action \<Rightarrow> (relay_state, anyhow, 'a) action" where
  "on_session = zoom rs_session (\<lambda>c st. st\<lparr>rs_session := c\<rparr>) FrameErr"

definition on_target :: "string \<Rightarrow> (conn, io_error, 'a) action \<Rightarrow> (relay_state, anyhow, 'a) action" where
  "on_target ctx = zoom rs_target (\<lambda>c st. st\<lparr>rs_target := c\<rparr>) (\<lambda>e. Context ctx (IoErr e))"

fun relay_session_frame :: "frame \<Rightarrow> (relay_state, anyhow, unit) action" where
  "relay_session_frame (Data d) st =
     on_target ''failed to write reusable data to target'' (write_all d)
       (st\<lparr>rs_tx := rs_tx st + length d\<rparr>)"
| "relay_session_frame (EndRequest r) st =
     (Ready (Inr ()), st\<lparr>client_ended := True, target_shut := True\<rparr>)"
| "relay_session_frame (Reset r) st =
     (Ready (Inl (Anyhow (''client reset reusable request: '' @ show_nat (unat r)))), st)"
| "relay_session_frame (Ping t) st = on_session (write_frame (Pong t)) st"
| "relay_session_frame f st = (Ready (Inl (Anyhow ''unexpected reusable request frame'')), st)"

definition relay_frame :: "(relay_state, anyhow, unit) action" where
  "relay_frame = io_bind (on_session read_frame) relay_session_frame"

definition relay_target :: "nat \<Rightarrow> (relay_state, anyhow, unit) action" where
  "relay_target k =
     io_bind (on_target ''failed to read target response'' (read_some 16384 k)) (\<lambda>bs st.
       if bs = [] then on_session (write_frame (EndRequest 0x00)) (st\<lparr>target_ended := True\<rparr>)
       else on_session (write_frame (Data bs)) (st\<lparr>rs_rx := rs_rx st + length bs\<rparr>))"

text \<open>The \<open>read_frame\<close> of an iteration is started, and lost, only while the client has not ended.\<close>

definition lose :: "nat \<Rightarrow> relay_state \<Rightarrow> relay_state" where
  "lose n st = (if client_ended st then st else st\<lparr>rs_session := interrupted n (rs_session st)\<rparr>)"

text \<open>A branch whose guard is off does not win: such an event changes nothing.\<close>

fun relay_step :: "relay_event \<Rightarrow> (relay_state, anyhow, unit) action" where
  "relay_step OnFrame st = (if client_ended st then (Ready (Inr ()), st) else relay_frame st)"
| "relay_step (OnTarget k n) st =
     (if target_ended st then (Ready (Inr ()), st) else relay_target k (lose n st))"
| "relay_step (OnShutdown flag n) st =
     (if draining st then (Ready (Inr ()), st) else (Ready (Inr ()), (lose n st)\<lparr>draining := flag\<rparr>))"
| "relay_step (OnDrain n) st =
     (if draining st
      then (Ready (Inl (Anyhow ''timed out draining reusable request during shutdown'')), lose n st)
      else (Ready (Inr ()), st))"

definition both_ended :: "relay_state \<Rightarrow> bool" where
  "both_ended st \<longleftrightarrow> client_ended st \<and> target_ended st"

definition relay_start :: "conn \<Rightarrow> conn \<Rightarrow> bool \<Rightarrow> relay_state" where
  "relay_start s t shutdown =
     \<lparr>rs_session = s, rs_target = t, rs_tx = 0, rs_rx = 0, client_ended = False,
      target_ended = False, target_shut = False, draining = shutdown\<rparr>"

definition relay_framed_tcp :: "relay_event list \<Rightarrow> conn \<Rightarrow> conn \<Rightarrow> bool \<Rightarrow>
    (anyhow + nat \<times> nat) outcome \<times> relay_state" where
  "relay_framed_tcp es stream outbound shutdown =
     io_bind (relay_run relay_step both_ended es)
       (\<lambda>_ st. (Ready (Inr (rs_tx st, rs_rx st)), st)) (relay_start stream outbound shutdown)"

text \<open>The session's connection after the request, whatever became of it, is part of the result.\<close>

definition relay_open_request :: "(trojan_addr \<Rightarrow> io_error + conn) \<Rightarrow> relay_event list \<Rightarrow> byte \<Rightarrow>
    byte \<Rightarrow> bytes \<Rightarrow> u16 \<Rightarrow> bool \<Rightarrow> (conn, anyhow, nat \<times> nat) action" where
  "relay_open_request connect es c a ad p shutdown stream =
     (if c \<noteq> CMD_CONNECT
      then (Ready (Inl (Anyhow (''unsupported reusable request command: '' @ show_nat (unat c)))), stream)
      else
        (case frame_addr_to_trojan_addr a ad p of
           Inl e \<Rightarrow> (Ready (Inl e), stream)
         | Inr dest \<Rightarrow>
             (case connect dest of
                Inl e \<Rightarrow>
                  (Ready (Inl (Context ''failed to connect reusable request target'' (IoErr e))), stream)
              | Inr outbound \<Rightarrow>
                  (case relay_framed_tcp es stream outbound shutdown of
                     (r, st) \<Rightarrow> (r, rs_session st)))))"

section \<open>The loop is a framed relay\<close>

fun uninterrupted :: "relay_event \<Rightarrow> bool" where
  "uninterrupted OnFrame \<longleftrightarrow> True"
| "uninterrupted (OnTarget k n) \<longleftrightarrow> n = 0"
| "uninterrupted (OnShutdown flag n) \<longleftrightarrow> n = 0"
| "uninterrupted (OnDrain n) \<longleftrightarrow> n = 0"

lemma lose_0 [simp]: "lose 0 st = st"
  by (simp add: lose_def)

lemmas on_conn_Inr = on_session_def on_target_def zoom_Ready_Inr

definition relay_carries :: "relay_state \<Rightarrow> relay_state \<Rightarrow> frame list \<Rightarrow> frame list \<Rightarrow> bool" where
  "relay_carries st st' ins outs \<longleftrightarrow>
     carried ins outs (rs_session st) (rs_target st) (rs_session st') (rs_target st') \<and>
     length ins \<le> 1 \<and> (client_ended st \<longrightarrow> ins = []) \<and>
     rs_tx st' = rs_tx st + length (data_of ins) \<and>
     rs_rx st' = rs_rx st + length (data_of outs) \<and>
     (client_ended st' \<longleftrightarrow> client_ended st \<or> has_end ins) \<and>
     (target_ended st' \<longleftrightarrow> target_ended st \<or> has_end outs) \<and>
     (target_ended st' \<longrightarrow> target_ended st \<or> at_eof (rs_target st'))"

lemma relay_carries_idle:
  "rs_session st' = rs_session st \<Longrightarrow> rs_target st' = rs_target st \<Longrightarrow> rs_tx st' = rs_tx st \<Longrightarrow>
   rs_rx st' = rs_rx st \<Longrightarrow> client_ended st' = client_ended st \<Longrightarrow> target_ended st' = target_ended st \<Longrightarrow>
     relay_carries st st' [] []"
  by (simp add: relay_carries_def carried_refl)

lemma relay_frame_carries:
  assumes "relay_frame st = (Ready (Inr u), st')" "\<not> client_ended st"
  shows "\<exists>ins outs. relay_carries st st' ins outs"
proof -
  from assms(1) obtain f c where r: "read_frame (rs_session st) = (Ready (Inr f), c)"
    and k: "relay_session_frame f (st\<lparr>rs_session := c\<rparr>) = (Ready (Inr u), st')"
    by (auto simp: relay_frame_def io_bind_Ready_Inr on_session_def zoom_Ready_Inr)
  from read_frame_Inr [OF r] have i: "inp (rs_session st) = frame_wire f @ inp c" "out c = out (rs_session st)"
    by (auto dest: arg_cong [of _ _ out])
  consider (data) d where "f = Data d" | (ended) e where "f = EndRequest e" | (ping) t where "f = Ping t"
    using k by (cases f) auto
  then show ?thesis
  proof cases
    case data
    with k obtain t' where w: "write_all d (rs_target st) = (Ready (Inr u), t')"
      and st': "st' = st\<lparr>rs_session := c, rs_tx := rs_tx st + length d, rs_target := t'\<rparr>"
      by (auto simp: on_target_def zoom_Ready_Inr)
    from write_all_result [OF w] st' i data assms(2)
    have "relay_carries st st' [Data d] []"
      by (simp add: relay_carries_def carried_def frames_carry)
    then show ?thesis by blast
  next
    case ended
    with k i assms(2) have "relay_carries st st' [EndRequest e] []"
      by (auto simp: relay_carries_def carried_def frames_carry)
    then show ?thesis by blast
  next
    case ping
    with k obtain c' where w: "write_frame (Pong t) c = (Ready (Inr u), c')"
      and st': "st' = st\<lparr>rs_session := c'\<rparr>"
      by (auto simp: on_session_def zoom_Ready_Inr)
    from write_frame_Inr [OF w] st' i ping assms(2)
    have "relay_carries st st' [Ping t] [Pong t]"
      by (simp add: relay_carries_def carried_def frames_carry)
    then show ?thesis by blast
  qed
qed

lemma relay_target_carries:
  assumes "relay_target k st = (Ready (Inr u), st')" "\<not> target_ended st"
  shows "\<exists>ins outs. relay_carries st st' ins outs"
proof -
  from assms(1) obtain bs t where r: "read_some 16384 k (rs_target st) = (Ready (Inr bs), t)"
    and w: "(if bs = [] then on_session (write_frame (EndRequest 0x00))
               (st\<lparr>rs_target := t, target_ended := True\<rparr>)
             else on_session (write_frame (Data bs))
               (st\<lparr>rs_target := t, rs_rx := rs_rx (st\<lparr>rs_target := t\<rparr>) + length bs\<rparr>)) = (Ready (Inr u), st')"
    by (auto simp: relay_target_def io_bind_Ready_Inr on_target_def zoom_Ready_Inr)
  note R = read_some_Inr [OF r]
  show ?thesis
  proof (cases "bs = []")
    case True
    with w obtain c where c: "write_frame (EndRequest 0x00) (rs_session st) = (Ready (Inr u), c)"
      and st': "st' = st\<lparr>rs_target := t, target_ended := True, rs_session := c\<rparr>"
      by (auto simp: on_session_def zoom_Ready_Inr)
    from write_frame_Inr [OF c] st' R True assms(2) have "relay_carries st st' [] [EndRequest 0x00]"
      by (auto simp: relay_carries_def carried_def frames_carry at_eof_def)
    then show ?thesis by blast
  next
    case False
    with w obtain c where c: "write_frame (Data bs) (rs_session st) = (Ready (Inr u), c)"
      and st': "st' = st\<lparr>rs_target := t, rs_rx := rs_rx st + length bs, rs_session := c\<rparr>"
      by (auto simp: on_session_def zoom_Ready_Inr)
    from write_frame_Inr [OF c] st' R False assms(2) have "relay_carries st st' [] [Data bs]"
      by (auto simp: relay_carries_def carried_def frames_carry)
    then show ?thesis by blast
  qed
qed

lemma relay_step_carries:
  assumes "uninterrupted e" "relay_step e st = (Ready (Inr u), st')"
  shows "\<exists>ins outs. relay_carries st st' ins outs"
proof (cases e)
  case OnFrame
  with assms show ?thesis
    by (auto split: if_splits intro: relay_frame_carries relay_carries_idle)
next
  case (OnTarget k n)
  with assms show ?thesis
    by (auto split: if_splits intro: relay_target_carries relay_carries_idle)
qed (use assms in \<open>auto split: if_splits intro!: exI relay_carries_idle\<close>)

interpretation server_relay: framed_relay rs_session rs_target rs_tx rs_rx client_ended target_ended
    both_ended uninterrupted relay_step
proof unfold_locales
  fix e st u st'
  assume "uninterrupted e" "relay_step e st = (Ready (Inr u), st')"
  from relay_step_carries [OF this] show "\<exists>ins outs. carried ins outs (rs_session st) (rs_target st)
        (rs_session st') (rs_target st') \<and>
      length ins \<le> 1 \<and> (client_ended st \<longrightarrow> ins = []) \<and>
      rs_tx st' = rs_tx st + length (data_of ins) \<and> rs_rx st' = rs_rx st + length (data_of outs) \<and>
      client_ended st' = (client_ended st \<or> has_end ins) \<and>
      target_ended st' = (target_ended st \<or> has_end outs) \<and>
      (target_ended st' \<longrightarrow> target_ended st \<or> at_eof (rs_target st'))"
    unfolding relay_carries_def .
qed

section \<open>Completion\<close>

text \<open>The frames a client sends in a request before it ends it.\<close>

definition request_frame :: "frame \<Rightarrow> bool" where
  "request_frame f \<longleftrightarrow> encodable f \<and> (case f of Data _ \<Rightarrow> True | Ping _ \<Rightarrow> True | _ \<Rightarrow> False)"

definition writable :: "relay_state \<Rightarrow> bool" where
  "writable st \<longleftrightarrow> wr_room (rs_session st) = None \<and> wr_room (rs_target st) = None"

lemma relay_frame_ok:
  assumes "request_frame f" "inp (rs_session st) = frame_wire f @ rest" "writable st"
  shows "\<exists>st'. relay_frame st = (Ready (Inr ()), st') \<and> writable st' \<and> inp (rs_session st') = rest \<and>
    inp (rs_target st') = inp (rs_target st) \<and> inp_end (rs_target st') = inp_end (rs_target st) \<and>
    client_ended st' = client_ended st \<and> target_ended st' = target_ended st \<and>
    out (rs_target st') = out (rs_target st) @ data_of [f] \<and>
    rs_tx st' = rs_tx st + length (data_of [f]) \<and> rs_rx st' = rs_rx st"
proof -
  have r: "read_frame (rs_session st) = (Ready (Inr f), (rs_session st)\<lparr>inp := rest\<rparr>)"
    using assms(1,2) by (intro read_frame_wire) (simp_all add: request_frame_def)
  from assms(1) consider (data) d where "f = Data d" | (ping) t where "f = Ping t"
    by (cases f) (auto simp: request_frame_def)
  then show ?thesis
  proof cases
    case data
    with r assms(3) show ?thesis
      by (simp add: relay_frame_def on_session_def on_target_def zoom_def writable_def write_all_unbounded frames_carry)
  next
    case ping
    have e: "encodable (Pong t)" by (simp add: encodable_def)
    from ping r assms(3) show ?thesis
      by (simp add: relay_frame_def on_session_def zoom_def writable_def frames.send_wire [OF e] frames_carry)
  qed
qed

lemma relay_frame_end:
  assumes "inp (rs_session st) = frame_wire (EndRequest e) @ rest"
  shows "relay_frame st = (Ready (Inr ()), st\<lparr>rs_session := (rs_session st)\<lparr>inp := rest\<rparr>, client_ended := True, target_shut := True\<rparr>)"
proof -
  have "read_frame (rs_session st) = (Ready (Inr (EndRequest e)), (rs_session st)\<lparr>inp := rest\<rparr>)"
    using assms by (intro read_frame_wire) (simp_all add: encodable_def)
  then show ?thesis by (simp add: relay_frame_def on_session_def)
qed

text \<open>A turn of the target takes some of what it has sent, or sees that it has closed.\<close>

lemma relay_target_ok:
  assumes "writable st" "inp_end (rs_target st) = Eof" "\<not> target_ended st"
  shows "\<exists>st'. relay_target k st = (Ready (Inr ()), st') \<and> writable st' \<and> inp (rs_session st') = inp (rs_session st) \<and>
    out (rs_target st') = out (rs_target st) \<and> inp_end (rs_target st') = Eof \<and> client_ended st' = client_ended st \<and>
    rs_tx st' = rs_tx st \<and> rs_rx st' + length (inp (rs_target st')) = rs_rx st + length (inp (rs_target st)) \<and>
    (if inp (rs_target st) = [] then target_ended st' \<and> inp (rs_target st') = []
     else \<not> target_ended st' \<and> length (inp (rs_target st')) < length (inp (rs_target st)))"
proof (cases "inp (rs_target st) = []")
  case True
  have "encodable (EndRequest 0)" by (simp add: encodable_def)
  with True assms show ?thesis
    by (simp add: relay_target_def on_target_def on_session_def zoom_def read_some_def writable_def frames.send_wire)
next
  case False
  define m where "m = min 16384 (max 1 k)"
  then have m: "m \<noteq> 0" "m \<le> 16384" by simp_all
  let ?bs = "take m (inp (rs_target st))"
  have e: "encodable (Data ?bs)" using m(2) by (simp add: encodable_def)
  let ?st = "st\<lparr>rs_target := (rs_target st)\<lparr>inp := drop m (inp (rs_target st))\<rparr>,
               rs_rx := rs_rx st + length ?bs,
               rs_session := (rs_session st)\<lparr>out := out (rs_session st) @ frame_wire (Data ?bs)\<rparr>\<rparr>"
  have "read_some 16384 k (rs_target st) = (Ready (Inr ?bs), (rs_target st)\<lparr>inp := drop m (inp (rs_target st))\<rparr>)"
    using False by (simp add: read_some_def Let_def m_def)
  then have "relay_target k st = (Ready (Inr ()), ?st)"
    using False assms(1) frames.send_wire [OF e, of "rs_session st"] m(1)
    by (simp add: relay_target_def on_target_def on_session_def zoom_def writable_def io_bind_def)
  with assms False m show ?thesis by (simp add: writable_def)
qed

text \<open>
  The schedules on which a relay makes progress: no half-read frame is dropped and the drain time is not over. How often
  each side has a turn.
\<close>

fun goes_on :: "relay_event \<Rightarrow> bool" where
  "goes_on OnFrame \<longleftrightarrow> True"
| "goes_on (OnTarget k n) \<longleftrightarrow> n = 0"
| "goes_on (OnShutdown flag n) \<longleftrightarrow> n = 0"
| "goes_on (OnDrain n) \<longleftrightarrow> False"

fun frame_turns :: "relay_event list \<Rightarrow> nat" where
  "frame_turns [] = 0"
| "frame_turns (OnFrame # es) = Suc (frame_turns es)"
| "frame_turns (_ # es) = frame_turns es"

fun target_turns :: "relay_event list \<Rightarrow> nat" where
  "target_turns [] = 0"
| "target_turns (OnTarget k n # es) = Suc (target_turns es)"
| "target_turns (_ # es) = target_turns es"

text \<open>The frames \<open>fs\<close> and the end of the request are still to be read from the session, if the client has not ended.\<close>

definition on_way :: "frame list \<Rightarrow> byte \<Rightarrow> bytes \<Rightarrow> relay_state \<Rightarrow> bool" where
  "on_way fs e rest st \<longleftrightarrow> writable st \<and> list_all request_frame fs \<and> inp_end (rs_target st) = Eof \<and>
     (if client_ended st then fs = [] else inp (rs_session st) = wires (fs @ [EndRequest e]) @ rest) \<and>
     (target_ended st \<longrightarrow> inp (rs_target st) = [])"

definition relayed :: "frame list \<Rightarrow> relay_state \<Rightarrow> relay_state \<Rightarrow> bool" where
  "relayed fs st st' \<longleftrightarrow> out (rs_target st') = out (rs_target st) @ data_of fs \<and> rs_tx st' = rs_tx st + length (data_of fs) \<and>
     rs_rx st' = rs_rx st + length (inp (rs_target st))"

lemma on_way_frame:
  assumes "on_way (f # fs) e rest st" "\<not> client_ended st"
  shows "\<exists>st'. relay_frame st = (Ready (Inr ()), st') \<and> on_way fs e rest st' \<and> \<not> client_ended st' \<and>
    target_ended st' = target_ended st \<and> inp (rs_target st') = inp (rs_target st) \<and>
    (\<forall>st''. relayed fs st' st'' \<longrightarrow> relayed (f # fs) st st'')"
proof -
  have "request_frame f" "inp (rs_session st) = frame_wire f @ wires (fs @ [EndRequest e]) @ rest" "writable st"
    using assms by (simp_all add: on_way_def wires_def)
  from relay_frame_ok [OF this] obtain st' where r: "relay_frame st = (Ready (Inr ()), st')"
    and k: "writable st'" "inp (rs_session st') = wires (fs @ [EndRequest e]) @ rest"
      "inp (rs_target st') = inp (rs_target st)" "inp_end (rs_target st') = inp_end (rs_target st)"
      "client_ended st' = client_ended st" "target_ended st' = target_ended st"
      "out (rs_target st') = out (rs_target st) @ data_of [f]" "rs_tx st' = rs_tx st + length (data_of [f])"
      "rs_rx st' = rs_rx st" by blast
  have "on_way fs e rest st'" using assms k(1-6) by (simp add: on_way_def)
  moreover have "relayed (f # fs) st st''" if "relayed fs st' st''" for st''
    using that k(3,7-9) frames_carry_append(1) [of "[f]" fs] by (simp add: relayed_def)
  ultimately show ?thesis using r k(3,5,6) assms(2) by blast
qed

lemma on_way_end:
  assumes "on_way [] e rest st" "\<not> client_ended st"
  shows "\<exists>st'. relay_frame st = (Ready (Inr ()), st') \<and> on_way [] e rest st' \<and> client_ended st' \<and>
    target_ended st' = target_ended st \<and> inp (rs_target st') = inp (rs_target st) \<and>
    (\<forall>st''. relayed [] st' st'' \<longrightarrow> relayed [] st st'')"
proof -
  have "inp (rs_session st) = frame_wire (EndRequest e) @ rest" using assms by (simp add: on_way_def wires_def)
  from relay_frame_end [OF this] assms show ?thesis by (auto simp: on_way_def relayed_def writable_def)
qed

lemma on_way_target:
  assumes "on_way fs e rest st" "\<not> target_ended st"
  shows "\<exists>st'. relay_target k st = (Ready (Inr ()), st') \<and> on_way fs e rest st' \<and> client_ended st' = client_ended st \<and>
    (target_ended st' \<or> length (inp (rs_target st')) < length (inp (rs_target st))) \<and>
    (\<forall>st''. relayed fs st' st'' \<longrightarrow> relayed fs st st'')"
proof -
  have "writable st" "inp_end (rs_target st) = Eof" using assms(1) by (simp_all add: on_way_def)
  from relay_target_ok [OF this assms(2), of k] obtain st' where r: "relay_target k st = (Ready (Inr ()), st')"
    and q: "writable st'" "inp (rs_session st') = inp (rs_session st)" "out (rs_target st') = out (rs_target st)"
      "inp_end (rs_target st') = Eof" "client_ended st' = client_ended st" "rs_tx st' = rs_tx st"
      "rs_rx st' + length (inp (rs_target st')) = rs_rx st + length (inp (rs_target st))"
    and t: "if inp (rs_target st) = [] then target_ended st' \<and> inp (rs_target st') = []
      else \<not> target_ended st' \<and> length (inp (rs_target st')) < length (inp (rs_target st))" by blast
  have "on_way fs e rest st'" using assms(1) q(1-5) t by (simp add: on_way_def split: if_splits)
  moreover have "relayed fs st st''" if "relayed fs st' st''" for st'' using that q(3,6,7) by (simp add: relayed_def)
  moreover have "target_ended st' \<or> length (inp (rs_target st')) < length (inp (rs_target st))" using t by (simp split: if_splits)
  ultimately show ?thesis using r q(5) by blast
qed

lemma relay_run_ends:
  "list_all goes_on es \<Longrightarrow> on_way fs e rest st \<Longrightarrow> \<not> both_ended st \<Longrightarrow>
   client_ended st \<or> length fs < frame_turns es \<Longrightarrow>
   target_ended st \<or> length (inp (rs_target st)) < target_turns es \<Longrightarrow>
     \<exists>st'. relay_run relay_step both_ended es st = (Ready (Inr ()), st') \<and> relayed fs st st'"
proof (induction es arbitrary: fs st)
  case Nil
  then show ?case by (simp add: both_ended_def)
next
  case (Cons ev es)
  have last: "relayed fs' st' st'" if "on_way fs' e rest st'" "both_ended st'" for fs' st'
    using that by (simp add: on_way_def relayed_def both_ended_def)
  have goal: ?case
    if "relay_step ev st = (Ready (Inr ()), st1)" "on_way fs1 e rest st1"
      "client_ended st1 \<or> length fs1 < frame_turns es" "target_ended st1 \<or> length (inp (rs_target st1)) < target_turns es"
      "\<And>st''. relayed fs1 st1 st'' \<Longrightarrow> relayed fs st st''" for st1 fs1
    using that last [of fs1 st1] Cons.IH [of fs1 st1] Cons.prems(1) by (cases "both_ended st1") auto
  show ?case
  proof (cases ev)
    case OnFrame
    show ?thesis
    proof (cases "client_ended st")
      case True
      with OnFrame Cons.prems goal [of st fs] show ?thesis by simp
    next
      case c: False
      show ?thesis
      proof (cases fs)
        case Nil
        with on_way_end [of e rest st] Cons.prems(2) c obtain st1 where
          "relay_frame st = (Ready (Inr ()), st1)" "on_way [] e rest st1" "client_ended st1"
          "target_ended st1 = target_ended st" "inp (rs_target st1) = inp (rs_target st)"
          "\<forall>st''. relayed [] st1 st'' \<longrightarrow> relayed [] st st''" by blast
        with OnFrame Nil c Cons.prems show ?thesis by (intro goal [of st1 "[]"]) auto
      next
        case (Cons f fs1)
        with on_way_frame [of f fs1 e rest st] Cons.prems(2) c obtain st1 where
          "relay_frame st = (Ready (Inr ()), st1)" "on_way fs1 e rest st1" "\<not> client_ended st1"
          "target_ended st1 = target_ended st" "inp (rs_target st1) = inp (rs_target st)"
          "\<forall>st''. relayed fs1 st1 st'' \<longrightarrow> relayed (f # fs1) st st''" by blast
        with OnFrame Cons c Cons.prems show ?thesis by (intro goal [of st1 fs1]) auto
      qed
    qed
  next
    case (OnTarget k n)
    show ?thesis
    proof (cases "target_ended st")
      case True
      with OnTarget Cons.prems goal [of st fs] show ?thesis by simp
    next
      case t: False
      with on_way_target [OF Cons.prems(2), of k] obtain st1 where
        "relay_target k st = (Ready (Inr ()), st1)" "on_way fs e rest st1" "client_ended st1 = client_ended st"
        "target_ended st1 \<or> length (inp (rs_target st1)) < length (inp (rs_target st))"
        "\<forall>st''. relayed fs st1 st'' \<longrightarrow> relayed fs st st''" by blast
      with OnTarget t Cons.prems show ?thesis by (intro goal [of st1 fs]) auto
    qed
  next
    case (OnShutdown flag n)
    with Cons.prems show ?thesis
      by (intro goal [of "if draining st then st else st\<lparr>draining := flag\<rparr>" fs])
        (auto simp: on_way_def relayed_def writable_def)
  next
    case (OnDrain n)
    with Cons.prems show ?thesis by simp
  qed
qed

lemma relay_framed_tcp_ends:
  assumes "list_all request_frame fs" "inp s = wires (fs @ [EndRequest e]) @ rest"
    and "wr_room s = None" "wr_room t = None" "inp_end t = Eof"
    and "list_all goes_on es" "length fs < frame_turns es" "length (inp t) < target_turns es"
  shows "\<exists>st'. relay_framed_tcp es s t sd = (Ready (Inr (length (data_of fs), length (inp t))), st') \<and>
    out (rs_target st') = out t @ data_of fs"
proof -
  let ?st = "relay_start s t sd"
  have "on_way fs e rest ?st" "\<not> both_ended ?st"
    using assms(1-5) by (simp_all add: on_way_def relay_start_def writable_def both_ended_def)
  from relay_run_ends [OF assms(6) this] assms(7,8) obtain st' where
    "relay_run relay_step both_ended es ?st = (Ready (Inr ()), st')" "relayed fs ?st st'" by (auto simp: relay_start_def)
  then show ?thesis by (auto simp: relay_framed_tcp_def relayed_def relay_start_def)
qed

definition sample_es :: "relay_event list" where
  "sample_es = [OnFrame, OnTarget 16384 0, OnFrame, OnTarget 16384 0]"

definition sample_s :: conn where
  "sample_s = fresh_conn\<lparr>inp := wires [Data [1, 2], EndRequest 0]\<rparr>"

definition sample_t :: conn where
  "sample_t = fresh_conn\<lparr>inp := [9], inp_end := Eof\<rparr>"

lemma sample_conns:
  "list_all request_frame [Data [1, 2]]" "inp sample_s = wires ([Data [1, 2]] @ [EndRequest 0]) @ []"
  "wr_room sample_s = None" "wr_room sample_t = None" "inp_end sample_t = Eof" "list_all goes_on sample_es"
  "length [Data [1, 2]] < frame_turns sample_es" "length (inp sample_t) < target_turns sample_es"
  by (simp_all add: request_frame_def encodable_def sample_s_def sample_t_def sample_es_def fresh_conn_def)

section \<open>Properties\<close>

lemma has_end_split: "has_end ins \<Longrightarrow> \<not> has_end (butlast ins) \<Longrightarrow> \<exists>fs e. ins = fs @ [EndRequest e]"
  by (cases ins rule: rev_cases) (auto simp: has_end_def split: frame.splits)

text \<open>
  C6. The server's relay of a request is transparent. When it completes, and no iteration dropped a
  partly read frame, then the client has sent some frames and one \<open>EndRequest\<close> after them; the target
  got exactly the data of these frames, in order; the target has closed its side, and everything it
  had sent was written to the session as data frames, in order, with one end of request; every ping
  was answered by its pong; and the two counts returned are the numbers of bytes.
\<close>

theorem relay_transparent:
  assumes "list_all uninterrupted es"
    and "relay_framed_tcp es s t sd = (Ready (Inr (tx, rx)), st')"
  shows "\<exists>fs e outs.
      inp s = wires (fs @ [EndRequest e]) @ inp (rs_session st') \<and> \<not> has_end fs \<and>
      out (rs_target st') = out t @ data_of fs \<and> tx = length (data_of fs) \<and>
      out (rs_session st') = out s @ wires outs \<and> has_end outs \<and>
      data_of outs = inp t \<and> inp_end t = Eof \<and> rx = length (inp t) \<and>
      pong_tokens outs = ping_tokens fs"
proof -
  from assms(2) obtain u where
    r: "relay_run relay_step both_ended es (relay_start s t sd) = (Ready (Inr u), st')"
    and c: "tx = rs_tx st'" "rx = rs_rx st'"
    by (auto simp: relay_framed_tcp_def io_bind_Ready_Inr)
  have "\<not> both_ended (relay_start s t sd)" by (simp add: both_ended_def relay_start_def)
  from server_relay.run_transparent [OF assms(1) this r] obtain ins outs where
    b: "both_ended st'" and t: "server_relay.transparent ins outs (relay_start s t sd) st'" by blast
  then have "has_end ins" "\<not> has_end (butlast ins)"
    by (auto simp: server_relay.transparent_def both_ended_def relay_start_def)
  then obtain fs e where ins: "ins = fs @ [EndRequest e]" using has_end_split by blast
  have "data_of [EndRequest e] = []" "ping_tokens [EndRequest e] = []"
    by (simp_all add: frames_carry)
  with b t c ins show ?thesis
    by (intro exI [of _ fs] exI [of _ e] exI [of _ outs])
       (auto simp: server_relay.transparent_def both_ended_def relay_start_def carried_def at_eof_def)
qed

theorem relay_transparent_witness:
  "\<exists>tx rx st'. relay_framed_tcp sample_es sample_s sample_t False = (Ready (Inr (tx, rx)), st') \<and>
     rx = length (inp sample_t) \<and>
     (\<exists>fs. out (rs_target st') = out sample_t @ data_of fs \<and> tx = length (data_of fs))"
proof -
  obtain tx rx st' where r: "relay_framed_tcp sample_es sample_s sample_t False = (Ready (Inr (tx, rx)), st')"
    using relay_framed_tcp_ends [OF sample_conns, of False] by blast
  have "list_all uninterrupted sample_es" by (simp add: sample_es_def)
  from relay_transparent [OF this r] r show ?thesis by blast
qed

text \<open>
  C31. The relay completes on every fair schedule. Let the client have sent any data and ping frames and the end
  of the request, the target any bytes before it closed, and let both connections take what is
  written. On every schedule on which frames have more turns than there are frames, and the target more turns than it has
  sent bytes, in whatever order and with whatever changes of the shutdown flag among them, the loop ends without an error, with the
  exact counts and with all data at the target; provided that no \<open>select!\<close> drops a frame that is half read, and that
  the time for draining after a shutdown is not over first.
\<close>

theorem relay_completes:
  assumes "list_all request_frame fs" "inp s = wires (fs @ [EndRequest e]) @ rest"
    and "wr_room s = None" "wr_room t = None" "inp_end t = Eof"
    and "list_all goes_on es" "length fs < frame_turns es" "length (inp t) < target_turns es"
  shows "\<exists>st'. relay_framed_tcp es s t sd = (Ready (Inr (length (data_of fs), length (inp t))), st') \<and>
    out (rs_target st') = out t @ data_of fs"
  by (rule relay_framed_tcp_ends [OF assms])

theorem relay_completes_witness:
  "\<exists>st'. relay_framed_tcp sample_es sample_s sample_t False = (Ready (Inr (2, 1)), st') \<and> out (rs_target st') = [1, 2]"
  using relay_completes [OF sample_conns, of False]
  by (simp add: frames_carry sample_t_def fresh_conn_def numeral_2_eq_2)

text \<open>
  C36. The relay is not safe against losing a \<open>select!\<close> race in the middle of a frame. When the target
  sends a byte after the three header bytes of a data frame have been read and before its payload is
  there, the header is lost: whatever frame \<open>f\<close> the relayed data happens to spell is then taken for
  the client's next frame.
\<close>

theorem interrupted_relay_reads_payload_as_frame:
  assumes "encodable f" "length (frame_wire f) \<le> 65535" "\<not> client_ended st" "\<not> target_ended st"
    and "inp (rs_session st) = frame_wire (Data (frame_wire f)) @ rest"
    and "wr_room (rs_session st) = None" "inp (rs_target st) \<noteq> []"
  shows "\<exists>st'. relay_step (OnTarget 1 3) st = (Ready (Inr ()), st') \<and>
    read_frame (rs_session st') = (Ready (Inr f), (rs_session st')\<lparr>inp := rest\<rparr>)"
proof -
  let ?w = "frame_wire f"
  obtain h l where hl: "be16 (of_nat (length ?w)) = [h, l]" by (simp add: be16_def)
  then have len: "unat (of_be16 h l) = length ?w"
    using assms(2) by (simp add: of_be16_be16 unat_len16)
  have i: "inp (rs_session st) = [0x03, h, l] @ ?w @ rest"
    using assms(5) hl by (simp add: frame_wire_def [of "Data ?w"])
  have "0 < length ?w" by (simp add: frame_wire_def)
  let ?c = "(rs_session st)\<lparr>inp := [0x03, h, l], inp_end := Silent\<rparr>"
  have "read_exact 3 ?c = (Ready (Inr [0x03, h, l]), ?c\<lparr>inp := []\<rparr>)"
    by (simp add: read_exact_def)
  moreover have "read_exact (length ?w) (?c\<lparr>inp := []\<rparr>) = (Pending, ?c\<lparr>inp := []\<rparr>)"
    using \<open>0 < length ?w\<close> by (simp add: read_exact_def)
  ultimately have "fst (read_frame ?c) = Pending"
    using len by (simp add: read_frame_def)
  then have l: "interrupted 3 (rs_session st) = (rs_session st)\<lparr>inp := ?w @ rest\<rparr>"
    using i by (simp add: interrupted_def)
  have e: "encodable (Data [hd (inp (rs_target st))])" by (simp add: encodable_def)
  obtain b bs where t: "inp (rs_target st) = b # bs" using assms(7) by (cases "inp (rs_target st)") auto
  let ?s = "(rs_session st)\<lparr>inp := ?w @ rest, out := out (rs_session st) @ frame_wire (Data [b])\<rparr>"
  let ?st = "st\<lparr>rs_session := ?s, rs_target := (rs_target st)\<lparr>inp := bs\<rparr>, rs_rx := rs_rx st + 1\<rparr>"
  have "relay_step (OnTarget 1 3) st = (Ready (Inr ()), ?st)"
    using assms(3,4,6) t l frames.send_wire [OF e, of "(rs_session st)\<lparr>inp := ?w @ rest\<rparr>"]
    by (simp add: lose_def relay_target_def on_target_def on_session_def zoom_def read_some_def io_bind_def)
  moreover have "read_frame ?s = (Ready (Inr f), ?s\<lparr>inp := rest\<rparr>)"
    by (rule read_frame_wire [OF assms(1)]) simp
  ultimately show ?thesis by auto
qed

theorem interrupted_relay_reads_payload_as_frame_witness:
  "let st = relay_start (fresh_conn\<lparr>inp := frame_wire (Data (frame_wire (Reset 7)))\<rparr>) sample_t False
   in \<exists>st'. relay_step (OnTarget 1 3) st = (Ready (Inr ()), st') \<and>
        fst (read_frame (rs_session st')) = Ready (Inr (Reset 7))"
proof -
  let ?st = "relay_start (fresh_conn\<lparr>inp := frame_wire (Data (frame_wire (Reset 7)))\<rparr>) sample_t False"
  have "encodable (Reset 7)" "length (frame_wire (Reset 7)) \<le> 65535" "\<not> client_ended ?st"
    "\<not> target_ended ?st" "inp (rs_session ?st) = frame_wire (Data (frame_wire (Reset 7))) @ []"
    "wr_room (rs_session ?st) = None" "inp (rs_target ?st) \<noteq> []"
    by (simp_all add: encodable_def frame_wire_def relay_start_def sample_t_def fresh_conn_def)
  from interrupted_relay_reads_payload_as_frame [OF this] show ?thesis
    unfolding Let_def by (metis fst_conv)
qed

end
