(* ===== verification/ClientRelay.thy ===== *)
theory ClientRelay
  imports Relay Trojan ServerRelay
begin

text \<open>
  The relay of one request over a reusable session in \<open>shuttle/src/client/plain.rs\<close>: how the encoded
  trojan-like header becomes an \<open>OpenRequest\<close> frame, and the \<open>select!\<close> loop \<open>relay_tcp_frames\<close>
  between the local application and the session. The loop interprets \<^theory_text>\<open>framed_relay\<close>.
\<close>

section \<open>The request header\<close>

text \<open>Indexing a slice out of bounds panics.\<close>

definition open_request_from_trojan_header :: "bytes option \<Rightarrow> (anyhow + frame) outcome" where
  "open_request_from_trojan_header outbuf =
     (case outbuf of
        None \<Rightarrow> Ready (Inl (Anyhow ''reusable tcp relay requires an encoded trojan request''))
      | Some b \<Rightarrow>
          (if length b < 2 then Panics ''index out of bounds''
           else if b ! 1 = 0x03 \<and> length b < 3 then Panics ''index out of bounds''
           else
             (let spans =
                (if b ! 1 = 0x01 then Some (2, 6)
                 else if b ! 1 = 0x04 then Some (2, 18)
                 else if b ! 1 = 0x03 then Some (3, 3 + unat (b ! 2))
                 else None) in
              case spans of
                None \<Rightarrow>
                  Ready (Inl (Anyhow (''unsupported address type in trojan request: '' @ show_nat (unat (b ! 1)))))
              | Some (addr_start, addr_end) \<Rightarrow>
                  (if length b < addr_end + 2 then Ready (Inl (Anyhow ''truncated trojan request header''))
                   else Ready (Inr (OpenRequest (b ! 0) (b ! 1)
                          (take (addr_end - addr_start) (drop addr_start b))
                          (of_be16 (b ! addr_end) (b ! (addr_end + 1)))))))))"

definition trojan_header_len :: "bytes \<Rightarrow> anyhow + nat" where
  "trojan_header_len b =
     (if length b < 4 then Inl (Anyhow ''truncated trojan header'')
      else
        (let addr_len =
           (if b ! 1 = 0x01 then Some 4
            else if b ! 1 = 0x04 then Some 16
            else if b ! 1 = 0x03 then Some (unat (b ! 2) + 1)
            else None) in
         case addr_len of
           None \<Rightarrow>
             Inl (Anyhow (''unsupported address type in trojan request: '' @ show_nat (unat (b ! 1))))
         | Some n \<Rightarrow>
             (let len = 1 + 1 + n + 2 + 2 in
              if length b < len then Inl (Anyhow ''truncated trojan header'') else Inr len)))"

section \<open>The loop\<close>

abbreviation (input) MAX_FIRST_PACKET_SIZE :: nat where "MAX_FIRST_PACKET_SIZE \<equiv> 8192"

record client_relay =
  cr_session :: conn
  cr_inbound :: conn
  cr_tx :: nat
  cr_rx :: nat
  client_closed :: bool
  server_ended :: bool

text \<open>
  The branch of \<open>select!\<close> that wins: \<open>k\<close> bytes of the application, after the dropped \<open>read_frame\<close> had
  consumed some bytes of the session, or a frame of the session.
\<close>

datatype client_event = OnInbound nat nat | OnServerFrame

definition on_cr_session :: "(conn, frame_error, 'a) action \<Rightarrow> (client_relay, anyhow, 'a) action" where
  "on_cr_session = zoom cr_session (\<lambda>c st. st\<lparr>cr_session := c\<rparr>) FrameErr"

definition on_inbound :: "string \<Rightarrow> (conn, io_error, 'a) action \<Rightarrow> (client_relay, anyhow, 'a) action" where
  "on_inbound ctx = zoom cr_inbound (\<lambda>c st. st\<lparr>cr_inbound := c\<rparr>) (\<lambda>e. Context ctx (IoErr e))"

definition relay_inbound :: "nat \<Rightarrow> (client_relay, anyhow, unit) action" where
  "relay_inbound k =
     io_bind (on_inbound ''failed to read inbound client data'' (read_some 16384 k)) (\<lambda>bs st.
       if bs = []
       then on_cr_session (write_frame (EndRequest 0)) (st\<lparr>client_closed := True\<rparr>)
       else on_cr_session (write_frame (Data bs)) (st\<lparr>cr_tx := cr_tx st + length bs\<rparr>))"

text \<open>The reason of the \<open>EndRequest\<close> is \<open>CloseReason::ClientClose as u8\<close>, which is 0.\<close>

fun relay_server_frame :: "frame \<Rightarrow> (client_relay, anyhow, unit) action" where
  "relay_server_frame (Data d) st =
     on_inbound ''failed to write framed server data to inbound client'' (write_all d)
       (st\<lparr>cr_rx := cr_rx st + length d\<rparr>)"
| "relay_server_frame (EndRequest r) st = (Ready (Inr ()), st\<lparr>server_ended := True\<rparr>)"
| "relay_server_frame (Reset r) st =
     (Ready (Inl (Anyhow (''reusable request reset by server: '' @ show_nat (unat r)))), st)"
| "relay_server_frame (Close r) st =
     (Ready (Inl (Anyhow (''reusable session closed by server: '' @ show_nat (unat r)))), st)"
| "relay_server_frame (Ping t) st = on_cr_session (write_frame (Pong t)) st"
| "relay_server_frame f st = (Ready (Inl (Anyhow ''unexpected reusable relay frame'')), st)"

fun client_step :: "client_event \<Rightarrow> (client_relay, anyhow, unit) action" where
  "client_step (OnInbound k n) st =
     (if client_closed st then (Ready (Inr ()), st)
      else relay_inbound k (st\<lparr>cr_session := interrupted n (cr_session st)\<rparr>))"
| "client_step OnServerFrame st = io_bind (on_cr_session read_frame) relay_server_frame st"

text \<open>
  The first packet: what the application sends within \<open>FIRST_PACKET_TIMEOUT\<close> goes into the buffer
  behind the header; \<open>None\<close> when nothing arrives in time. An error of this read is ignored.
\<close>

definition first_packet :: "nat option \<Rightarrow> bytes \<Rightarrow> conn \<Rightarrow> bytes \<times> conn" where
  "first_packet first outbuf c =
     (if length outbuf < MAX_FIRST_PACKET_SIZE then
        (case first of
           None \<Rightarrow> (outbuf, c)
         | Some k \<Rightarrow>
             (case read_some (MAX_FIRST_PACKET_SIZE - length outbuf) k c of
                (Ready (Inr bs), c') \<Rightarrow> (outbuf @ bs, c')
              | (_, c') \<Rightarrow> (outbuf, c')))
      else (outbuf, c))"

definition client_start :: "conn \<Rightarrow> conn \<Rightarrow> client_relay" where
  "client_start s c = \<lparr>cr_session = s, cr_inbound = c, cr_tx = 0, cr_rx = 0, client_closed = False,
     server_ended = False\<rparr>"

definition send_first :: "nat option \<Rightarrow> bytes option \<Rightarrow> (client_relay, anyhow, unit) action" where
  "send_first first outbuf st =
     (case outbuf of
        None \<Rightarrow> (Ready (Inr ()), st)
      | Some b \<Rightarrow>
          (case trojan_header_len b of
             Inl e \<Rightarrow> (Ready (Inl e), st)
           | Inr header_len \<Rightarrow>
               (case first_packet first b (cr_inbound st) of
                  (buf, inbound) \<Rightarrow>
                    (let st = st\<lparr>cr_inbound := inbound\<rparr> in
                     if length buf > header_len then
                       on_cr_session (write_frame (Data (drop header_len buf)))
                         (st\<lparr>cr_tx := cr_tx st + length (drop header_len buf)\<rparr>)
                     else (Ready (Inr ()), st)))))"

definition relay_tcp_frames :: "nat option \<Rightarrow> client_event list \<Rightarrow> bytes option \<Rightarrow> conn \<Rightarrow> conn \<Rightarrow>
    (anyhow + nat \<times> nat) outcome \<times> client_relay" where
  "relay_tcp_frames first es outbuf inbound session =
     io_bind (send_first first outbuf) (\<lambda>_.
     io_bind (relay_run client_step server_ended es)
       (\<lambda>_ st. (Ready (Inr (cr_tx st, cr_rx st)), st))) (client_start session inbound)"

section \<open>The loop is a framed relay\<close>

fun client_quiet :: "client_event \<Rightarrow> bool" where
  "client_quiet (OnInbound k n) \<longleftrightarrow> n = 0"
| "client_quiet OnServerFrame \<longleftrightarrow> True"

definition client_carries :: "client_relay \<Rightarrow> client_relay \<Rightarrow> frame list \<Rightarrow> frame list \<Rightarrow> bool" where
  "client_carries st st' ins outs \<longleftrightarrow>
     carried ins outs (cr_session st) (cr_inbound st) (cr_session st') (cr_inbound st') \<and>
     length ins \<le> 1 \<and> (server_ended st \<longrightarrow> ins = []) \<and>
     cr_rx st' = cr_rx st + length (data_of ins) \<and>
     cr_tx st' = cr_tx st + length (data_of outs) \<and>
     (server_ended st' \<longleftrightarrow> server_ended st \<or> has_end ins) \<and>
     (client_closed st' \<longleftrightarrow> client_closed st \<or> has_end outs) \<and>
     (client_closed st' \<longrightarrow> client_closed st \<or> at_eof (cr_inbound st'))"

lemma server_frame_carries:
  assumes "client_step OnServerFrame st = (Ready (Inr u), st')" "\<not> server_ended st"
  shows "\<exists>ins outs. client_carries st st' ins outs"
proof -
  from assms(1) obtain f c where r: "read_frame (cr_session st) = (Ready (Inr f), c)"
    and k: "relay_server_frame f (st\<lparr>cr_session := c\<rparr>) = (Ready (Inr u), st')"
    by (auto simp: io_bind_Ready_Inr on_cr_session_def zoom_Ready_Inr)
  from read_frame_Inr [OF r] have i: "inp (cr_session st) = frame_wire f @ inp c" "out c = out (cr_session st)"
    by (auto dest: arg_cong [of _ _ out])
  consider (data) d where "f = Data d" | (ended) e where "f = EndRequest e" | (ping) t where "f = Ping t"
    using k by (cases f) auto
  then show ?thesis
  proof cases
    case data
    with k obtain c' where w: "write_all d (cr_inbound st) = (Ready (Inr u), c')"
      and st': "st' = st\<lparr>cr_session := c, cr_rx := cr_rx st + length d, cr_inbound := c'\<rparr>"
      by (auto simp: on_inbound_def zoom_Ready_Inr)
    from write_all_result [OF w] st' i data assms(2) have "client_carries st st' [Data d] []"
      by (simp add: client_carries_def carried_def frames_carry)
    then show ?thesis by blast
  next
    case ended
    with k i assms(2) have "client_carries st st' [EndRequest e] []"
      by (auto simp: client_carries_def carried_def frames_carry)
    then show ?thesis by blast
  next
    case ping
    with k obtain c' where w: "write_frame (Pong t) c = (Ready (Inr u), c')"
      and st': "st' = st\<lparr>cr_session := c'\<rparr>"
      by (auto simp: on_cr_session_def zoom_Ready_Inr)
    from write_frame_Inr [OF w] st' i ping assms(2) have "client_carries st st' [Ping t] [Pong t]"
      by (simp add: client_carries_def carried_def frames_carry)
    then show ?thesis by blast
  qed
qed

lemma relay_inbound_carries:
  assumes "relay_inbound k st = (Ready (Inr u), st')" "\<not> client_closed st"
  shows "\<exists>ins outs. client_carries st st' ins outs"
proof -
  from assms(1) obtain bs t where r: "read_some 16384 k (cr_inbound st) = (Ready (Inr bs), t)"
    and w: "(if bs = [] then on_cr_session (write_frame (EndRequest 0))
               (st\<lparr>cr_inbound := t, client_closed := True\<rparr>)
             else on_cr_session (write_frame (Data bs))
               (st\<lparr>cr_inbound := t, cr_tx := cr_tx (st\<lparr>cr_inbound := t\<rparr>) + length bs\<rparr>)) = (Ready (Inr u), st')"
    by (auto simp: relay_inbound_def io_bind_Ready_Inr on_inbound_def zoom_Ready_Inr)
  note R = read_some_Inr [OF r]
  show ?thesis
  proof (cases "bs = []")
    case True
    with w obtain c where c: "write_frame (EndRequest 0) (cr_session st) = (Ready (Inr u), c)"
      and st': "st' = st\<lparr>cr_inbound := t, client_closed := True, cr_session := c\<rparr>"
      by (auto simp: on_cr_session_def zoom_Ready_Inr)
    from write_frame_Inr [OF c] st' R True assms(2) have "client_carries st st' [] [EndRequest 0]"
      by (auto simp: client_carries_def carried_def frames_carry at_eof_def)
    then show ?thesis by blast
  next
    case False
    with w obtain c where c: "write_frame (Data bs) (cr_session st) = (Ready (Inr u), c)"
      and st': "st' = st\<lparr>cr_inbound := t, cr_tx := cr_tx st + length bs, cr_session := c\<rparr>"
      by (auto simp: on_cr_session_def zoom_Ready_Inr)
    from write_frame_Inr [OF c] st' R False assms(2) have "client_carries st st' [] [Data bs]"
      by (auto simp: client_carries_def carried_def frames_carry)
    then show ?thesis by blast
  qed
qed

lemma client_step_carries:
  assumes "client_quiet e" "\<not> server_ended st" "client_step e st = (Ready (Inr u), st')"
  shows "\<exists>ins outs. client_carries st st' ins outs"
proof (cases e)
  case (OnInbound k n)
  show ?thesis
  proof (cases "client_closed st")
    case True
    with OnInbound assms have "client_carries st st' [] []"
      by (simp add: client_carries_def carried_refl)
    then show ?thesis by blast
  next
    case False
    with OnInbound assms show ?thesis by (simp add: relay_inbound_carries)
  qed
next
  case OnServerFrame
  with assms show ?thesis using server_frame_carries by simp
qed

interpretation client_relay: framed_relay cr_session cr_inbound cr_rx cr_tx server_ended client_closed
    server_ended client_quiet client_step
proof unfold_locales
  fix e st u st'
  assume "client_quiet e" "\<not> server_ended st" "client_step e st = (Ready (Inr u), st')"
  from client_step_carries [OF this] show "\<exists>ins outs. carried ins outs (cr_session st) (cr_inbound st)
        (cr_session st') (cr_inbound st') \<and>
      length ins \<le> 1 \<and> (server_ended st \<longrightarrow> ins = []) \<and>
      cr_rx st' = cr_rx st + length (data_of ins) \<and> cr_tx st' = cr_tx st + length (data_of outs) \<and>
      server_ended st' = (server_ended st \<or> has_end ins) \<and>
      client_closed st' = (client_closed st \<or> has_end outs) \<and>
      (client_closed st' \<longrightarrow> client_closed st \<or> at_eof (cr_inbound st'))"
    unfolding client_carries_def .
qed

lemma first_packet_split:
  "first_packet first b c = (buf, c') \<Longrightarrow>
     \<exists>bs. buf = b @ bs \<and> inp c = bs @ inp c' \<and> out c' = out c \<and> inp_end c' = inp_end c"
  by (auto simp: first_packet_def read_some_def Let_def split: if_splits option.splits read_end.splits)

lemma send_first_Inr:
  assumes "send_first first (Some b) (client_start s c) = (Ready (Inr u), st)"
  shows "\<exists>hl outs. trojan_header_len b = Inr hl \<and> out (cr_session st) = out s @ wires outs \<and>
    drop hl b @ inp c = data_of outs @ inp (cr_inbound st) \<and> cr_tx st = length (data_of outs) \<and>
    inp (cr_session st) = inp s \<and> out (cr_inbound st) = out c \<and> inp_end (cr_inbound st) = inp_end c \<and>
    cr_rx st = 0 \<and> \<not> client_closed st \<and> \<not> server_ended st \<and> \<not> has_end outs \<and> pong_tokens outs = []"
proof -
  from assms obtain hl where hl: "trojan_header_len b = Inr hl"
    by (auto simp: send_first_def split: sum.splits)
  obtain buf c' where p: "first_packet first b c = (buf, c')" by (metis surj_pair)
  from first_packet_split [OF p] obtain bs where bs: "buf = b @ bs" "inp c = bs @ inp c'"
    "out c' = out c" "inp_end c' = inp_end c" by blast
  have "hl \<le> length b"
    using hl by (auto simp: trojan_header_len_def Let_def split: if_splits)
  show ?thesis
  proof (cases "length buf > hl")
    case True
    with assms hl p obtain s' where w: "write_frame (Data (drop hl buf)) s = (Ready (Inr u), s')"
      and st: "st = (client_start s c)\<lparr>cr_inbound := c', cr_tx := length (drop hl buf), cr_session := s'\<rparr>"
      by (auto simp: send_first_def client_start_def on_cr_session_def zoom_Ready_Inr Let_def)
    from write_frame_Inr [OF w] st bs hl \<open>hl \<le> length b\<close> show ?thesis
      by (intro exI [of _ hl] exI [of _ "[Data (drop hl buf)]"])
         (simp add: client_start_def frames_carry)
  next
    case False
    with assms hl p have st: "st = (client_start s c)\<lparr>cr_inbound := c'\<rparr>"
      by (simp add: send_first_def client_start_def Let_def)
    have "length b + length bs \<le> hl" using False bs(1) by simp
    with \<open>hl \<le> length b\<close> have "length bs = 0" "length b \<le> hl" by linarith+
    then have "bs = []" "drop hl b = []" by simp_all
    with st bs hl show ?thesis
      by (intro exI [of _ hl] exI [of _ "[]"]) (simp add: client_start_def)
  qed
qed

section \<open>Properties\<close>

text \<open>
  C21. The client's relay of a request is transparent. When it completes, and no iteration dropped a
  partly read frame, the server has sent some frames and one \<open>EndRequest\<close> after them, and the
  application got exactly their data, in order; everything behind the header in the request buffer,
  followed by what has been read of the application since, went to the session as data frames, in order, and
  the rest of what the application sent is left unread on its connection (the server may end first); an
  \<open>EndRequest\<close> was sent only if the application has closed its side; every ping was answered; and the
  counts returned are the numbers of bytes.
\<close>

theorem client_relay_transparent:
  assumes "list_all client_quiet es"
    and "relay_tcp_frames first es (Some b) inbound s = (Ready (Inr (tx, rx)), st')"
  shows "\<exists>hl fs e outs. trojan_header_len b = Inr hl \<and>
      inp s = wires (fs @ [EndRequest e]) @ inp (cr_session st') \<and> \<not> has_end fs \<and>
      out (cr_inbound st') = out inbound @ data_of fs \<and> rx = length (data_of fs) \<and>
      out (cr_session st') = out s @ wires outs \<and>
      drop hl b @ inp inbound = data_of outs @ inp (cr_inbound st') \<and> tx = length (data_of outs) \<and>
      (has_end outs \<longrightarrow> at_eof (cr_inbound st')) \<and> pong_tokens outs = ping_tokens fs"
proof -
  from assms(2) obtain u st v where f: "send_first first (Some b) (client_start s inbound) = (Ready (Inr u), st)"
    and r: "relay_run client_step server_ended es st = (Ready (Inr v), st')"
    and c: "tx = cr_tx st'" "rx = cr_rx st'"
    by (auto simp: relay_tcp_frames_def io_bind_Ready_Inr)
  from send_first_Inr [OF f] obtain hl o1 where h: "trojan_header_len b = Inr hl"
    "out (cr_session st) = out s @ wires o1" "drop hl b @ inp inbound = data_of o1 @ inp (cr_inbound st)"
    "cr_tx st = length (data_of o1)" "inp (cr_session st) = inp s" "out (cr_inbound st) = out inbound"
    "inp_end (cr_inbound st) = inp_end inbound" "cr_rx st = 0" "\<not> client_closed st" "\<not> server_ended st"
    "\<not> has_end o1" "pong_tokens o1 = []" by blast
  from client_relay.run_transparent [OF assms(1) h(10) r] obtain ins o2 where
    e: "server_ended st'" and t: "client_relay.transparent ins o2 st st'" by blast
  then have "has_end ins" "\<not> has_end (butlast ins)"
    using h(10) by (auto simp: client_relay.transparent_def)
  then obtain fs x where ins: "ins = fs @ [EndRequest x]" using has_end_split by blast
  have "data_of [EndRequest x] = []" "ping_tokens [EndRequest x] = []"
    by (simp_all add: frames_carry)
  with t c ins h show ?thesis
    by (intro exI [of _ hl] exI [of _ fs] exI [of _ x] exI [of _ "o1 @ o2"])
       (auto simp: client_relay.transparent_def carried_def)
qed

definition sample_header :: bytes where
  "sample_header = [0x01, 0x01, 127, 0, 0, 1, 0, 80, 0x0d, 0x0a, 65]"

lemma sample_client_run:
  "\<exists>tx rx st'. relay_tcp_frames None [OnServerFrame, OnServerFrame] (Some sample_header) fresh_conn sample_s
     = (Ready (Inr (tx, rx)), st') \<and> \<not> client_closed st' \<and>
     out (cr_session st') = frame_wire (Data [65]) \<and> inp (cr_session st') = []"
proof -
  let ?c = "fresh_conn\<lparr>inp := frame_wire (Data [1, 2]) @ frame_wire (EndRequest 0)\<rparr>"
  have s: "sample_s = ?c" by (simp add: sample_s_def wires_def)
  have e: "encodable (Data [1, 2])" "encodable (EndRequest 0)" "encodable (Data [65])"
    by (simp_all add: encodable_def)
  have f: "send_first None (Some sample_header) (client_start ?c fresh_conn)
      = (Ready (Inr ()), (client_start (?c\<lparr>out := frame_wire (Data [65])\<rparr>) fresh_conn)\<lparr>cr_tx := 1\<rparr>)"
    using frames.send_wire [OF e(3), of ?c]
    by (simp add: send_first_def trojan_header_len_def sample_header_def first_packet_def client_start_def
        on_cr_session_def fresh_conn_def Let_def)
  let ?d = "?c\<lparr>out := frame_wire (Data [65])\<rparr>"
  have r: "read_frame ?d = (Ready (Inr (Data [1, 2])), ?d\<lparr>inp := frame_wire (EndRequest 0)\<rparr>)"
    "read_frame (?d\<lparr>inp := frame_wire (EndRequest 0)\<rparr>) = (Ready (Inr (EndRequest 0)), ?d\<lparr>inp := []\<rparr>)"
    using read_frame_wire [OF e(1), of ?d "frame_wire (EndRequest 0)"]
      read_frame_wire [OF e(2), of "?d\<lparr>inp := frame_wire (EndRequest 0)\<rparr>" "[]"] by simp_all
  show ?thesis
    unfolding s relay_tcp_frames_def
    using f r
    by (simp add: io_bind_def on_cr_session_def on_inbound_def zoom_def client_start_def fresh_conn_def
        write_all_unbounded)
qed

theorem client_relay_transparent_witness:
  "\<exists>tx rx st'. relay_tcp_frames None [OnServerFrame, OnServerFrame] (Some sample_header) fresh_conn sample_s
     = (Ready (Inr (tx, rx)), st') \<and>
     (\<exists>fs. out (cr_inbound st') = out fresh_conn @ data_of fs \<and> rx = length (data_of fs))"
proof -
  obtain tx rx st' where r: "relay_tcp_frames None [OnServerFrame, OnServerFrame] (Some sample_header)
      fresh_conn sample_s = (Ready (Inr (tx, rx)), st')"
    using sample_client_run by blast
  have "list_all client_quiet [OnServerFrame, OnServerFrame]" by simp
  from client_relay_transparent [OF this r] r show ?thesis by blast
qed

text \<open>
  C22. The destination survives the way from the application to the server: from the encoded header
  of a request, with any payload behind it, \<open>trojan_header_len\<close> finds where the payload starts, and
  \<open>open_request_from_trojan_header\<close> makes a frame from which the server's
  \<open>frame_addr_to_trojan_addr\<close> recovers the same address. The hypothesis on the address codec is that
  it writes the documented format.
\<close>

theorem destination_reaches_server:
  assumes "addr_codec_ok ac" "\<And>a. addr_valid a \<Longrightarrow> ac_bytes ac a = Some (rfc1928_bytes a)"
    and "addr_valid (dest_addr req)"
    and "encoded ac uninit req = Ready w"
  shows "trojan_header_len (w @ rest) = Inr (length w) \<and>
    (\<exists>a ad p. open_request_from_trojan_header (Some (w @ rest))
        = Ready (Inr (OpenRequest (cmd_to_u8 (req_cmd req)) a ad p)) \<and>
      frame_addr_to_trojan_addr a ad p = Inr (dest_addr req))"
proof -
  have w: "w = [cmd_to_u8 (req_cmd req)] @ rfc1928_bytes (dest_addr req) @ [CR, LF]"
    using assms encoded_wire [OF assms(1,3), of uninit]
    by (simp add: request_wire_def addr_wire_def)
  show ?thesis
  proof (cases "dest_addr req")
    case (SocketAddr ip p)
    with assms(3) w show ?thesis
      by (cases ip)
         (auto simp: trojan_header_len_def open_request_from_trojan_header_def Let_def nth_append be16_def
           frame_addr_to_trojan_addr_def)
  next
    case (Domain h p)
    then have "unat (of_nat (length h) :: byte) = length h" "utf8_valid h"
      using assms(3) by (simp_all add: unat_of_nat take_bit_nat_eq_self)
    with Domain w show ?thesis
      by (simp add: trojan_header_len_def open_request_from_trojan_header_def Let_def nth_append be16_def
          frame_addr_to_trojan_addr_def)
  qed
qed

theorem destination_reaches_server_witness:
  "\<exists>w. encoded rfc1928 (\<lambda>_. 0) sample_request = Ready w \<and>
     trojan_header_len (w @ [1, 2, 3]) = Inr (length w)"
proof -
  have v: "addr_valid (dest_addr sample_request)" by (simp add: sample_request_def)
  have "encoded rfc1928 (\<lambda>_. 0) sample_request = Ready (request_wire rfc1928 sample_request)"
    by (rule encoded_wire [OF rfc1928_ok v])
  moreover have "ac_bytes rfc1928 a = Some (rfc1928_bytes a)" for a by (simp add: rfc1928_def)
  ultimately show ?thesis
    using destination_reaches_server [OF rfc1928_ok _ v] by blast
qed

end
