(* ===== verification/Lease.thy ===== *)
theory Lease
  imports "HOL-Library.Multiset"
begin

text \<open>
  The interface between a pool and the tasks that take things from it and give them back. A run
  interleaves acquisitions, releases and the pool's internal steps in any order; \<open>lease_run\<close> keeps
  track of what is held. The locale states what a pool promises of single steps, and proves once
  that its count of outstanding leases is right after any run.
\<close>

inductive lease_run ::
  "('p \<Rightarrow> 'h \<Rightarrow> 'p \<Rightarrow> bool) \<Rightarrow> ('h \<Rightarrow> 'p \<Rightarrow> 'p \<Rightarrow> bool) \<Rightarrow> ('p \<Rightarrow> 'p \<Rightarrow> bool) \<Rightarrow>
   'p \<times> 'h multiset \<Rightarrow> 'p \<times> 'h multiset \<Rightarrow> bool"
  for acquire release internal where
  stay: "lease_run acquire release internal x x"
| acquired: "lease_run acquire release internal x (p, H) \<Longrightarrow> acquire p h q \<Longrightarrow>
     lease_run acquire release internal x (q, add_mset h H)"
| released: "lease_run acquire release internal x (p, add_mset h H) \<Longrightarrow> release h p q \<Longrightarrow>
     lease_run acquire release internal x (q, H)"
| stepped: "lease_run acquire release internal x (p, H) \<Longrightarrow> internal p q \<Longrightarrow>
     lease_run acquire release internal x (q, H)"

lemmas lease_run_induct [consumes 1, case_names stay acquired released stepped] =
  lease_run.induct [split_format (complete)]

locale lease_pool =
  fixes inv :: "'p \<Rightarrow> bool"
    and good :: "'h \<Rightarrow> bool"
    and outstanding :: "'p \<Rightarrow> nat"
    and acquire :: "'p \<Rightarrow> 'h \<Rightarrow> 'p \<Rightarrow> bool"
    and release :: "'h \<Rightarrow> 'p \<Rightarrow> 'p \<Rightarrow> bool"
    and internal :: "'p \<Rightarrow> 'p \<Rightarrow> bool"
  assumes acquire_inv: "inv p \<Longrightarrow> acquire p h q \<Longrightarrow> inv q \<and> good h"
    and acquire_count: "acquire p h q \<Longrightarrow> outstanding q = Suc (outstanding p)"
    and release_inv: "inv p \<Longrightarrow> good h \<Longrightarrow> release h p q \<Longrightarrow> inv q"
    and release_count: "release h p q \<Longrightarrow> outstanding q = outstanding p - 1"
    and internal_inv: "inv p \<Longrightarrow> internal p q \<Longrightarrow> inv q"
    and internal_count: "internal p q \<Longrightarrow> outstanding q = outstanding p"
begin

lemma run_invariant:
  assumes "lease_run acquire release internal (p, H) (q, K)"
    and "inv p" "\<forall>h \<in># H. good h" "outstanding p = size H"
  shows "inv q \<and> (\<forall>h \<in># K. good h) \<and> outstanding q = size K"
  using assms
proof (induction p H q K rule: lease_run_induct)
  case (stay p H)
  then show ?case by simp
next
  case (acquired p H q K h r)
  then show ?case using acquire_inv acquire_count by auto
next
  case (released p H q h K r)
  then show ?case using release_inv [of q h r] release_count [of h q r] by auto
next
  case (stepped p H q K r)
  then show ?case using internal_inv internal_count by metis
qed

lemma all_returned:
  assumes "lease_run acquire release internal (p, {#}) (q, {#})" "inv p" "outstanding p = 0"
  shows "inv q \<and> outstanding q = 0"
  using run_invariant [OF assms(1)] assms(2,3) by simp

end

end
