(* ===== verification/Pool.thy ===== *)
theory Pool
  imports Lifecycle Opt Lease "HOL-Library.Multiset"
begin

text \<open>
  \<open>shuttle/src/client/pool.rs\<close>: the client's pool of reusable sessions. Every operation of
  \<open>SessionPool\<close> runs its critical sections under one mutex, so each critical section is one
  definition on \<open>PoolInner\<close>; \<open>checkout\<close>, which releases the mutex while it connects, is two of
  them. Operations return the session events they emit. A \<open>lease_run\<close> interleaves the
  critical sections of any number of tasks with time, shutdown, connection failures and
  cancellation; the pool invariant holds in every state it reaches. Counters are unbounded naturals: a \<open>u64\<close> that
  counts checkouts does not wrap in the lifetime of a process.
\<close>

section \<open>Sessions and the pool\<close>

record 's pooled_session =
  stream :: 's
  use_count :: nat
  created_at :: instant
  last_used :: instant
  reuse_count :: nat

record 's pool_inner =
  idle :: "'s pooled_session list"
  checked_out :: nat
  closed :: bool
  checkout_count :: nat
  total_reuse_count :: nat

definition pool_new :: "'s pool_inner" where
  "pool_new = \<lparr>idle = [], checked_out = 0, closed = False, checkout_count = 0,
               total_reuse_count = 0\<rparr>"

datatype pool_error =
    ShuttingDown
  | PoolClosed
  | ConnectFailed io_error
  | ClosedWhileConnecting

definition is_reusable :: "reuse_config \<Rightarrow> 's pooled_session \<Rightarrow> instant \<Rightarrow> bool" where
  "is_reusable cfg s now \<longleftrightarrow>
     use_count s < max_requests cfg \<and>
     now - created_at s < max_age cfg \<and>
     now - last_used s < idle_timeout cfg"

definition emit_eviction :: "reuse_config \<Rightarrow> 's pooled_session \<Rightarrow> instant \<Rightarrow> session_event list" where
  "emit_eviction cfg s now =
     (if use_count s \<ge> max_requests cfg then [MaxRequestsEviction]
      else if now - created_at s \<ge> max_age cfg then [MaxAgeEviction]
      else if now - last_used s \<ge> idle_timeout cfg then [IdleEviction]
      else [])"

definition new_session :: "instant \<Rightarrow> io_error + 's \<Rightarrow> (pool_error + 's pooled_session) \<times> session_event list"
  where
  "new_session now connected =
     (case connected of
        Inl e \<Rightarrow> (Inl (ConnectFailed e), [session_event.CheckoutFailed])
      | Inr st \<Rightarrow> (Inr \<lparr>stream = st, use_count = 1, created_at = now, last_used = now,
                       reuse_count = 0\<rparr>, []))"

section \<open>Checkout\<close>

text \<open>The loop that pops idle sessions from the back until one is reusable.\<close>

function pop_reusable :: "reuse_config \<Rightarrow> instant \<Rightarrow> 's pool_inner \<Rightarrow> session_event list \<Rightarrow>
    's pooled_session option \<times> 's pool_inner \<times> session_event list" where
  "pop_reusable cfg now inner ev =
     (if idle inner = [] then (None, inner, ev)
      else
        (let session = last (idle inner);
             inner = inner\<lparr>idle := butlast (idle inner)\<rparr> in
         if is_reusable cfg session now then
           (let session = session\<lparr>use_count := use_count session + 1,
                                  reuse_count := reuse_count session + 1, last_used := now\<rparr>;
                inner = inner\<lparr>checked_out := checked_out inner + 1,
                              checkout_count := checkout_count inner + 1,
                              total_reuse_count := total_reuse_count inner + 1\<rparr> in
            (Some session, inner, ev @ [PoolHit, SessionReused (reuse_count session)]))
         else pop_reusable cfg now inner (ev @ emit_eviction cfg session now)))"
  by pat_completeness auto
termination
  by (relation "measure (\<lambda>(cfg, now, inner, ev). length (idle inner))") auto

declare pop_reusable.simps [simp del]

text \<open>The first part of \<open>checkout\<close>: up to the miss that starts a new connection.\<close>

definition checkout_begin :: "reuse_config \<Rightarrow> bool \<Rightarrow> instant \<Rightarrow> 's pool_inner \<Rightarrow>
    (pool_error + 's pooled_session option) \<times> 's pool_inner \<times> session_event list" where
  "checkout_begin cfg shutdown now inner =
     (if shutdown then (Inl ShuttingDown, inner, [session_event.CheckoutFailed])
      else if closed inner then (Inl PoolClosed, inner, [session_event.CheckoutFailed])
      else
        (case pop_reusable cfg now inner [] of
           (Some session, inner', ev) \<Rightarrow> (Inr (Some session), inner', ev)
         | (None, inner', ev) \<Rightarrow> (Inr None, inner', ev @ [PoolMiss])))"

text \<open>The second part, after the new connection is there or has failed.\<close>

definition checkout_finish :: "bool \<Rightarrow> instant \<Rightarrow> io_error + 's \<Rightarrow> 's pool_inner \<Rightarrow>
    (pool_error + 's pooled_session) \<times> 's pool_inner \<times> session_event list" where
  "checkout_finish shutdown now connected inner =
     (case new_session now connected of
        (Inl e, ev) \<Rightarrow> (Inl e, inner, ev)
      | (Inr session, ev) \<Rightarrow>
          (if closed inner \<or> shutdown
           then (Inl ClosedWhileConnecting, inner, ev @ [session_event.CheckoutFailed])
           else (Inr session,
                 inner\<lparr>checked_out := checked_out inner + 1,
                       checkout_count := checkout_count inner + 1\<rparr>, ev)))"

text \<open>
  The whole of \<open>checkout\<close>: \<open>meanwhile\<close> is what other tasks do to the pool while this one connects,
  and the shutdown flag is read again afterwards.
\<close>

definition checkout :: "reuse_config \<Rightarrow> bool \<Rightarrow> instant \<Rightarrow> instant \<Rightarrow> io_error + 's \<Rightarrow>
    ('s pool_inner \<Rightarrow> 's pool_inner) \<Rightarrow> bool \<Rightarrow> 's pool_inner \<Rightarrow>
    (pool_error + 's pooled_session) \<times> 's pool_inner \<times> session_event list" where
  "checkout cfg shutdown now now' connected meanwhile shutdown' inner =
     (case checkout_begin cfg shutdown now inner of
        (Inl e, inner1, ev) \<Rightarrow> (Inl e, inner1, ev)
      | (Inr (Some session), inner1, ev) \<Rightarrow> (Inr session, inner1, ev)
      | (Inr None, inner1, ev) \<Rightarrow>
          (case checkout_finish shutdown' now' connected (meanwhile inner1) of
             (r, inner2, ev2) \<Rightarrow> (r, inner2, ev @ ev2)))"

section \<open>Return, close, discard\<close>

text \<open>The boolean says whether \<open>drain_notify.notify_waiters()\<close> was called.\<close>

definition return_session :: "reuse_config \<Rightarrow> bool \<Rightarrow> instant \<Rightarrow> 's pooled_session \<Rightarrow> bool \<Rightarrow>
    's pool_inner \<Rightarrow> 's pool_inner \<times> session_event list \<times> bool" where
  "return_session cfg shutdown now session0 healthy inner0 =
     (let session = session0\<lparr>last_used := now\<rparr>;
          notify = (checked_out inner0 \<noteq> 0);
          inner = (if checked_out inner0 = 0 then inner0
                   else inner0\<lparr>checked_out := checked_out inner0 - 1\<rparr>);
          has_other_checked_out = (checked_out inner > 0) in
      if \<not> healthy \<or> \<not> is_reusable cfg session now then
        (inner, (if healthy then emit_eviction cfg session now else []), notify)
      else if closed inner \<or> shutdown then (inner, [], notify)
      else if length (idle inner) \<ge> max_idle cfg then
        (if has_other_checked_out then (inner, [], notify)
         else if idle inner \<noteq> [] then
           (inner\<lparr>idle := tl (idle inner) @ [session]\<rparr>, [IdleEviction], notify)
         else (inner\<lparr>idle := [session]\<rparr>, [], notify))
      else (inner\<lparr>idle := idle inner @ [session]\<rparr>, [], notify))"

text \<open>The critical section that opens \<open>close_all\<close>; the number says how many must be waited for.\<close>

definition close_all_begin :: "'s pool_inner \<Rightarrow> 's pool_inner \<times> nat \<times> session_event list" where
  "close_all_begin inner0 =
     (let inner = inner0\<lparr>closed := True, idle := []\<rparr> in
      (inner, checked_out inner, if checked_out inner = 0 then [GracefulDrain] else []))"

definition discard_checked_out :: "'s pool_inner \<Rightarrow> 's pool_inner \<times> bool" where
  "discard_checked_out inner =
     (if checked_out inner = 0 then (inner, False)
      else (inner\<lparr>checked_out := checked_out inner - 1\<rparr>, True))"

section \<open>Handles with one retry\<close>

record 's session_handle =
  session :: "'s pooled_session option"
  bytes_relayed :: bool
  retry_used :: bool

definition handle_new :: "'s pooled_session \<Rightarrow> 's session_handle" where
  "handle_new s = \<lparr>session = Some s, bytes_relayed = False, retry_used = False\<rparr>"

definition into_session :: "'s session_handle \<Rightarrow> 's pooled_session option" where
  "into_session h = session h"

definition checkout_with_retry :: "(pool_error + 's pooled_session) \<times> 's pool_inner \<times> session_event list \<Rightarrow>
    (pool_error + 's session_handle) \<times> 's pool_inner \<times> session_event list" where
  "checkout_with_retry checked =
     (case checked of
        (Inl e, inner, ev) \<Rightarrow> (Inl e, inner, ev)
      | (Inr s, inner, ev) \<Rightarrow> (Inr (handle_new s), inner, ev))"

definition mark_bytes_relayed :: "'s session_handle \<Rightarrow> 's session_handle" where
  "mark_bytes_relayed h = h\<lparr>bytes_relayed := True\<rparr>"

text \<open>
  \<open>retry_after_protocol_error\<close>. \<open>co\<close> is the call of \<open>checkout\<close> it makes. The error is the one
  passed in, or the one of that checkout.
\<close>

definition retry_after_protocol_error ::
  "('s pool_inner \<Rightarrow> (pool_error + 's pooled_session) \<times> 's pool_inner \<times> session_event list) \<Rightarrow>
   'e \<Rightarrow> 's session_handle \<Rightarrow> 's pool_inner \<Rightarrow>
   (('e + pool_error) + 's session_handle) \<times> 's pool_inner \<times> session_event list" where
  "retry_after_protocol_error co error h inner =
     (if bytes_relayed h \<or> retry_used h then (Inl (Inl error), inner, [])
      else
        (case co (fst (discard_checked_out inner)) of
           (Inl e, inner', ev) \<Rightarrow> (Inl (Inr e), inner', FallbackToOneShot # ev)
         | (Inr s, inner', ev) \<Rightarrow>
             (Inr (h\<lparr>session := Some s, retry_used := True\<rparr>), inner', FallbackToOneShot # ev)))"

section \<open>What a single operation does\<close>

lemma is_reusable_iff_no_eviction: "is_reusable cfg s now \<longleftrightarrow> emit_eviction cfg s now = []"
  by (auto simp: is_reusable_def emit_eviction_def not_less)

abbreviation (input) lease :: "instant \<Rightarrow> 's pooled_session \<Rightarrow> 's pooled_session" where
  "lease now s \<equiv> s\<lparr>use_count := use_count s + 1, reuse_count := reuse_count s + 1, last_used := now\<rparr>"

text \<open>
  The contract of the loop: it takes the last reusable idle session, drops every session behind it,
  and keeps those in front of it; with no reusable session it empties the pool.
\<close>

definition popped :: "reuse_config \<Rightarrow> instant \<Rightarrow> 's pool_inner \<Rightarrow> session_event list \<Rightarrow>
    's pooled_session option \<times> 's pool_inner \<times> session_event list \<Rightarrow> bool" where
  "popped cfg now inner ev r \<longleftrightarrow>
     (\<forall>s \<in> set (idle inner). \<not> is_reusable cfg s now) \<and>
       r = (None, inner\<lparr>idle := []\<rparr>,
            ev @ concat (map (\<lambda>s. emit_eviction cfg s now) (rev (idle inner)))) \<or>
     (\<exists>xs s ys. idle inner = xs @ s # ys \<and> is_reusable cfg s now \<and>
       (\<forall>y \<in> set ys. \<not> is_reusable cfg y now) \<and>
       r = (Some (lease now s),
            inner\<lparr>idle := xs, checked_out := checked_out inner + 1,
                  checkout_count := checkout_count inner + 1,
                  total_reuse_count := total_reuse_count inner + 1\<rparr>,
            ev @ concat (map (\<lambda>y. emit_eviction cfg y now) (rev ys))
              @ [PoolHit, SessionReused (reuse_count s + 1)]))"

lemma popped_skip:
  assumes "popped cfg now (inner\<lparr>idle := xs\<rparr>) (ev @ emit_eviction cfg x now) r"
    and "idle inner = xs @ [x]" "\<not> is_reusable cfg x now"
  shows "popped cfg now inner ev r"
  using assms(1) unfolding popped_def
proof (elim disjE exE conjE)
  fix ps s qs
  assume "idle (inner\<lparr>idle := xs\<rparr>) = ps @ s # qs" "is_reusable cfg s now"
    "\<forall>y \<in> set qs. \<not> is_reusable cfg y now"
    "r = (Some (lease now s), inner\<lparr>idle := xs, idle := ps,
          checked_out := checked_out (inner\<lparr>idle := xs\<rparr>) + 1,
          checkout_count := checkout_count (inner\<lparr>idle := xs\<rparr>) + 1,
          total_reuse_count := total_reuse_count (inner\<lparr>idle := xs\<rparr>) + 1\<rparr>,
        (ev @ emit_eviction cfg x now) @ concat (map (\<lambda>y. emit_eviction cfg y now) (rev qs))
          @ [PoolHit, SessionReused (reuse_count s + 1)])"
  with assms(2,3) show "(\<forall>s \<in> set (idle inner). \<not> is_reusable cfg s now) \<and>
       r = (None, inner\<lparr>idle := []\<rparr>,
            ev @ concat (map (\<lambda>s. emit_eviction cfg s now) (rev (idle inner)))) \<or>
     (\<exists>xs s ys. idle inner = xs @ s # ys \<and> is_reusable cfg s now \<and>
       (\<forall>y \<in> set ys. \<not> is_reusable cfg y now) \<and>
       r = (Some (lease now s),
            inner\<lparr>idle := xs, checked_out := checked_out inner + 1,
                  checkout_count := checkout_count inner + 1,
                  total_reuse_count := total_reuse_count inner + 1\<rparr>,
            ev @ concat (map (\<lambda>y. emit_eviction cfg y now) (rev ys))
              @ [PoolHit, SessionReused (reuse_count s + 1)]))"
    by (intro disjI2 exI [of _ ps] exI [of _ s] exI [of _ "qs @ [x]"]) simp
qed (use assms(2,3) in simp)

lemma pop_reusable_popped: "popped cfg now inner ev (pop_reusable cfg now inner ev)"
proof (induction "idle inner" arbitrary: inner ev rule: rev_induct)
  case Nil
  then have "inner\<lparr>idle := []\<rparr> = inner" by simp
  with Nil show ?case by (simp add: popped_def pop_reusable.simps [of cfg now inner])
next
  case (snoc x xs)
  note x = snoc.hyps(2) [symmetric]
  show ?case
  proof (cases "is_reusable cfg x now")
    case True
    with x show ?thesis
      unfolding popped_def
      by (intro disjI2 exI [of _ xs] exI [of _ x] exI [of _ "[]"])
         (simp add: pop_reusable.simps [of cfg now inner] Let_def)
  next
    case False
    have "pop_reusable cfg now inner ev
        = pop_reusable cfg now (inner\<lparr>idle := xs\<rparr>) (ev @ emit_eviction cfg x now)"
      using False x by (simp add: pop_reusable.simps [of cfg now inner] Let_def)
    moreover have "popped cfg now (inner\<lparr>idle := xs\<rparr>) (ev @ emit_eviction cfg x now)
        (pop_reusable cfg now (inner\<lparr>idle := xs\<rparr>) (ev @ emit_eviction cfg x now))"
      by (rule snoc.hyps(1)) simp
    ultimately show ?thesis
      using popped_skip x False by metis
  qed
qed

lemma checkout_begin_Some:
  assumes "checkout_begin cfg sd now inner = (Inr (Some s), inner', ev)"
  shows "\<not> sd \<and> \<not> closed inner \<and>
    (\<exists>xs s0 ys. idle inner = xs @ s0 # ys \<and> is_reusable cfg s0 now \<and>
       (\<forall>y \<in> set ys. \<not> is_reusable cfg y now) \<and> s = lease now s0 \<and>
       inner' = inner\<lparr>idle := xs, checked_out := checked_out inner + 1,
                      checkout_count := checkout_count inner + 1,
                      total_reuse_count := total_reuse_count inner + 1\<rparr>)"
  using assms pop_reusable_popped [of cfg now inner "[]"]
  by (auto simp: checkout_begin_def popped_def split: if_splits prod.splits option.splits)

lemma checkout_begin_None:
  assumes "checkout_begin cfg sd now inner = (Inr None, inner', ev)"
  shows "\<not> sd \<and> \<not> closed inner \<and> (\<forall>s \<in> set (idle inner). \<not> is_reusable cfg s now) \<and>
    inner' = inner\<lparr>idle := []\<rparr>"
  using assms pop_reusable_popped [of cfg now inner "[]"]
  by (auto simp: checkout_begin_def popped_def split: if_splits prod.splits option.splits)

lemma checkout_begin_Inl:
  "checkout_begin cfg sd now inner = (Inl e, inner', ev) \<Longrightarrow> inner' = inner \<and> (sd \<or> closed inner)"
  by (auto simp: checkout_begin_def split: if_splits prod.splits option.splits)

lemma checkout_finish_Inr:
  "checkout_finish sd now connected inner = (Inr s, inner', ev) \<Longrightarrow>
     (\<exists>st. connected = Inr st \<and> s = \<lparr>stream = st, use_count = 1, created_at = now, last_used = now,
        reuse_count = 0\<rparr>) \<and> \<not> closed inner \<and> \<not> sd \<and>
     inner' = inner\<lparr>checked_out := checked_out inner + 1,
                    checkout_count := checkout_count inner + 1\<rparr>"
  by (auto simp: checkout_finish_def new_session_def split: sum.splits if_splits)

lemma checkout_finish_Inl:
  "checkout_finish sd now connected inner = (Inl e, inner', ev) \<Longrightarrow> inner' = inner"
  by (auto simp: checkout_finish_def new_session_def split: sum.splits if_splits)

section \<open>The invariant\<close>

definition session_wf :: "'s pooled_session \<Rightarrow> bool" where
  "session_wf s \<longleftrightarrow> use_count s = reuse_count s + 1"

definition pool_inv :: "reuse_config \<Rightarrow> 's pool_inner \<Rightarrow> bool" where
  "pool_inv cfg inner \<longleftrightarrow>
     length (idle inner) \<le> max_idle cfg \<and>
     (\<forall>s \<in> set (idle inner). session_wf s \<and> use_count s < max_requests cfg) \<and>
     (closed inner \<longrightarrow> idle inner = [])"

text \<open>A session in use has been handed out at most as often as the configuration allows.\<close>

definition held_ok :: "reuse_config \<Rightarrow> 's pooled_session \<Rightarrow> bool" where
  "held_ok cfg s \<longleftrightarrow> session_wf s \<and> use_count s \<le> max_requests cfg"

lemma pool_inv_new: "pool_inv cfg pool_new"
  by (simp add: pool_inv_def pool_new_def)

lemma return_session_count:
  "checked_out (fst (return_session cfg sd now s h inner)) = checked_out inner - 1"
  by (simp add: return_session_def Let_def)

lemma return_session_closed [simp]:
  "closed (fst (return_session cfg sd now s h inner)) = closed inner"
  by (simp add: return_session_def Let_def)

lemma return_session_notify:
  "snd (snd (return_session cfg sd now s h inner)) \<longleftrightarrow> checked_out inner \<noteq> 0"
  by (simp add: return_session_def Let_def)

lemma return_session_result:
  assumes "return_session cfg sd now s h inner = (inner', ev, notify)"
  shows "checked_out inner' = checked_out inner - 1" "notify \<longleftrightarrow> checked_out inner \<noteq> 0"
    "closed inner' = closed inner"
  using assms return_session_count [of cfg sd now s h inner]
    return_session_notify [of cfg sd now s h inner] return_session_closed [of cfg sd now s h inner]
  by simp_all

lemma return_session_idle:
  "idle (fst (return_session cfg sd now s h inner)) =
     (if h \<and> is_reusable cfg (s\<lparr>last_used := now\<rparr>) now \<and> \<not> closed inner \<and> \<not> sd then
        (if length (idle inner) < max_idle cfg then idle inner @ [s\<lparr>last_used := now\<rparr>]
         else if checked_out inner > 1 then idle inner
         else tl (idle inner) @ [s\<lparr>last_used := now\<rparr>])
      else idle inner)"
  by (auto simp: return_session_def Let_def not_less)

lemma return_session_inv:
  assumes "pool_inv cfg inner" "session_wf s" "0 < max_idle cfg"
  shows "pool_inv cfg (fst (return_session cfg sd now s h inner))"
proof -
  have "set (tl xs) \<subseteq> set xs" for xs :: "'a pooled_session list"
    by (cases xs) auto
  then show ?thesis
    using assms
    unfolding pool_inv_def return_session_idle return_session_closed
    by (auto simp: session_wf_def is_reusable_def)
qed

lemma close_all_begin_eq [simp]:
  "fst (close_all_begin inner) = inner\<lparr>closed := True, idle := []\<rparr>"
  by (simp add: close_all_begin_def Let_def)

section \<open>Any number of tasks\<close>

text \<open>
  The pool together with what its tasks see: the clock, the shutdown flag, and the start times of
  the checkouts that are waiting for a new connection.
\<close>

record 's pool_sys =
  inner_of :: "'s pool_inner"
  connecting :: "instant list"
  shutdown :: bool
  clock :: instant

definition pool_sys_new :: "'s pool_sys" where
  "pool_sys_new = \<lparr>inner_of = pool_new, connecting = [], shutdown = False, clock = 0\<rparr>"

text \<open>
  A task obtains a session: from the idle ones, or because its connection is there. It reads the
  flag and the clock before it waits for the mutex, so both may be out of date.
\<close>

inductive pool_acquire :: "reuse_config \<Rightarrow> 's pool_sys \<Rightarrow> 's pooled_session \<Rightarrow> 's pool_sys \<Rightarrow> bool"
  for cfg where
  hit: "sd \<le> shutdown p \<Longrightarrow> now \<le> clock p \<Longrightarrow>
     checkout_begin cfg sd now (inner_of p) = (Inr (Some s), i, ev) \<Longrightarrow>
     pool_acquire cfg p s (p\<lparr>inner_of := i\<rparr>)"
| connected: "connecting p = ts @ t # us \<Longrightarrow>
     checkout_finish (shutdown p) t (Inr st) (inner_of p) = (Inr s, i, ev) \<Longrightarrow>
     pool_acquire cfg p s (p\<lparr>inner_of := i, connecting := ts @ us\<rparr>)"

text \<open>A task gives up a session: it returns it (its stream has changed), or discards it.\<close>

inductive pool_release :: "reuse_config \<Rightarrow> 's pooled_session \<Rightarrow> 's pool_sys \<Rightarrow> 's pool_sys \<Rightarrow> bool"
  for cfg where
  returned: "now \<le> clock p \<Longrightarrow> return_session cfg (shutdown p) now (s\<lparr>stream := st\<rparr>) healthy (inner_of p)
       = (i, ev, notify) \<Longrightarrow>
     pool_release cfg s p (p\<lparr>inner_of := i\<rparr>)"
| discarded: "discard_checked_out (inner_of p) = (i, notify) \<Longrightarrow>
     pool_release cfg s p (p\<lparr>inner_of := i\<rparr>)"

text \<open>Everything else that happens to the pool.\<close>

inductive pool_internal :: "reuse_config \<Rightarrow> 's pool_sys \<Rightarrow> 's pool_sys \<Rightarrow> bool" for cfg where
  tick: "pool_internal cfg p (p\<lparr>clock := clock p + d\<rparr>)"
| shut: "pool_internal cfg p (p\<lparr>shutdown := True\<rparr>)"
| miss: "sd \<le> shutdown p \<Longrightarrow> now \<le> clock p \<Longrightarrow>
     checkout_begin cfg sd now (inner_of p) = (Inr None, i, ev) \<Longrightarrow>
     pool_internal cfg p (p\<lparr>inner_of := i, connecting := clock p # connecting p\<rparr>)"
| refused: "sd \<le> shutdown p \<Longrightarrow> now \<le> clock p \<Longrightarrow>
     checkout_begin cfg sd now (inner_of p) = (Inl e, i, ev) \<Longrightarrow>
     pool_internal cfg p (p\<lparr>inner_of := i\<rparr>)"
| failed: "connecting p = ts @ t # us \<Longrightarrow>
     checkout_finish (shutdown p) t r (inner_of p) = (Inl e, i, ev) \<Longrightarrow>
     pool_internal cfg p (p\<lparr>inner_of := i, connecting := ts @ us\<rparr>)"
| cancelled: "connecting p = ts @ t # us \<Longrightarrow> pool_internal cfg p (p\<lparr>connecting := ts @ us\<rparr>)"
| closing: "close_all_begin (inner_of p) = (i, n, ev) \<Longrightarrow>
     pool_internal cfg p (p\<lparr>inner_of := i\<rparr>)"

definition pool_sys_inv :: "reuse_config \<Rightarrow> 's pool_sys \<Rightarrow> bool" where
  "pool_sys_inv cfg p \<longleftrightarrow> 0 < max_idle cfg \<and> 0 < max_requests cfg \<and> pool_inv cfg (inner_of p)"

lemma pool_acquire_inv:
  "pool_acquire cfg p s q \<Longrightarrow> pool_sys_inv cfg p \<Longrightarrow> pool_sys_inv cfg q \<and> held_ok cfg s"
proof (induction rule: pool_acquire.induct)
  case hit
  from checkout_begin_Some [OF hit(3)] hit(4) show ?case
    by (auto simp: pool_sys_inv_def pool_inv_def held_ok_def session_wf_def is_reusable_def)
next
  case (connected p ts t us st s i ev)
  from checkout_finish_Inr [OF connected(2)] connected(3) show ?case
    by (auto simp: pool_sys_inv_def pool_inv_def held_ok_def session_wf_def)
qed

lemma pool_acquire_count:
  "pool_acquire cfg p s q \<Longrightarrow> checked_out (inner_of q) = Suc (checked_out (inner_of p))"
  by (induction rule: pool_acquire.induct)
     (auto dest!: checkout_begin_Some checkout_finish_Inr)

lemma pool_release_inv:
  "pool_release cfg s p q \<Longrightarrow> pool_sys_inv cfg p \<Longrightarrow> held_ok cfg s \<Longrightarrow> pool_sys_inv cfg q"
proof (induction rule: pool_release.induct)
  case (returned now p st s healthy i ev notify)
  then have "session_wf (s\<lparr>stream := st\<rparr>)"
    by (simp add: held_ok_def session_wf_def)
  with returned return_session_inv [of cfg "inner_of p" "s\<lparr>stream := st\<rparr>" "shutdown p" now healthy]
  show ?case by (simp add: pool_sys_inv_def)
next
  case (discarded p i notify s)
  then show ?case
    by (auto simp: discard_checked_out_def pool_sys_inv_def pool_inv_def split: if_splits)
qed

lemma pool_release_count:
  "pool_release cfg s p q \<Longrightarrow> checked_out (inner_of q) = checked_out (inner_of p) - 1"
proof (induction rule: pool_release.induct)
  case returned
  from return_session_result(1) [OF returned(2)] show ?case by simp
qed (auto simp: discard_checked_out_def split: if_splits)

lemma pool_internal_inv: "pool_internal cfg p q \<Longrightarrow> pool_sys_inv cfg p \<Longrightarrow> pool_sys_inv cfg q"
proof (induction rule: pool_internal.induct)
  case (closing p i n ev)
  then have "i = (inner_of p)\<lparr>closed := True, idle := []\<rparr>"
    using close_all_begin_eq [of "inner_of p"] by simp
  with closing show ?case by (simp add: pool_sys_inv_def pool_inv_def)
qed (auto simp: pool_sys_inv_def pool_inv_def
    dest!: checkout_begin_None checkout_begin_Inl checkout_finish_Inl)

lemma pool_internal_count:
  "pool_internal cfg p q \<Longrightarrow> checked_out (inner_of q) = checked_out (inner_of p)"
proof (induction rule: pool_internal.induct)
  case (closing p i n ev)
  then show ?case using close_all_begin_eq [of "inner_of p"] by simp
qed (auto dest!: checkout_begin_None checkout_begin_Inl checkout_finish_Inl)

interpretation pool: lease_pool "pool_sys_inv cfg" "held_ok cfg" "\<lambda>p. checked_out (inner_of p)"
    "pool_acquire cfg" "pool_release cfg" "pool_internal cfg" for cfg
  by unfold_locales
     (simp_all add: pool_acquire_inv pool_acquire_count pool_release_inv pool_release_count
        pool_internal_inv pool_internal_count)

section \<open>The drain loop of \<open>close_all\<close>\<close>

text \<open>
  \<open>close_all\<close> waits, under a timeout, in a loop that takes the mutex, looks at \<open>checked_out\<close>,
  releases the mutex, and then waits for \<open>drain_notify\<close>. \<open>notify_waiters\<close> wakes the tasks that are
  already waiting and leaves nothing behind for one that starts to wait later. The places in the
  loop are: about to look, looked and seen sessions out, waiting, and the two ends.
\<close>

datatype drain_pc = Looking | SeenOut | Waiting | Drained | DrainTimedOut

inductive drain_step :: "reuse_config \<Rightarrow> 's pool_inner \<times> drain_pc \<Rightarrow> 's pool_inner \<times> drain_pc \<Rightarrow> bool"
  for cfg where
  look_none: "checked_out i = 0 \<Longrightarrow> drain_step cfg (i, Looking) (i, Drained)"
| look_some: "checked_out i \<noteq> 0 \<Longrightarrow> drain_step cfg (i, Looking) (i, SeenOut)"
| notified: "drain_step cfg (i, SeenOut) (i, Waiting)"
| given_back: "return_session cfg sd now s healthy i = (i', ev, notify) \<Longrightarrow>
     drain_step cfg (i, pc) (i', if notify \<and> pc = Waiting then Looking else pc)"
| thrown_away: "discard_checked_out i = (i', notify) \<Longrightarrow>
     drain_step cfg (i, pc) (i', if notify \<and> pc = Waiting then Looking else pc)"
| time_over: "pc \<in> {Looking, SeenOut, Waiting} \<Longrightarrow> drain_step cfg (i, pc) (i, DrainTimedOut)"

inductive_cases drain_stepE: "drain_step cfg x y"

definition drain_run :: "reuse_config \<Rightarrow> 's pool_inner \<times> drain_pc \<Rightarrow> 's pool_inner \<times> drain_pc \<Rightarrow> bool"
  where "drain_run cfg = (drain_step cfg)\<^sup>*\<^sup>*"

lemma drain_step_count:
  "drain_step cfg (i, pc) (i', pc') \<Longrightarrow>
     checked_out i' \<le> checked_out i \<and> (pc' = Drained \<longrightarrow> pc = Drained \<or> checked_out i = 0 \<and> i' = i)"
  by (erule drain_stepE)
     (auto simp: discard_checked_out_def split: if_splits dest: return_session_result(1))

lemma drain_run_drained:
  "drain_run cfg x y \<Longrightarrow>
     checked_out (fst y) \<le> checked_out (fst x) \<and>
     (snd x \<noteq> Drained \<longrightarrow> snd y = Drained \<longrightarrow> checked_out (fst y) = 0)"
  unfolding drain_run_def
proof (induction rule: rtranclp_induct)
  case base
  then show ?case by simp
next
  case (step y z)
  then show ?case
    using drain_step_count [of cfg "fst y" "snd y" "fst z" "snd z"] by auto
qed

text \<open>Once every session is back, a waiting \<open>close_all\<close> can only time out.\<close>

lemma drain_stuck:
  "drain_run cfg x y \<Longrightarrow> checked_out (fst x) = 0 \<Longrightarrow> snd x = Waiting \<Longrightarrow>
     checked_out (fst y) = 0 \<and> snd y \<in> {Waiting, DrainTimedOut}"
  unfolding drain_run_def
proof (induction rule: rtranclp_induct)
  case base
  then show ?case by simp
next
  case (step y z)
  then have y: "checked_out (fst y) = 0" "snd y \<in> {Waiting, DrainTimedOut}" by simp_all
  have "drain_step cfg (fst y, snd y) (fst z, snd z)" using step by simp
  then show ?case
    using y
    by (cases rule: drain_step.cases)
       (auto simp: discard_checked_out_def split: if_splits dest: return_session_result(1,2))
qed

text \<open>A session that comes back while the loop waits wakes it.\<close>

lemma drain_step_wakes:
  "drain_step cfg (i1, Waiting) (i2, pc) \<Longrightarrow> checked_out i2 < checked_out i1 \<Longrightarrow> pc = Looking"
  by (erule drain_stepE) (auto simp: discard_checked_out_def split: if_splits dest: return_session_result(1,2))

lemma drain_step_looks:
  "drain_step cfg (i1, Looking) (i2, pc) \<Longrightarrow> checked_out i1 = 0 \<Longrightarrow>
     checked_out i2 = 0 \<and> pc \<in> {Looking, Drained, DrainTimedOut}"
  by (frule drain_step_count, erule drain_stepE) auto

text \<open>All sessions may come back after the loop has seen them out and before it waits.\<close>

lemma drain_discards: "drain_run cfg (i, SeenOut) (i\<lparr>checked_out := 0\<rparr>, SeenOut)"
proof (induction "checked_out i" arbitrary: i)
  case 0
  then have "i\<lparr>checked_out := 0\<rparr> = i" by simp
  then show ?case by (simp add: drain_run_def)
next
  case (Suc n)
  let ?i = "i\<lparr>checked_out := n\<rparr>"
  have "discard_checked_out i = (?i, True)" using Suc.hyps(2) by (simp add: discard_checked_out_def flip: Suc.hyps(2))
  from drain_step.thrown_away [OF this, of cfg SeenOut] have "drain_step cfg (i, SeenOut) (?i, SeenOut)" by simp
  moreover have "drain_run cfg (?i, SeenOut) (?i\<lparr>checked_out := 0\<rparr>, SeenOut)" by (rule Suc.hyps(1)) simp
  ultimately show ?case unfolding drain_run_def by (simp add: converse_rtranclp_into_rtranclp)
qed

lemma drain_misses:
  assumes "checked_out i \<noteq> 0"
  shows "drain_run cfg (i, Looking) (i\<lparr>checked_out := 0\<rparr>, Waiting)"
  using drain_step.look_some [OF assms, of cfg] drain_discards [of cfg i] drain_step.notified [of cfg "i\<lparr>checked_out := 0\<rparr>"]
  unfolding drain_run_def by (meson converse_rtranclp_into_rtranclp rtranclp.rtrancl_into_rtrancl)

section \<open>Properties\<close>

abbreviation (input) pool_run :: "reuse_config \<Rightarrow> 's pool_sys \<times> 's pooled_session multiset \<Rightarrow>
    's pool_sys \<times> 's pooled_session multiset \<Rightarrow> bool" where
  "pool_run cfg \<equiv> lease_run (pool_acquire cfg) (pool_release cfg) (pool_internal cfg)"

definition sample_config :: reuse_config where
  "sample_config = \<lparr>max_idle = 1, max_requests = 3, max_age = 60, idle_timeout = 30,
     keepalive_interval = 10, keepalive_timeout = 5, jitter_percent = 0\<rparr>"

definition sample_session :: "nat \<Rightarrow> nat pooled_session" where
  "sample_session st = \<lparr>stream = st, use_count = 1, created_at = 0, last_used = 0, reuse_count = 0\<rparr>"

lemma sample_run:
  "\<exists>p. pool_run sample_config (pool_sys_new, {#}) (p, {# sample_session 7 #})"
proof -
  let ?r = "lease_run (pool_acquire sample_config) (pool_release sample_config)
              (pool_internal sample_config)"
  define p0 :: "nat pool_sys" where "p0 = pool_sys_new"
  define p1 where "p1 = p0\<lparr>inner_of := pool_new, connecting := [0]\<rparr>"
  define i2 where "i2 = (pool_new :: nat pool_inner)\<lparr>checked_out := 1, checkout_count := 1\<rparr>"
  have "?r (p0, {#}) (p0, {#})" by (rule lease_run.stay)
  moreover have "pool_internal sample_config p0 p1"
    using pool_internal.miss [of False p0 0 sample_config pool_new "[PoolMiss]"]
    by (simp add: p1_def p0_def pool_sys_new_def pool_new_def checkout_begin_def pop_reusable.simps)
  ultimately have "?r (p0, {#}) (p1, {#})" by (rule lease_run.stepped)
  moreover have "pool_acquire sample_config p1 (sample_session 7) (p1\<lparr>inner_of := i2, connecting := []\<rparr>)"
    using pool_acquire.connected [of p1 "[]" 0 "[]" 7 "sample_session 7" i2 "[]" sample_config]
    by (simp add: p1_def p0_def pool_sys_new_def pool_new_def checkout_finish_def new_session_def
        sample_session_def i2_def)
  ultimately have "?r (p0, {#}) (p1\<lparr>inner_of := i2, connecting := []\<rparr>, {# sample_session 7 #})"
    by (rule lease_run.acquired)
  then show ?thesis unfolding p0_def by blast
qed

text \<open>
  C2. Whatever the tasks of the client do and however their critical sections interleave with time,
  failing connections, cancellation, shutdown and \<open>close_all\<close>: the pool never keeps more idle
  sessions than configured, keeps only sessions that may serve another request, keeps none after it
  was closed, hands no session out more often than the configuration allows, and its count of
  checked-out sessions is exact.
\<close>

theorem pool_invariant:
  assumes "0 < max_idle cfg" "0 < max_requests cfg"
    and "pool_run cfg (pool_sys_new, {#}) (p, held)"
  shows "pool_inv cfg (inner_of p) \<and>
    (\<forall>s \<in># held. use_count s \<le> max_requests cfg) \<and>
    checked_out (inner_of p) = size held"
proof -
  have "pool_sys_inv cfg pool_sys_new" "checked_out (inner_of pool_sys_new) = 0"
    using assms(1,2) pool_inv_new [of cfg]
    by (simp_all add: pool_sys_inv_def pool_sys_new_def) (simp add: pool_new_def)
  with pool.run_invariant [OF assms(3)] show ?thesis
    by (auto simp: pool_sys_inv_def held_ok_def)
qed

theorem pool_invariant_witness:
  "\<exists>p. pool_run sample_config (pool_sys_new, {#}) (p, {# sample_session 7 #}) \<and>
       pool_inv sample_config (inner_of p) \<and> checked_out (inner_of p) = 1"
proof -
  obtain p where p: "pool_run sample_config (pool_sys_new, {#}) (p, {# sample_session 7 #})"
    using sample_run by blast
  have "0 < max_idle sample_config" "0 < max_requests sample_config"
    by (simp_all add: sample_config_def)
  from pool_invariant [OF this p] p show ?thesis by auto
qed

text \<open>
  C27. What a successful \<open>checkout\<close> returns. The pool was neither closed nor shutting down, and
  either the session is the most recently returned idle session that is still below its request,
  age and idle limits, with its use counted, and every more recent one has been evicted because it
  had exceeded a limit; or no idle session was within its limits and the session is a newly
  connected one with one use, obtained while the pool stayed open.
\<close>

theorem checkout_result:
  assumes "checkout cfg sd now now' connected meanwhile sd' inner = (Inr s, inner', ev)"
  shows "\<not> sd \<and> \<not> closed inner \<and>
    ((\<exists>xs s0 ys. idle inner = xs @ s0 # ys \<and> is_reusable cfg s0 now \<and>
        (\<forall>y \<in> set ys. emit_eviction cfg y now \<noteq> []) \<and>
        stream s = stream s0 \<and> use_count s = use_count s0 + 1 \<and> created_at s = created_at s0 \<and>
        last_used s = now \<and> idle inner' = xs \<and> checked_out inner' = checked_out inner + 1)
     \<or> (\<forall>x \<in> set (idle inner). emit_eviction cfg x now \<noteq> []) \<and>
        connected = Inr (stream s) \<and> use_count s = 1 \<and> created_at s = now' \<and> \<not> sd' \<and>
        \<not> closed (meanwhile (inner\<lparr>idle := []\<rparr>)) \<and>
        checked_out inner' = checked_out (meanwhile (inner\<lparr>idle := []\<rparr>)) + 1)"
proof -
  obtain r inner1 ev1 where b: "checkout_begin cfg sd now inner = (r, inner1, ev1)"
    by (metis prod_cases3)
  consider (err) e where "r = Inl e" | (hit) s1 where "r = Inr (Some s1)" | (miss) "r = Inr None"
    by (metis option.exhaust sum.exhaust)
  then show ?thesis
  proof cases
    case err
    with b assms show ?thesis by (simp add: checkout_def)
  next
    case hit
    with b assms have "checkout_begin cfg sd now inner = (Inr (Some s), inner', ev)"
      by (simp add: checkout_def)
    from checkout_begin_Some [OF this] show ?thesis
      by (auto simp: is_reusable_iff_no_eviction)
  next
    case miss
    with b have m: "checkout_begin cfg sd now inner = (Inr None, inner1, ev1)" by simp
    with assms obtain ev2 where
      f: "checkout_finish sd' now' connected (meanwhile inner1) = (Inr s, inner', ev2)"
      by (auto simp: checkout_def split: prod.splits)
    from checkout_finish_Inr [OF f] checkout_begin_None [OF m] show ?thesis
      by (auto simp: is_reusable_iff_no_eviction)
  qed
qed

theorem checkout_result_witness:
  "\<exists>inner' ev. checkout sample_config False 5 5 (Inl (IoError Other '''')) id False
       (pool_new\<lparr>idle := [sample_session 7]\<rparr>) = (Inr (lease 5 (sample_session 7)), inner', ev) \<and>
     idle inner' = []"
proof -
  have "\<exists>inner' ev. checkout sample_config False 5 5 (Inl (IoError Other '''')) id False
       (pool_new\<lparr>idle := [sample_session 7]\<rparr>) = (Inr (lease 5 (sample_session 7)), inner', ev)"
    by (simp add: checkout_def checkout_begin_def pop_reusable.simps is_reusable_def
        sample_config_def sample_session_def pool_new_def)
  then obtain inner' ev where c: "checkout sample_config False 5 5 (Inl (IoError Other '''')) id
      False (pool_new\<lparr>idle := [sample_session 7]\<rparr>) = (Inr (lease 5 (sample_session 7)), inner', ev)"
    by blast
  have "idle inner' = []"
    using checkout_result [OF c] by (auto simp: Cons_eq_append_conv)
  with c show ?thesis by blast
qed

text \<open>
  A session that is returned healthy and within its limits, to an open pool with room for it,
  is the one the next checkout gets, on the same connection and with one more use counted, as long
  as that checkout comes before the session's age or idle limit is over. No new connection is made.
\<close>

lemma return_then_checkout:
  assumes "is_reusable cfg (s\<lparr>last_used := t1\<rparr>) t1" "\<not> closed inner"
    and "length (idle inner) < max_idle cfg"
    and "t2 - created_at s < max_age cfg" "t2 - t1 < idle_timeout cfg"
  shows "\<exists>inner' ev. checkout_begin cfg False t2 (fst (return_session cfg False t1 s True inner)) =
      (Inr (Some (lease t2 s)), inner', ev) \<and> idle inner' = idle inner"
proof -
  let ?i = "fst (return_session cfg False t1 s True inner)"
  have i: "idle ?i = idle inner @ [s\<lparr>last_used := t1\<rparr>]" "\<not> closed ?i"
    using assms by (simp_all add: return_session_idle)
  have "is_reusable cfg (s\<lparr>last_used := t1\<rparr>) t2"
    using assms(1,4,5) by (simp add: is_reusable_def)
  with i show ?thesis
    by (simp add: checkout_begin_def pop_reusable.simps [of cfg t2 ?i] Let_def)
qed

lemma acquire_open: "pool_acquire cfg p s q \<Longrightarrow> \<not> closed (inner_of p)"
  by (induction rule: pool_acquire.induct) (auto dest!: checkout_begin_Some checkout_finish_Inr)

lemma release_closed: "pool_release cfg s p q \<Longrightarrow> closed (inner_of q) = closed (inner_of p)"
  by (induction rule: pool_release.induct)
     (auto simp: discard_checked_out_def split: if_splits dest: return_session_result(3))

lemma internal_closed: "pool_internal cfg p q \<Longrightarrow> closed (inner_of p) \<Longrightarrow> closed (inner_of q)"
proof (induction rule: pool_internal.induct)
  case (closing p i n ev)
  then show ?case using close_all_begin_eq [of "inner_of p"] by simp
qed (auto dest!: checkout_begin_None checkout_begin_Inl checkout_finish_Inl)

text \<open>
  C28. After \<open>close_all\<close> has set the flag no task gets a session any more, whether it asks later or
  was already connecting, and no returned session is kept: the sessions in use only become fewer,
  the pool stays closed and stays without idle sessions.
\<close>

theorem closed_pool_only_drains:
  assumes "pool_run cfg (p, H) (q, K)" "closed (inner_of p)" "idle (inner_of p) = []"
  shows "closed (inner_of q) \<and> idle (inner_of q) = [] \<and> K \<subseteq># H"
  using assms
proof (induction p H q K rule: lease_run_induct)
  case (stay p H)
  then show ?case by simp
next
  case (acquired p H q K h r)
  then show ?case using acquire_open [of cfg q h r] by blast
next
  case (released p H q h K r)
  then have "closed (inner_of q)" "idle (inner_of q) = []" "add_mset h K \<subseteq># H"
    by auto
  moreover from released(2) this(1,2) have "idle (inner_of r) = []"
    by (induction rule: pool_release.induct)
       (auto simp: discard_checked_out_def split: if_splits
         dest!: arg_cong [where f = "\<lambda>r. idle (fst r)"], simp add: return_session_idle)
  ultimately show ?case
    using release_closed [OF released(2)] mset_subset_eq_insertD by (metis subset_mset.less_imp_le)
next
  case (stepped p H q K r)
  then have "closed (inner_of q)" "idle (inner_of q) = []" "K \<subseteq># H" by auto
  moreover from stepped(2) this(1,2) have "idle (inner_of r) = []"
    by (induction rule: pool_internal.induct)
       (auto dest!: checkout_begin_None checkout_begin_Inl checkout_finish_Inl
         simp: close_all_begin_def Let_def)
  ultimately show ?case using internal_closed [OF stepped(2)] by blast
qed

theorem closed_pool_only_drains_witness:
  "\<exists>q. pool_run sample_config
      (pool_sys_new\<lparr>inner_of := pool_new\<lparr>closed := True, checked_out := 1\<rparr>\<rparr>, {# sample_session 7 #}) (q, {#}) \<and>
    closed (inner_of q) \<and> idle (inner_of q) = []"
proof -
  let ?i = "pool_new\<lparr>closed := True, checked_out := 1\<rparr> :: nat pool_inner"
  let ?p = "pool_sys_new\<lparr>inner_of := ?i\<rparr>"
  let ?q = "?p\<lparr>inner_of := ?i\<lparr>checked_out := 0\<rparr>\<rparr>"
  have "pool_release sample_config (sample_session 7) ?p ?q"
    by (rule pool_release.discarded) (simp add: discard_checked_out_def)
  then have r: "pool_run sample_config (?p, {# sample_session 7 #}) (?q, {#})"
    by (rule lease_run.released [OF lease_run.stay])
  have "closed (inner_of ?p)" "idle (inner_of ?p) = []"
    by (simp_all add: pool_new_def)
  from closed_pool_only_drains [OF r this] r show ?thesis by blast
qed

text \<open>
  C35. However many sessions are checked out, the drain loop of \<open>close_all\<close> reports a completed drain only when none is
  left. Every session that comes back while the loop waits makes it look again, and when it looks
  after the last one it can only report the drain, unless the timeout is over. But the
  loop takes its place among the waiters only after it has released the mutex, so there is always a run
  in which all sessions come back in between: from then on the only possible end is the
  timeout, although nothing is checked out.
\<close>

theorem drain_outcome:
  "(\<forall>i'. drain_run cfg (i, Looking) (i', Drained) \<longrightarrow> checked_out i' = 0) \<and>
   (\<forall>i1 i2 pc. drain_step cfg (i1, Waiting) (i2, pc) \<and> checked_out i2 < checked_out i1 \<longrightarrow> pc = Looking) \<and>
   (\<forall>i1 i2 pc. drain_step cfg (i1, Looking) (i2, pc) \<and> checked_out i1 = 0 \<longrightarrow>
      checked_out i2 = 0 \<and> pc \<in> {Looking, Drained, DrainTimedOut}) \<and>
   (checked_out i \<noteq> 0 \<longrightarrow> (\<exists>i'. drain_run cfg (i, Looking) (i', Waiting) \<and> checked_out i' = 0 \<and>
      (\<forall>i'' pc. drain_run cfg (i', Waiting) (i'', pc) \<longrightarrow> pc = Waiting \<or> pc = DrainTimedOut)))"
proof (intro conjI)
  show "\<forall>i'. drain_run cfg (i, Looking) (i', Drained) \<longrightarrow> checked_out i' = 0"
    using drain_run_drained [of cfg "(i, Looking)"] by fastforce
  show "\<forall>i1 i2 pc. drain_step cfg (i1, Waiting) (i2, pc) \<and> checked_out i2 < checked_out i1 \<longrightarrow> pc = Looking"
    using drain_step_wakes by blast
  show "\<forall>i1 i2 pc. drain_step cfg (i1, Looking) (i2, pc) \<and> checked_out i1 = 0 \<longrightarrow>
      checked_out i2 = 0 \<and> pc \<in> {Looking, Drained, DrainTimedOut}"
    using drain_step_looks by blast
  show "checked_out i \<noteq> 0 \<longrightarrow> (\<exists>i'. drain_run cfg (i, Looking) (i', Waiting) \<and> checked_out i' = 0 \<and>
      (\<forall>i'' pc. drain_run cfg (i', Waiting) (i'', pc) \<longrightarrow> pc = Waiting \<or> pc = DrainTimedOut))"
    using drain_misses [of i cfg] drain_stuck by fastforce
qed

theorem drain_outcome_witness:
  "let i = pool_new\<lparr>closed := True, checked_out := 2\<rparr> :: nat pool_inner in
   (\<exists>i'. drain_run sample_config (i, Looking) (i', Waiting) \<and> checked_out i' = 0) \<and>
   (\<exists>i'. drain_step sample_config (i, Waiting) (i', Looking) \<and> checked_out i' = 1)"
proof -
  let ?i = "pool_new\<lparr>closed := True, checked_out := 2\<rparr> :: nat pool_inner"
  have d: "discard_checked_out ?i = (?i\<lparr>checked_out := 1\<rparr>, True)" by (simp add: discard_checked_out_def)
  obtain pc where s: "drain_step sample_config (?i, Waiting) (?i\<lparr>checked_out := 1\<rparr>, pc)"
    using drain_step.thrown_away [OF d] by blast
  have "checked_out (?i\<lparr>checked_out := 1\<rparr>) < checked_out ?i" by simp
  with s drain_outcome [of sample_config ?i] have "pc = Looking" by blast
  moreover have "checked_out ?i \<noteq> 0" by simp
  with drain_outcome [of sample_config ?i]
  have "\<exists>i'. drain_run sample_config (?i, Looking) (i', Waiting) \<and> checked_out i' = 0" by blast
  ultimately show ?thesis using s unfolding Let_def by fastforce
qed

lemma checkout_alone_count:
  "checkout cfg sd now now' connected id sd' inner = (Inr s, inner', ev) \<Longrightarrow>
     checked_out inner' = checked_out inner + 1"
  by (auto simp: checkout_def split: prod.splits sum.splits option.splits
      dest!: checkout_begin_Some checkout_begin_None checkout_finish_Inr)

text \<open>
  A session handle retries at most once and never after payload has been relayed: then the
  caller's own error comes back, and the pool is left alone. A successful retry replaces the session
  of the handle by a freshly checked-out one, the number of checked-out sessions being the same as
  before when no other task uses the pool meanwhile; a second retry on that handle is refused
  whatever the pool could offer.
\<close>

lemma retry_at_most_once:
  assumes "retry_after_protocol_error (checkout cfg sd now now' connected id sd') err h inner
      = (r, inner', ev)"
    and "0 < checked_out inner"
  shows "case r of
      Inr h' \<Rightarrow> \<not> bytes_relayed h \<and> \<not> retry_used h \<and> session h' \<noteq> None \<and>
        checked_out inner' = checked_out inner \<and>
        (\<forall>co' err' i. retry_after_protocol_error co' err' h' i = (Inl (Inl err'), i, []))
    | Inl (Inl e) \<Rightarrow> e = err \<and> (bytes_relayed h \<or> retry_used h) \<and> inner' = inner
    | Inl (Inr e) \<Rightarrow> \<not> bytes_relayed h \<and> \<not> retry_used h"
proof (cases "bytes_relayed h \<or> retry_used h")
  case True
  with assms(1) show ?thesis by (auto simp: retry_after_protocol_error_def)
next
  case False
  let ?i = "inner\<lparr>checked_out := checked_out inner - 1\<rparr>"
  have d: "fst (discard_checked_out inner) = ?i"
    using assms(2) by (simp add: discard_checked_out_def)
  obtain q i1 e1 where q: "checkout cfg sd now now' connected id sd' ?i = (q, i1, e1)"
    by (metis prod_cases3)
  show ?thesis
  proof (cases q)
    case (Inl e)
    with assms(1) False d q show ?thesis by (auto simp: retry_after_protocol_error_def)
  next
    case (Inr s)
    with q have "checked_out i1 = checked_out inner"
      using checkout_alone_count [of cfg sd now now' connected sd' ?i s i1 e1] assms(2) by simp
    with assms(1) False d q Inr show ?thesis
      by (auto simp: retry_after_protocol_error_def)
  qed
qed

end
