(* ===== verification/Client.thy ===== *)
theory Client
  imports ClientRelay Pool Negotiate
begin

text \<open>
  How the client of \<open>shuttle/src/client/plain.rs\<close> relays a TCP request: over a session of the pool
  (\<open>relay_tcp_reusable\<close>), and over a tunnel of its own when there is no pool or when that fails
  (\<open>relay_tcp_remote\<close>, \<open>relay_tcp_with\<close>). Connecting a tunnel and tokio's \<open>copy_bidirectional\<close> are
  parameters.
\<close>

section \<open>Over a pooled session\<close>

fun pool_anyhow :: "pool_error \<Rightarrow> anyhow" where
  "pool_anyhow ShuttingDown = Anyhow ''session pool is shutting down''"
| "pool_anyhow PoolClosed = Anyhow ''session pool is closed''"
| "pool_anyhow (ConnectFailed e) = Context ''failed to create reusable session'' (IoErr e)"
| "pool_anyhow ClosedWhileConnecting = Anyhow ''session pool closed while checkout was connecting''"

text \<open>The part behind the negotiation; \<open>give_back\<close> is the pool's \<open>return_session\<close> at that time.\<close>

definition relay_over_session :: "(conn pooled_session \<Rightarrow> bool \<Rightarrow> conn pool_inner \<Rightarrow> conn pool_inner) \<Rightarrow>
    nat option \<Rightarrow> client_event list \<Rightarrow> bytes option \<Rightarrow> conn pooled_session \<Rightarrow> conn \<Rightarrow> conn pool_inner \<Rightarrow>
    (anyhow + nat \<times> nat) outcome \<times> conn \<times> conn pool_inner" where
  "relay_over_session give_back first es outbuf s inbound inner =
     (case open_request_from_trojan_header outbuf of
        Panics msg \<Rightarrow> (Panics msg, inbound, inner)
      | Pending \<Rightarrow> (Pending, inbound, inner)
      | Ready (Inl e) \<Rightarrow> (Ready (Inl e), inbound, inner)
      | Ready (Inr request) \<Rightarrow>
          (case write_frame request (stream s) of
             (Panics msg, c) \<Rightarrow> (Panics msg, inbound, inner)
           | (Pending, c) \<Rightarrow> (Pending, inbound, inner)
           | (Ready (Inl e), c) \<Rightarrow>
               (Ready (Inl (Context ''failed to send reusable open request'' (FrameErr e))), inbound,
                give_back (s\<lparr>stream := c\<rparr>) False inner)
           | (Ready (Inr _), c) \<Rightarrow>
               (case relay_tcp_frames first es outbuf inbound c of
                  (Panics msg, st) \<Rightarrow> (Panics msg, cr_inbound st, inner)
                | (Pending, st) \<Rightarrow> (Pending, cr_inbound st, inner)
                | (Ready r, st) \<Rightarrow>
                    (Ready r, cr_inbound st,
                     give_back (s\<lparr>stream := cr_session st\<rparr>) (case r of Inr _ \<Rightarrow> True | Inl _ \<Rightarrow> False) inner))))"

text \<open>\<open>check\<close> is the pool's \<open>checkout\<close>. Only a session that was never reused is negotiated.\<close>

definition relay_tcp_reusable ::
  "(conn pool_inner \<Rightarrow> (pool_error + conn pooled_session) \<times> conn pool_inner \<times> session_event list) \<Rightarrow>
   (conn pooled_session \<Rightarrow> bool \<Rightarrow> conn pool_inner \<Rightarrow> conn pool_inner) \<Rightarrow>
   nat option \<Rightarrow> client_event list \<Rightarrow> bytes option \<Rightarrow> conn \<Rightarrow> conn pool_inner \<Rightarrow>
   (anyhow + nat \<times> nat) outcome \<times> conn \<times> conn pool_inner" where
  "relay_tcp_reusable check give_back first es outbuf inbound inner0 =
     (case check inner0 of
        (Inl e, inner, ev) \<Rightarrow>
          (Ready (Inl (Context ''failed to checkout reusable session'' (pool_anyhow e))), inbound, inner)
      | (Inr s, inner, ev) \<Rightarrow>
          (if reuse_count s = 0 then
             (case negotiate_client (Capabilities CAP_REUSE) (stream s) of
                (Panics msg, c) \<Rightarrow> (Panics msg, inbound, inner)
              | (Pending, c) \<Rightarrow> (Pending, inbound, inner)
              | (Ready (Inr caps), c) \<Rightarrow>
                  (if reuse caps
                   then relay_over_session give_back first es outbuf (s\<lparr>stream := c\<rparr>) inbound inner
                   else (Ready (Inl (Anyhow ''server negotiated without reuse capability'')), inbound,
                         give_back (s\<lparr>stream := c\<rparr>) False inner))
              | (Ready (Inl e), c) \<Rightarrow>
                  (Ready (Inl (Anyhow ''reusable session negotiation failed'')), inbound,
                   give_back (s\<lparr>stream := c\<rparr>) False inner))
           else relay_over_session give_back first es outbuf s inbound inner))"

section \<open>Over a tunnel of its own\<close>

text \<open>
  \<open>first\<close> is what arrives within the first-packet timeout, as in \<open>relay_tcp_frames\<close>; here an error of
  that read is an error. A buffer above \<open>MAX_FIRST_PACKET_SIZE\<close> makes the subtraction in
  \<open>reserve_exact\<close> underflow, which panics.
\<close>

definition relay_tcp_with ::
  "(conn \<Rightarrow> conn \<Rightarrow> (io_error + nat \<times> nat) outcome) \<Rightarrow> nat option \<Rightarrow> bytes option \<Rightarrow> conn \<Rightarrow> conn \<Rightarrow>
   (anyhow + nat \<times> nat) outcome \<times> conn \<times> conn" where
  "relay_tcp_with copy_bidirectional first outbuf inbound outbound =
     (let copy = (\<lambda>initlen inb outb.
        (case copy_bidirectional inb outb of
           Ready (Inr (tx, rx)) \<Rightarrow> (Ready (Inr (tx + initlen, rx)), inb, outb)
         | Ready (Inl e) \<Rightarrow> (Ready (Inl (IoErr e)), inb, outb)
         | Pending \<Rightarrow> (Pending, inb, outb)
         | Panics msg \<Rightarrow> (Panics msg, inb, outb))) in
      case outbuf of
        None \<Rightarrow> copy 0 inbound outbound
      | Some b \<Rightarrow>
          (if length b > MAX_FIRST_PACKET_SIZE
           then (Panics ''attempt to subtract with overflow'', inbound, outbound)
           else
             (let write = (\<lambda>bs inb.
                (case write_all (b @ bs) outbound of
                   (Ready (Inr _), outb) \<Rightarrow> copy (length bs) inb outb
                 | (Ready (Inl e), outb) \<Rightarrow>
                     (Ready (Inl (Context ''failed to write request header together with initial inbound data''
                        (IoErr e))), inb, outb)
                 | (Pending, outb) \<Rightarrow> (Pending, inb, outb)
                 | (Panics msg, outb) \<Rightarrow> (Panics msg, inb, outb))) in
              case first of
                None \<Rightarrow> write [] inbound
              | Some k \<Rightarrow>
                  (case read_some (MAX_FIRST_PACKET_SIZE - length b) k inbound of
                     (Ready (Inr bs), inb) \<Rightarrow> write bs inb
                   | (Ready (Inl e), inb) \<Rightarrow>
                       (Ready (Inl (Context ''failed to read initial inbound data'' (IoErr e))), inb, outbound)
                   | (Pending, inb) \<Rightarrow> write [] inb
                   | (Panics msg, inb) \<Rightarrow> (Panics msg, inb, outbound)))))"

record remote_state =
  rm_pool :: "conn pool_inner"
  rm_tracker :: fallback_tracker
  rm_inbound :: conn
  rm_outbound :: "conn option"

text \<open>
  \<open>reusable\<close> is the attempt over the pool, \<open>None\<close> when the client runs without one; \<open>connected\<close> is
  what the connector returns. The state keeps the tunnel of the one-shot relay.
\<close>

definition relay_tcp_remote ::
  "(bytes option \<Rightarrow> conn \<Rightarrow> conn pool_inner \<Rightarrow> (anyhow + nat \<times> nat) outcome \<times> conn \<times> conn pool_inner) option \<Rightarrow>
   io_error + conn \<Rightarrow> (conn \<Rightarrow> conn \<Rightarrow> (io_error + nat \<times> nat) outcome) \<Rightarrow> nat option \<Rightarrow> string \<Rightarrow>
   bytes option \<Rightarrow> remote_state \<Rightarrow> (anyhow + nat \<times> nat) outcome \<times> remote_state" where
  "relay_tcp_remote reusable connected copy_bidirectional first endpoint outbuf st0 =
     (let one_shot = (\<lambda>st.
        (case connected of
           Inl e \<Rightarrow> (Ready (Inl (Context ''failed to establish snowy tunnel'' (IoErr e))), st)
         | Inr outbound \<Rightarrow>
             (case relay_tcp_with copy_bidirectional first outbuf (rm_inbound st) outbound of
                (r, inb, outb) \<Rightarrow> (r, st\<lparr>rm_inbound := inb, rm_outbound := Some outb\<rparr>)))) in
      case reusable of
        None \<Rightarrow> one_shot st0
      | Some attempt \<Rightarrow>
          (case attempt outbuf (rm_inbound st0) (rm_pool st0) of
             (r, inb, inner) \<Rightarrow>
               (let st = st0\<lparr>rm_inbound := inb, rm_pool := inner\<rparr> in
                case r of
                  Ready (Inr n) \<Rightarrow> (Ready (Inr n), st)
                | Ready (Inl e) \<Rightarrow>
                    one_shot (st\<lparr>rm_tracker := fst (warn_fallback endpoint (rm_tracker st))\<rparr>)
                | Pending \<Rightarrow> (Pending, st)
                | Panics msg \<Rightarrow> (Panics msg, st))))"

section \<open>Properties\<close>

lemma checkout_finish_idle: "checkout_finish sd now connected inner = (r, inner', ev) \<Longrightarrow> idle inner' = idle inner"
  by (auto simp: checkout_finish_def new_session_def split: sum.splits if_splits)

lemma checkout_alone_idle:
  "checkout cfg sd now now' connected id sd' inner = (r, inner', ev) \<Longrightarrow> set (idle inner') \<subseteq> set (idle inner)"
  by (auto simp: checkout_def split: prod.splits sum.splits option.splits
      dest!: checkout_begin_Some checkout_begin_None checkout_begin_Inl checkout_finish_idle)

lemma checkout_alone_Inl:
  "checkout cfg sd now now' connected id sd' inner = (Inl e, inner', ev) \<Longrightarrow> checked_out inner' = checked_out inner"
  by (auto simp: checkout_def split: prod.splits sum.splits option.splits
      dest!: checkout_begin_None checkout_begin_Inl checkout_finish_Inl)

lemma relay_over_session_returns:
  assumes "relay_over_session give_back first es outbuf s inbound inner = (Ready r, inb, inner')"
    and "open_request_from_trojan_header outbuf = Ready (Inr request)"
  shows "\<exists>s'. inner' = give_back s' (case r of Inr _ \<Rightarrow> True | Inl _ \<Rightarrow> False) inner"
  using assms
  by (auto simp: relay_over_session_def split: prod.splits outcome.splits sum.splits)

lemma relay_tcp_reusable_returns:
  assumes "relay_tcp_reusable check give_back first es outbuf inbound inner = (Ready r, inb, inner')"
    and "open_request_from_trojan_header outbuf = Ready (Inr request)"
  shows "(\<exists>e ev. check inner = (Inl e, inner', ev) \<and> (\<exists>x. r = Inl x)) \<or>
    (\<exists>s ev inner1 s'. check inner = (Inr s, inner1, ev) \<and>
       inner' = give_back s' (case r of Inr _ \<Rightarrow> True | Inl _ \<Rightarrow> False) inner1)"
proof -
  obtain q inner1 ev where q: "check inner = (q, inner1, ev)" by (metis prod_cases3)
  show ?thesis
  proof (cases q)
    case (Inl e)
    with q assms(1) show ?thesis by (auto simp: relay_tcp_reusable_def)
  next
    case (Inr s)
    let ?ok = "case r of Inr _ \<Rightarrow> True | Inl _ \<Rightarrow> False"
    obtain n c where n: "negotiate_client (Capabilities CAP_REUSE) (stream s) = (n, c)" by (metis surj_pair)
    have "\<exists>s'. inner' = give_back s' ?ok inner1"
    proof (cases "reuse_count s = 0")
      case False
      with Inr q assms(1) have "relay_over_session give_back first es outbuf s inbound inner1 = (Ready r, inb, inner')"
        by (simp add: relay_tcp_reusable_def)
      then show ?thesis by (rule relay_over_session_returns [OF _ assms(2)])
    next
      case True
      show ?thesis
      proof (cases "\<exists>caps. n = Ready (Inr caps) \<and> reuse caps")
        case True
        with \<open>reuse_count s = 0\<close> Inr q n assms(1)
        have "relay_over_session give_back first es outbuf (s\<lparr>stream := c\<rparr>) inbound inner1 = (Ready r, inb, inner')"
          by (auto simp: relay_tcp_reusable_def)
        then show ?thesis by (rule relay_over_session_returns [OF _ assms(2)])
      next
        case False
        with \<open>reuse_count s = 0\<close> Inr q n assms(1) show ?thesis
          by (auto simp: relay_tcp_reusable_def split: outcome.splits sum.splits if_splits)
      qed
    qed
    with Inr q show ?thesis by auto
  qed
qed

text \<open>
  C23. A request relayed over the pool gives its session back exactly once on every path on which it
  returns, provided the request header can be parsed: the number of checked-out sessions is what it
  was before, and after a failure no session was added to the idle ones, so a session whose stream may
  be out of step is never reused.
\<close>

theorem session_given_back:
  assumes "relay_tcp_reusable (checkout cfg sd now now' connected id sd')
      (\<lambda>s healthy i. fst (return_session cfg sd2 now2 s healthy i)) first es outbuf inbound inner
      = (Ready r, inb, inner')"
    and "open_request_from_trojan_header outbuf = Ready (Inr request)"
  shows "checked_out inner' = checked_out inner \<and>
    (case r of Inr _ \<Rightarrow> True | Inl _ \<Rightarrow> set (idle inner') \<subseteq> set (idle inner))"
  using relay_tcp_reusable_returns [OF assms]
proof (elim disjE exE conjE)
  fix e ev x
  assume "checkout cfg sd now now' connected id sd' inner = (Inl e, inner', ev)" "r = Inl x"
  then show ?thesis
    using checkout_alone_Inl [of cfg sd now now' connected sd' inner e inner' ev]
      checkout_alone_idle [of cfg sd now now' connected sd' inner "Inl e" inner' ev] by simp
next
  fix s ev inner1 s'
  assume c: "checkout cfg sd now now' connected id sd' inner = (Inr s, inner1, ev)"
    and i: "inner' = fst (return_session cfg sd2 now2 s' (case r of Inr _ \<Rightarrow> True | Inl _ \<Rightarrow> False) inner1)"
  from checkout_alone_count [OF c] i have "checked_out inner' = checked_out inner"
    by (simp add: return_session_count)
  moreover have "set (idle inner') \<subseteq> set (idle inner)" if "r = Inl y" for y
    using checkout_alone_idle [OF c] i that by (simp add: return_session_idle)
  ultimately show ?thesis by (auto split: sum.splits)
qed

definition busy_session :: "conn pooled_session" where
  "busy_session = \<lparr>stream = fresh_conn\<lparr>inp := wires [Data [7], Reset 2]\<rparr>, use_count = 2, created_at = 0,
     last_used = 0, reuse_count = 1\<rparr>"

definition busy_pool :: "conn pool_inner" where
  "busy_pool = pool_new\<lparr>idle := [busy_session]\<rparr>"

definition cfg5 :: reuse_config where
  "cfg5 = \<lparr>max_idle = 1, max_requests = 5, max_age = 60, idle_timeout = 30,
     keepalive_interval = 10, keepalive_timeout = 5, jitter_percent = 0\<rparr>"

definition attempt5 :: "bytes option \<Rightarrow> conn \<Rightarrow> conn pool_inner \<Rightarrow>
    (anyhow + nat \<times> nat) outcome \<times> conn \<times> conn pool_inner" where
  "attempt5 = relay_tcp_reusable (checkout cfg5 False 1 1 (Inl (IoError Other ''down'')) id False)
     (\<lambda>s healthy i. fst (return_session cfg5 False 2 s healthy i)) None
     [OnInbound 1 0, OnServerFrame, OnServerFrame]"

abbreviation (input) app5 :: conn where "app5 \<equiv> fresh_conn\<lparr>inp := [66]\<rparr>"

lemma sample_open_request:
  "open_request_from_trojan_header (Some sample_header) = Ready (Inr (OpenRequest 1 1 [127, 0, 0, 1] 80))"
  by (simp add: open_request_from_trojan_header_def sample_header_def Let_def of_be16_def)

lemma attempt5_frames:
  "\<exists>e st. relay_tcp_frames None [OnInbound 1 0, OnServerFrame, OnServerFrame] (Some sample_header) app5
      (fresh_conn\<lparr>inp := wires [Data [7], Reset 2], out := w\<rparr>) = (Ready (Inl e), st) \<and>
    cr_inbound st = fresh_conn\<lparr>inp := [], out := [7]\<rparr>"
proof -
  let ?s = "fresh_conn\<lparr>inp := wires [Data [7], Reset 2], out := w\<rparr>"
  let ?s1 = "?s\<lparr>out := w @ frame_wire (Data [65])\<rparr>"
  let ?s2 = "?s\<lparr>out := w @ frame_wire (Data [65]) @ frame_wire (Data [66])\<rparr>"
  have e: "encodable (Data [65])" "encodable (Data [66])" "encodable (Data [7])" "encodable (Reset 2)"
    by (simp_all add: encodable_def)
  have f: "send_first None (Some sample_header) (client_start ?s app5)
      = (Ready (Inr ()), (client_start ?s1 app5)\<lparr>cr_tx := 1\<rparr>)"
    using frames.send_wire [OF e(1), of ?s]
    by (simp add: send_first_def trojan_header_len_def sample_header_def first_packet_def client_start_def
        on_cr_session_def fresh_conn_def Let_def)
  have w: "write_frame (Data [66]) ?s1 = (Ready (Inr ()), ?s2)"
    using frames.send_wire [OF e(2), of ?s1] by (simp add: fresh_conn_def)
  have r: "read_frame ?s2 = (Ready (Inr (Data [7])), ?s2\<lparr>inp := frame_wire (Reset 2)\<rparr>)"
    "read_frame (?s2\<lparr>inp := frame_wire (Reset 2)\<rparr>) = (Ready (Inr (Reset 2)), ?s2\<lparr>inp := []\<rparr>)"
    using read_frame_wire [OF e(3), of ?s2 "frame_wire (Reset 2)"]
      read_frame_wire [OF e(4), of "?s2\<lparr>inp := frame_wire (Reset 2)\<rparr>" "[]"]
    by (simp_all add: wires_def)
  show ?thesis
    unfolding relay_tcp_frames_def
    using f w r
    by (simp add: io_bind_def relay_inbound_def on_cr_session_def on_inbound_def zoom_def client_start_def
        fresh_conn_def read_some_def write_all_unbounded)
qed

lemma attempt5_fails:
  "\<exists>e inner. attempt5 (Some sample_header) app5 busy_pool
     = (Ready (Inl e), fresh_conn\<lparr>inp := [], out := [7]\<rparr>, inner)"
proof -
  let ?w = "frame_wire (OpenRequest 1 1 [127, 0, 0, 1] 80)"
  obtain e st where f: "relay_tcp_frames None [OnInbound 1 0, OnServerFrame, OnServerFrame] (Some sample_header)
      app5 (fresh_conn\<lparr>inp := wires [Data [7], Reset 2], out := ?w\<rparr>) = (Ready (Inl e), st)"
    "cr_inbound st = fresh_conn\<lparr>inp := [], out := [7]\<rparr>"
    using attempt5_frames by blast
  have "encodable (OpenRequest 1 1 [127, 0, 0, 1] 80)" by (simp add: encodable_def)
  from frames.send_wire [OF this, of "stream busy_session"]
  have w: "write_frame (OpenRequest 1 1 [127, 0, 0, 1] 80) (fresh_conn\<lparr>inp := wires [Data [7], Reset 2]\<rparr>)
      = (Ready (Inr ()), fresh_conn\<lparr>inp := wires [Data [7], Reset 2], out := ?w\<rparr>)"
    by (simp add: busy_session_def fresh_conn_def)
  have c: "\<exists>inner ev. checkout cfg5 False 1 1 (Inl (IoError Other ''down'')) id False busy_pool
      = (Inr (lease 1 busy_session), inner, ev)"
    by (simp add: checkout_def checkout_begin_def pop_reusable.simps is_reusable_def cfg5_def busy_pool_def
        busy_session_def pool_new_def)
  then obtain inner ev where "checkout cfg5 False 1 1 (Inl (IoError Other ''down'')) id False busy_pool
      = (Inr (lease 1 busy_session), inner, ev)" by blast
  with f w show ?thesis
    by (simp add: attempt5_def relay_tcp_reusable_def relay_over_session_def sample_open_request busy_session_def)
qed

theorem session_given_back_witness:
  "\<exists>e inb inner'. attempt5 (Some sample_header) app5 busy_pool = (Ready (Inl e), inb, inner') \<and>
     checked_out inner' = 0"
proof -
  obtain e inb inner' where a: "attempt5 (Some sample_header) app5 busy_pool = (Ready (Inl e), inb, inner')"
    using attempt5_fails by blast
  from session_given_back [OF a [unfolded attempt5_def] sample_open_request] a show ?thesis
    by (auto simp: busy_pool_def pool_new_def)
qed

text \<open>
  C37. The fallback to a tunnel of its own does not check whether the failed attempt had already
  relayed payload. The tunnel is sent the whole request buffer again, and then only what the
  application has not sent yet: bytes the attempt took from the application are lost, and bytes the
  attempt gave to the application stay in front of the second answer.
\<close>

theorem fallback_repeats_request:
  assumes "relay_tcp_reusable check give_back first es (Some b) (rm_inbound st) (rm_pool st)
      = (Ready (Inl e), inb, inner)"
    and "length b \<le> MAX_FIRST_PACKET_SIZE" "wr_room t = None"
  shows "\<exists>r st'. relay_tcp_remote (Some (relay_tcp_reusable check give_back first es)) (Inr t) copy None ep
      (Some b) st = (r, st') \<and>
    rm_outbound st' = Some (t\<lparr>out := out t @ b\<rparr>) \<and> rm_inbound st' = inb"
  using assms
  by (simp add: relay_tcp_remote_def relay_tcp_with_def write_all_unbounded Let_def
      split: outcome.splits sum.splits)

theorem fallback_repeats_request_witness:
  "let st = \<lparr>rm_pool = busy_pool, rm_tracker = tracker_new, rm_inbound = app5, rm_outbound = None\<rparr>
   in \<exists>r st'. relay_tcp_remote (Some attempt5) (Inr fresh_conn) (\<lambda>a b. Pending) None ''host:443''
        (Some sample_header) st = (r, st') \<and>
      map_option out (rm_outbound st') = Some sample_header \<and>
      inp (rm_inbound st') = [] \<and> out (rm_inbound st') = [7]"
proof -
  let ?st = "\<lparr>rm_pool = busy_pool, rm_tracker = tracker_new, rm_inbound = app5, rm_outbound = None\<rparr>"
  obtain e inner where a: "attempt5 (Some sample_header) (rm_inbound ?st) (rm_pool ?st)
      = (Ready (Inl e), fresh_conn\<lparr>inp := [], out := [7]\<rparr>, inner)"
    using attempt5_fails by auto
  have "length sample_header \<le> MAX_FIRST_PACKET_SIZE" "wr_room fresh_conn = None"
    by (simp_all add: sample_header_def fresh_conn_def)
  from fallback_repeats_request [OF a [unfolded attempt5_def] this, of "\<lambda>a b. Pending" "''host:443''"]
  show ?thesis unfolding attempt5_def [symmetric] Let_def by (auto simp: fresh_conn_def)
qed

end
