(* ===== verification/Lru.thy ===== *)
theory Lru
  imports Main
begin

text \<open>
  The least-recently-used cache of the \<open>lru\<close> crate, which the tunnel's server uses as its replay filter
  and the UDP relay as its table of resolved names. The crate is a parameter; \<open>lru_ok\<close> states what is
  relied on, and the lemmas bound how fast an entry can be forgotten.
\<close>

record ('f, 'k, 'v) lru_ops =
  lru_get :: "'f \<Rightarrow> 'k \<Rightarrow> 'v option \<times> 'f"
  lru_put :: "'f \<Rightarrow> 'k \<Rightarrow> 'v \<Rightarrow> 'f"
  lru_iter :: "'f \<Rightarrow> ('k \<times> 'v) list"

text \<open>
  A cache of \<open>cap\<close> entries: \<open>iter\<close> visits them, the most recently used one first. \<open>get\<close> looks an entry up
  and makes it the most recent one; \<open>put\<close> adds or replaces an entry as the most recent one and drops the
  least recent one when the cache is full.
\<close>

definition promote :: "'k \<Rightarrow> 'v \<Rightarrow> ('k \<times> 'v) list \<Rightarrow> ('k \<times> 'v) list" where
  "promote k v xs = (k, v) # filter (\<lambda>x. fst x \<noteq> k) xs"

definition lru_ok :: "('f, 'k, 'v) lru_ops \<Rightarrow> nat \<Rightarrow> bool" where
  "lru_ok ops cap \<longleftrightarrow>
     (\<forall>f k. fst (lru_get ops f k) = map_of (lru_iter ops f) k \<and>
        lru_iter ops (snd (lru_get ops f k)) =
          (case map_of (lru_iter ops f) k of
             None \<Rightarrow> lru_iter ops f | Some v \<Rightarrow> promote k v (lru_iter ops f))) \<and>
     (\<forall>f k v. lru_iter ops (lru_put ops f k v) = take cap (promote k v (lru_iter ops f)))"

lemma lru_get_ok:
  assumes "lru_ok ops cap" "lru_get ops f k = (q, f')"
  shows "map_of (lru_iter ops f) k = q"
    and "lru_iter ops f' = (case q of None \<Rightarrow> lru_iter ops f | Some v \<Rightarrow> promote k v (lru_iter ops f))"
  using assms unfolding lru_ok_def by (metis fst_conv snd_conv)+

lemma lru_put_ok:
  "lru_ok ops cap \<Longrightarrow> lru_iter ops (lru_put ops f k v) = take cap (promote k v (lru_iter ops f))"
  by (simp add: lru_ok_def)

text \<open>
  An entry among the \<open>i\<close> most recent ones is among the \<open>i + 1\<close> most recent ones when another entry is
  promoted, with the same value.
\<close>

lemma map_of_take: "map_of (take i xs) e = Some p \<Longrightarrow> map_of xs e = Some p"
  by (metis append_take_drop_id map_add_Some_iff map_of_append)

lemma map_of_take_Suc: "map_of (take i xs) e = Some p \<Longrightarrow> map_of (take (Suc i) xs) e = Some p"
  by (metis map_of_take min.absorb1 take_take le_SucI order_refl)

lemma map_of_take_filter:
  "map_of (take i xs) e = Some p \<Longrightarrow> e \<noteq> k \<Longrightarrow> map_of (take i (filter (\<lambda>x. fst x \<noteq> k) xs)) e = Some p"
proof (induction xs arbitrary: i)
  case Nil
  then show ?case by simp
next
  case (Cons y xs)
  then obtain n where i: "i = Suc n" by (cases i) auto
  show ?case
  proof (cases "fst y = e")
    case True
    with Cons.prems i show ?thesis by (cases y) simp
  next
    case False
    with Cons i have "map_of (take n (filter (\<lambda>x. fst x \<noteq> k) xs)) e = Some p" by (cases y) simp
    with i False show ?thesis by (cases y) (auto intro: map_of_take_Suc)
  qed
qed

lemma promote_keeps:
  assumes "map_of (take i xs) e = Some p" "e = k \<Longrightarrow> v = p"
  shows "map_of (take (Suc i) (promote k v xs)) e = Some p"
  using assms map_of_take_filter [of i xs e p k] by (cases "e = k") (auto simp: promote_def)

text \<open>An operation moves an entry back by at most one place.\<close>

lemma lru_get_keeps:
  assumes "lru_ok ops cap" "map_of (take i (lru_iter ops f)) e = Some p" "lru_get ops f k = (q, f')"
  shows "map_of (take (Suc i) (lru_iter ops f')) e = Some p"
proof (cases q)
  case None
  with lru_get_ok [OF assms(1,3)] assms(2) show ?thesis by (simp add: map_of_take_Suc)
next
  case (Some v)
  have "v = p" if "e = k" using lru_get_ok(1) [OF assms(1,3)] Some that map_of_take [OF assms(2)] by simp
  with lru_get_ok(2) [OF assms(1,3)] Some promote_keeps [OF assms(2), of k v] show ?thesis by simp
qed

lemma lru_put_keeps:
  assumes "lru_ok ops cap" "map_of (take i (lru_iter ops f)) e = Some p" "i < cap" "lru_get ops f k = (None, f')"
  shows "map_of (take (Suc i) (lru_iter ops (lru_put ops f' k v))) e = Some p"
proof -
  have "e \<noteq> k" using lru_get_ok(1) [OF assms(1,4)] map_of_take [OF assms(2)] by auto
  with lru_get_ok(2) [OF assms(1,4)] promote_keeps [OF assms(2), of k v] assms(3) show ?thesis
    by (simp add: lru_put_ok [OF assms(1)] min_absorb1)
qed

text \<open>A cache kept as a list.\<close>

definition list_lru :: "nat \<Rightarrow> (('k \<times> 'v) list, 'k, 'v) lru_ops" where
  "list_lru cap = \<lparr>lru_get = (\<lambda>f k. case map_of f k of None \<Rightarrow> (None, f) | Some v \<Rightarrow> (Some v, promote k v f)),
     lru_put = (\<lambda>f k v. take cap (promote k v f)), lru_iter = (\<lambda>f. f)\<rparr>"

lemma list_lru_ok: "lru_ok (list_lru cap) cap"
  by (auto simp: lru_ok_def list_lru_def split: option.splits)

end
