(* ===== verification/UdpRelay.thy ===== *)
theory UdpRelay
  imports Trojan Lru
begin

text \<open>
  \<open>relay_udp\<close> of \<open>shuttle/src/server.rs\<close>: the server's side of a UDP association. Datagrams from the
  tunnel are sent to their destinations, names being resolved through a cache; what the UDP socket
  receives is written to the tunnel with the address it came from. The two loops run in one \<open>select!\<close>
  until one of them ends; an event says which of them goes on and what the network does.
\<close>

section \<open>Model\<close>

type_synonym socket_addr = "ip_addr \<times> u16"

abbreviation (input) MAX_CACHED_DOMAIN_ADDRS_PER_SOCKET :: nat where "MAX_CACHED_DOMAIN_ADDRS_PER_SOCKET \<equiv> 64"

record 'f udp_relay =
  ur_inbound :: conn
  ur_resolved :: 'f
  ur_sent :: "(bytes \<times> socket_addr) list"
  ur_tx :: nat
  ur_rx :: nat

text \<open>
  \<open>FromTunnel\<close>: the first loop does a round; the name lookup would give the first result, and \<open>send_to\<close>
  of the UDP socket fails with the given error or succeeds. \<open>FromRemote\<close>: the second loop does a round
  with what the UDP socket's \<open>recv_from\<close> returns.
\<close>

datatype udp_event =
    FromTunnel "io_error + socket_addr list" "io_error option"
  | FromRemote "io_error + bytes \<times> socket_addr"

text \<open>The address a datagram is sent to. A name that was resolved is taken from the cache.\<close>

definition resolve :: "('f, bytes \<times> u16, socket_addr) lru_ops \<Rightarrow> io_error + socket_addr list \<Rightarrow> trojan_addr \<Rightarrow> 'f \<Rightarrow>
    (io_error + socket_addr) outcome \<times> 'f" where
  "resolve ops lookup_host a cache =
     (case a of
        SocketAddr ip p \<Rightarrow> (Ready (Inr (ip, p)), cache)
      | Domain h p \<Rightarrow>
          (case lru_get ops cache (h, p) of
             (Some sa, cache) \<Rightarrow> (Ready (Inr sa), cache)
           | (None, cache) \<Rightarrow>
               (case lookup_host of
                  Inl e \<Rightarrow> (Ready (Inl e), cache)
                | Inr [] \<Rightarrow> (Ready (Inl (IoError InvalidInput ''no addresses to send data to'')), cache)
                | Inr (sa # _) \<Rightarrow>
                    (let cache = lru_put ops cache (h, p) sa in
                     case lru_iter ops cache of
                       (_, sa) # _ \<Rightarrow> (Ready (Inr sa), cache)
                     | [] \<Rightarrow> (Panics ''called `Option::unwrap()` on a `None` value'', cache)))))"

fun relay_udp :: "addr_codec \<Rightarrow> ('f, bytes \<times> u16, socket_addr) lru_ops \<Rightarrow> udp_event list \<Rightarrow>
    ('f udp_relay, io_error, nat \<times> nat) action" where
  "relay_udp ac ops [] st = (Pending, st)"
| "relay_udp ac ops (FromTunnel lookup sending # es) st =
     (case recv_from ac MAX_DATAGRAM_SIZE (ur_inbound st) of
        (Ready (Inr None), c) \<Rightarrow> (Ready (Inr (ur_tx st, ur_rx st)), st\<lparr>ur_inbound := c\<rparr>)
      | (Ready (Inr (Some (dat, a))), c) \<Rightarrow>
          (case resolve ops lookup a (ur_resolved st) of
             (res, cache) \<Rightarrow>
               (let st = st\<lparr>ur_inbound := c, ur_resolved := cache\<rparr> in
                case res of
                  Ready (Inr sa) \<Rightarrow>
                    (case sending of
                       Some e \<Rightarrow> (Ready (Inl e), st)
                     | None \<Rightarrow>
                         relay_udp ac ops es
                           (st\<lparr>ur_sent := ur_sent st @ [(dat, sa)], ur_tx := ur_tx st + length dat\<rparr>))
                | Ready (Inl e) \<Rightarrow> (Ready (Inl e), st)
                | Pending \<Rightarrow> (Pending, st)
                | Panics msg \<Rightarrow> (Panics msg, st)))
      | (Ready (Inl e), c) \<Rightarrow> (Ready (Inl e), st\<lparr>ur_inbound := c\<rparr>)
      | (Pending, c) \<Rightarrow> (Pending, st\<lparr>ur_inbound := c\<rparr>)
      | (Panics msg, c) \<Rightarrow> (Panics msg, st\<lparr>ur_inbound := c\<rparr>))"
| "relay_udp ac ops (FromRemote r # es) st =
     (case r of
        Inl e \<Rightarrow> (Ready (Inl e), st)
      | Inr (dat, ip, p) \<Rightarrow>
          (case send_to ac dat (SocketAddr ip p) (ur_inbound st) of
             (Ready (Inr _), c) \<Rightarrow> relay_udp ac ops es (st\<lparr>ur_inbound := c, ur_rx := ur_rx st + length dat\<rparr>)
           | (Ready (Inl e), c) \<Rightarrow> (Ready (Inl e), st\<lparr>ur_inbound := c\<rparr>)
           | (Pending, c) \<Rightarrow> (Pending, st\<lparr>ur_inbound := c\<rparr>)
           | (Panics msg, c) \<Rightarrow> (Panics msg, st\<lparr>ur_inbound := c\<rparr>)))"

section \<open>Resolving\<close>

lemma resolve_ok:
  assumes "lru_ok ops cap" "0 < cap"
  obtains sa cache' where "resolve ops (Inr (sa0 # sas)) a cache = (Ready (Inr sa), cache')"
    "\<And>ip p. a = SocketAddr ip p \<Longrightarrow> sa = (ip, p) \<and> cache' = cache"
    "\<And>h p. a = Domain h p \<Longrightarrow> map_of (take 1 (lru_iter ops cache')) (h, p) = Some sa \<and>
       sa = (case map_of (lru_iter ops cache) (h, p) of Some sa \<Rightarrow> sa | None \<Rightarrow> sa0)"
proof (cases a)
  case (SocketAddr ip p)
  then show ?thesis by (intro that [of "(ip, p)" cache]) (simp_all add: resolve_def)
next
  case (Domain h p)
  obtain q c' where g: "lru_get ops cache (h, p) = (q, c')" by (metis surj_pair)
  note q = lru_get_ok [OF assms(1) g]
  show ?thesis
  proof (cases q)
    case (Some sa)
    with Domain g q show ?thesis
      by (intro that [of sa c']) (auto simp: resolve_def promote_def)
  next
    case None
    have "lru_iter ops (lru_put ops c' (h, p) sa0) =
        ((h, p), sa0) # take (cap - 1) (filter (\<lambda>x. fst x \<noteq> (h, p)) (lru_iter ops c'))"
      using assms(2) by (simp add: lru_put_ok [OF assms(1)] promote_def take_Cons')
    with Domain g q None show ?thesis
      by (intro that [of sa0 "lru_put ops c' (h, p) sa0"]) (auto simp: resolve_def Let_def)
  qed
qed

text \<open>The addresses that a sequence of datagrams is sent to, with what the lookups would give.\<close>

fun resolve_seq :: "('f, bytes \<times> u16, socket_addr) lru_ops \<Rightarrow> (socket_addr list \<times> trojan_addr) list \<Rightarrow> 'f \<Rightarrow>
    socket_addr list" where
  "resolve_seq ops [] cache = []"
| "resolve_seq ops ((sas, a) # xs) cache =
     (case resolve ops (Inr sas) a cache of
        (Ready (Inr sa), cache) \<Rightarrow> sa # resolve_seq ops xs cache
      | _ \<Rightarrow> [])"

lemma resolve_keeps:
  assumes "lru_ok ops cap" "map_of (take i (lru_iter ops cache)) e = Some sa" "i < cap"
  shows "map_of (take (Suc i) (lru_iter ops (snd (resolve ops l a cache)))) e = Some sa"
proof (cases a)
  case (SocketAddr ip p)
  with map_of_take_Suc [OF assms(2)] show ?thesis by (simp add: resolve_def)
next
  case (Domain h p)
  obtain q c' where g: "lru_get ops cache (h, p) = (q, c')" by (metis surj_pair)
  show ?thesis
  proof (cases q)
    case None
    with Domain g lru_get_keeps [OF assms(1,2) g] lru_put_keeps [OF assms, of "(h, p)" c'] show ?thesis
      by (auto simp: resolve_def Let_def split: sum.splits list.splits)
        (metis map_of.simps(1) option.distinct(1) take_Nil)
  next
    case (Some v)
    with Domain g lru_get_keeps [OF assms(1,2) g] show ?thesis by (simp add: resolve_def)
  qed
qed

lemma resolve_seq_remembered:
  assumes "lru_ok ops cap" "0 < cap"
  shows "list_all (\<lambda>x. fst x \<noteq> []) xs \<Longrightarrow> map_of (take k (lru_iter ops cache)) (h, p) = Some sa \<Longrightarrow>
    j < length xs \<Longrightarrow> snd (xs ! j) = Domain h p \<Longrightarrow> k + j \<le> cap \<Longrightarrow> resolve_seq ops xs cache ! j = sa"
proof (induction xs arbitrary: k cache j)
  case Nil
  then show ?case by simp
next
  case (Cons x xs)
  obtain s0 sas a where x: "x = (s0 # sas, a)" using Cons.prems(1) by (cases x; cases "fst x") auto
  obtain sa1 c1 where r: "resolve ops (Inr (s0 # sas)) a cache = (Ready (Inr sa1), c1)"
    and d: "\<And>h p. a = Domain h p \<Longrightarrow> sa1 = (case map_of (lru_iter ops cache) (h, p) of Some sa \<Rightarrow> sa | None \<Rightarrow> s0)"
    by (rule resolve_ok [OF assms, of s0 sas a cache]) blast
  show ?case
  proof (cases j)
    case 0
    with Cons.prems(2,4) x r d map_of_take [OF Cons.prems(2)] show ?thesis by simp
  next
    case (Suc n)
    with Cons.prems(5) have "k < cap" by simp
    from resolve_keeps [OF assms(1) Cons.prems(2) this, of "Inr (s0 # sas)" a] r
    have "map_of (take (Suc k) (lru_iter ops c1)) (h, p) = Some sa" by simp
    from Cons.IH [OF _ this, of n] Cons.prems Suc x r show ?thesis by simp
  qed
qed

lemma resolve_seq_sticks:
  assumes "lru_ok ops cap" "0 < cap"
  shows "list_all (\<lambda>x. fst x \<noteq> []) xs \<Longrightarrow> i < j \<Longrightarrow> j < length xs \<Longrightarrow> j - i \<le> cap \<Longrightarrow>
    snd (xs ! i) = Domain h p \<Longrightarrow> snd (xs ! j) = Domain h p \<Longrightarrow>
    resolve_seq ops xs cache ! j = resolve_seq ops xs cache ! i"
proof (induction xs arbitrary: i j cache)
  case Nil
  then show ?case by simp
next
  case (Cons x xs)
  obtain s0 sas a where x: "x = (s0 # sas, a)" using Cons.prems(1) by (cases x; cases "fst x") auto
  obtain sa1 c1 where r: "resolve ops (Inr (s0 # sas)) a cache = (Ready (Inr sa1), c1)"
    and d: "\<And>h p. a = Domain h p \<Longrightarrow> map_of (take 1 (lru_iter ops c1)) (h, p) = Some sa1"
    by (rule resolve_ok [OF assms, of s0 sas a cache]) blast
  obtain n where j: "j = Suc n" using Cons.prems(2) by (cases j) auto
  show ?case
  proof (cases i)
    case 0
    with Cons.prems x j d have m: "map_of (take 1 (lru_iter ops c1)) (h, p) = Some sa1" by simp
    have "resolve_seq ops xs c1 ! n = sa1"
      by (rule resolve_seq_remembered [OF assms _ m]) (use Cons.prems 0 j in auto)
    with 0 j x r show ?thesis by simp
  next
    case (Suc m)
    with Cons.IH [of m n c1] Cons.prems j x r show ?thesis by simp
  qed
qed

text \<open>The cache holds nothing but what was in it and the first address of each lookup, under the name looked up.\<close>

lemma resolve_entries:
  assumes "lru_ok ops cap" "resolve ops (Inr (sa0 # sas)) a cache = (Ready (Inr sa), cache')" "x \<in> set (lru_iter ops cache')"
  shows "x \<in> set (lru_iter ops cache) \<or> (\<exists>h p. a = Domain h p \<and> x = ((h, p), sa0))"
proof (cases a)
  case (SocketAddr ip p)
  with assms(2,3) show ?thesis by (simp add: resolve_def)
next
  case (Domain h p)
  obtain q c' where g: "lru_get ops cache (h, p) = (q, c')" by (metis surj_pair)
  note q = lru_get_ok [OF assms(1) g]
  have c': "y \<in> set (lru_iter ops cache)" if "y \<in> set (lru_iter ops c')" for y
    using that q by (auto simp: promote_def split: option.splits dest: map_of_SomeD)
  show ?thesis
  proof (cases q)
    case None
    then have "cache' = lru_put ops c' (h, p) sa0"
      using Domain g assms(2) by (auto simp: resolve_def Let_def split: list.splits)
    then have "x = ((h, p), sa0) \<or> x \<in> set (lru_iter ops c')"
      using assms(3) by (auto simp: lru_put_ok [OF assms(1)] promote_def dest: in_set_takeD)
    with c' Domain show ?thesis by blast
  next
    case (Some v)
    with Domain g assms(2,3) c' show ?thesis by (auto simp: resolve_def)
  qed
qed

lemma resolve_seq_from:
  assumes "lru_ok ops cap" "0 < cap"
  shows "list_all (\<lambda>x. fst x \<noteq> []) xs \<Longrightarrow> i < length xs \<Longrightarrow> snd (xs ! i) = Domain h p \<Longrightarrow>
    ((h, p), resolve_seq ops xs cache ! i) \<in> set (lru_iter ops cache) \<or>
    (\<exists>k \<le> i. snd (xs ! k) = Domain h p \<and> resolve_seq ops xs cache ! i = hd (fst (xs ! k)))"
proof (induction xs arbitrary: cache i)
  case Nil
  then show ?case by simp
next
  case (Cons x xs)
  obtain s0 sas a where x: "x = (s0 # sas, a)" using Cons.prems(1) by (cases x; cases "fst x") auto
  obtain sa1 c1 where r: "resolve ops (Inr (s0 # sas)) a cache = (Ready (Inr sa1), c1)"
    and d: "\<And>h p. a = Domain h p \<Longrightarrow> sa1 = (case map_of (lru_iter ops cache) (h, p) of Some sa \<Rightarrow> sa | None \<Rightarrow> s0)"
    by (rule resolve_ok [OF assms, of s0 sas a cache]) blast
  show ?case
  proof (cases i)
    case 0
    with Cons.prems(3) x have "sa1 = (case map_of (lru_iter ops cache) (h, p) of Some sa \<Rightarrow> sa | None \<Rightarrow> s0)" by (intro d) simp
    then have "((h, p), sa1) \<in> set (lru_iter ops cache) \<or> sa1 = s0" by (auto split: option.splits dest: map_of_SomeD)
    with 0 Cons.prems(3) x r show ?thesis by auto
  next
    case (Suc n)
    let ?sa = "resolve_seq ops xs c1 ! n"
    have nth: "resolve_seq ops (x # xs) cache ! i = ?sa" using Suc x r by simp
    from Cons.IH [of n c1] Cons.prems Suc
    consider "((h, p), ?sa) \<in> set (lru_iter ops c1)" | k where "k \<le> n" "snd (xs ! k) = Domain h p" "?sa = hd (fst (xs ! k))" by auto
    then show ?thesis
    proof cases
      case 1
      from resolve_entries [OF assms(1) r this] show ?thesis unfolding nth using x by (auto intro!: exI [of _ 0])
    next
      case (2 k)
      then show ?thesis unfolding nth using Suc by (intro disjI2 exI [of _ "Suc k"]) simp
    qed
  qed
qed

section \<open>Forwarding\<close>

text \<open>Events in which the network works: names resolve and nothing fails.\<close>

fun smooth :: "udp_event \<Rightarrow> bool" where
  "smooth (FromTunnel (Inr (sa # sas)) None) \<longleftrightarrow> True"
| "smooth (FromRemote (Inr (dat, ip, p))) \<longleftrightarrow> ip_wf ip"
| "smooth _ \<longleftrightarrow> False"

fun lookups :: "udp_event list \<Rightarrow> socket_addr list list" where
  "lookups [] = []"
| "lookups (FromTunnel (Inr sas) s # es) = sas # lookups es"
| "lookups (_ # es) = lookups es"

fun remotes :: "udp_event list \<Rightarrow> (bytes \<times> trojan_addr) list" where
  "remotes [] = []"
| "remotes (FromRemote (Inr (dat, ip, p)) # es) = (dat, SocketAddr ip p) # remotes es"
| "remotes (_ # es) = remotes es"

abbreviation (input) payload_bytes :: "(bytes \<times> 'a) list \<Rightarrow> nat" where
  "payload_bytes ds \<equiv> sum_list (map (\<lambda>d. length (fst d)) ds)"

abbreviation (input) dgrams_wire :: "addr_codec \<Rightarrow> (bytes \<times> trojan_addr) list \<Rightarrow> bytes" where
  "dgrams_wire ac ds \<equiv> concat (map (\<lambda>d. datagram_wire ac (fst d) (snd d)) ds)"

lemma relay_udp_smooth:
  assumes "addr_codec_ok ac" "lru_ok ops cap" "0 < cap"
  shows "list_all smooth es \<Longrightarrow> length (lookups es) = length ds \<Longrightarrow>
    list_all (\<lambda>d. datagram_ok ac MAX_DATAGRAM_SIZE (Some d)) ds \<Longrightarrow>
    inp (ur_inbound st) = dgrams_wire ac ds @ rest \<Longrightarrow> wr_room (ur_inbound st) = None \<Longrightarrow>
    \<exists>st'. relay_udp ac ops es st = (Pending, st') \<and>
      ur_sent st' = ur_sent st @ zip (map fst ds) (resolve_seq ops (zip (lookups es) (map snd ds)) (ur_resolved st)) \<and>
      ur_tx st' = ur_tx st + payload_bytes ds \<and> ur_rx st' = ur_rx st + payload_bytes (remotes es) \<and>
      inp (ur_inbound st') = rest \<and> out (ur_inbound st') = out (ur_inbound st) @ dgrams_wire ac (remotes es)"
proof (induction es arbitrary: st ds)
  case Nil
  then show ?case by simp
next
  case (Cons ev es)
  show ?case
  proof (cases ev rule: smooth.cases)
    case (1 s0 sas)
    with Cons.prems obtain dat a ds' where ds: "ds = (dat, a) # ds'" by (cases ds) auto
    let ?c = "(ur_inbound st)\<lparr>inp := dgrams_wire ac ds' @ rest\<rparr>"
    have rf: "recv_from ac MAX_DATAGRAM_SIZE (ur_inbound st) = (Ready (Inr (Some (dat, a))), ?c)"
      using Cons.prems ds by (intro datagrams.recv_wire) auto
    obtain sa c1 where r: "resolve ops (Inr (s0 # sas)) a (ur_resolved st) = (Ready (Inr sa), c1)"
      by (rule resolve_ok [OF assms(2,3), of s0 sas a "ur_resolved st"]) blast
    let ?st = "st\<lparr>ur_inbound := ?c, ur_resolved := c1, ur_sent := ur_sent st @ [(dat, sa)],
      ur_tx := ur_tx st + length dat\<rparr>"
    have "relay_udp ac ops (ev # es) st = relay_udp ac ops es ?st" using 1 rf r by simp
    with Cons.IH [of ds' ?st] Cons.prems ds 1 r show ?thesis by (auto simp: add.assoc)
  next
    case (2 dat ip p)
    let ?c = "(ur_inbound st)\<lparr>out := out (ur_inbound st) @ datagram_wire ac dat (SocketAddr ip p)\<rparr>"
    have "send_to ac dat (SocketAddr ip p) (ur_inbound st) = (Ready (Inr ()), ?c)"
      using Cons.prems 2 by (intro send_to_wire [OF assms(1)]) auto
    then have "relay_udp ac ops (ev # es) st =
        relay_udp ac ops es (st\<lparr>ur_inbound := ?c, ur_rx := ur_rx st + length dat\<rparr>)"
      using 2 by simp
    with Cons.IH [of ds "st\<lparr>ur_inbound := ?c, ur_rx := ur_rx st + length dat\<rparr>"] Cons.prems 2 show ?thesis
      by (auto simp: add.assoc)
  qed (use Cons.prems in auto)
qed

lemma resolve_seq_each:
  assumes "lru_ok ops cap" "0 < cap"
  shows "list_all (\<lambda>x. fst x \<noteq> []) xs \<Longrightarrow> length (resolve_seq ops xs cache) = length xs \<and>
    (\<forall>i ip p. i < length xs \<and> snd (xs ! i) = SocketAddr ip p \<longrightarrow> resolve_seq ops xs cache ! i = (ip, p))"
proof (induction xs arbitrary: cache)
  case Nil
  then show ?case by simp
next
  case (Cons x xs)
  obtain s0 sas a where x: "x = (s0 # sas, a)" using Cons.prems by (cases x; cases "fst x") auto
  obtain sa1 c1 where r: "resolve ops (Inr (s0 # sas)) a cache = (Ready (Inr sa1), c1)"
    and d: "\<And>ip p. a = SocketAddr ip p \<Longrightarrow> sa1 = (ip, p)"
    by (rule resolve_ok [OF assms, of s0 sas a cache]) blast
  from Cons.IH [of c1] Cons.prems x r d show ?case by (auto simp: nth_Cons split: nat.splits)
qed

lemma smooth_lookups: "list_all smooth es \<Longrightarrow> list_all (\<lambda>sas. sas \<noteq> []) (lookups es)"
proof (induction es)
  case (Cons ev es)
  then show ?case by (cases ev rule: smooth.cases) auto
qed simp

lemma relay_udp_delivers:
  assumes "addr_codec_ok ac" "lru_ok ops MAX_CACHED_DOMAIN_ADDRS_PER_SOCKET" "list_all smooth es"
    and "length (lookups es) = length ds" "list_all (\<lambda>d. datagram_ok ac MAX_DATAGRAM_SIZE (Some d)) ds"
    and "inp (ur_inbound st) = dgrams_wire ac ds @ rest" "wr_room (ur_inbound st) = None"
  shows "\<exists>st' sas. relay_udp ac ops es st = (Pending, st') \<and>
    length sas = length ds \<and> ur_sent st' = ur_sent st @ zip (map fst ds) sas \<and>
    (\<forall>i ip p. i < length ds \<and> snd (ds ! i) = SocketAddr ip p \<longrightarrow> sas ! i = (ip, p)) \<and>
    (\<forall>i h p. i < length ds \<and> snd (ds ! i) = Domain h p \<longrightarrow> ((h, p), sas ! i) \<in> set (lru_iter ops (ur_resolved st)) \<or>
       (\<exists>k \<le> i. snd (ds ! k) = Domain h p \<and> sas ! i = hd (lookups es ! k))) \<and>
    (\<forall>i j h p. i < j \<and> j < length ds \<and> j - i \<le> MAX_CACHED_DOMAIN_ADDRS_PER_SOCKET \<and>
       snd (ds ! i) = Domain h p \<and> snd (ds ! j) = Domain h p \<longrightarrow> sas ! j = sas ! i) \<and>
    inp (ur_inbound st') = rest \<and> out (ur_inbound st') = out (ur_inbound st) @ dgrams_wire ac (remotes es) \<and>
    ur_tx st' = ur_tx st + payload_bytes ds \<and> ur_rx st' = ur_rx st + payload_bytes (remotes es)"
proof -
  have z: "0 < MAX_CACHED_DOMAIN_ADDRS_PER_SOCKET" by simp
  let ?xs = "zip (lookups es) (map snd ds)"
  let ?sas = "resolve_seq ops ?xs (ur_resolved st)"
  have ne: "list_all (\<lambda>x. fst x \<noteq> []) ?xs"
    using smooth_lookups [OF assms(3)] by (auto simp: list_all_iff dest: set_zip_leftD)
  have len: "length ?xs = length ds" and nth: "i < length ds \<Longrightarrow> snd (?xs ! i) = snd (ds ! i)" for i
    using assms(4) by simp_all
  have "?sas ! j = ?sas ! i" if "i < j" "j < length ds" "j - i \<le> MAX_CACHED_DOMAIN_ADDRS_PER_SOCKET"
    "snd (ds ! i) = Domain h p" "snd (ds ! j) = Domain h p" for i j h p
    by (rule resolve_seq_sticks [OF assms(2) z ne]) (use that len nth in auto)
  moreover have "((h, p), ?sas ! i) \<in> set (lru_iter ops (ur_resolved st)) \<or>
      (\<exists>k \<le> i. snd (ds ! k) = Domain h p \<and> ?sas ! i = hd (lookups es ! k))"
    if "i < length ds" "snd (ds ! i) = Domain h p" for i h p
    using resolve_seq_from [OF assms(2) z ne, of i h p "ur_resolved st"] that assms(4) by fastforce
  moreover have "length ?sas = length ds"
    "i < length ds \<Longrightarrow> snd (ds ! i) = SocketAddr ip p \<Longrightarrow> ?sas ! i = (ip, p)" for i ip p
    using resolve_seq_each [OF assms(2) z ne, of "ur_resolved st"] len nth by simp_all
  ultimately show ?thesis
    using relay_udp_smooth [OF assms(1,2) z assms(3-7)] by blast
qed

text \<open>
  C24. The server's UDP relay is faithful. While the network works, and however the two directions are
  interleaved, the payloads that come out of the tunnel are sent in order and unchanged: those with a
  socket address to that address; those with a name to the first address that a lookup of that very name gave, for this datagram or for
  an earlier one of the association (or to the one that the cache had for the name at the start). A name that two datagrams use is sent to one and the same address,
  whatever the resolver says in between, as long as at most 64 datagrams lie between them. What the UDP
  socket receives is written to the tunnel as datagrams with the address of the sender, and the counts
  are exact.
\<close>

theorem udp_relay_faithful:
  assumes "addr_codec_ok ac" "lru_ok ops MAX_CACHED_DOMAIN_ADDRS_PER_SOCKET" "list_all smooth es"
    and "length (lookups es) = length ds" "list_all (\<lambda>d. datagram_ok ac MAX_DATAGRAM_SIZE (Some d)) ds"
    and "inp (ur_inbound st) = dgrams_wire ac ds @ rest" "wr_room (ur_inbound st) = None"
  shows "\<exists>st' sas. relay_udp ac ops es st = (Pending, st') \<and>
    length sas = length ds \<and> ur_sent st' = ur_sent st @ zip (map fst ds) sas \<and>
    (\<forall>i ip p. i < length ds \<and> snd (ds ! i) = SocketAddr ip p \<longrightarrow> sas ! i = (ip, p)) \<and>
    (\<forall>i h p. i < length ds \<and> snd (ds ! i) = Domain h p \<longrightarrow> ((h, p), sas ! i) \<in> set (lru_iter ops (ur_resolved st)) \<or>
       (\<exists>k \<le> i. snd (ds ! k) = Domain h p \<and> sas ! i = hd (lookups es ! k))) \<and>
    (\<forall>i j h p. i < j \<and> j < length ds \<and> j - i \<le> MAX_CACHED_DOMAIN_ADDRS_PER_SOCKET \<and>
       snd (ds ! i) = Domain h p \<and> snd (ds ! j) = Domain h p \<longrightarrow> sas ! j = sas ! i) \<and>
    inp (ur_inbound st') = rest \<and> out (ur_inbound st') = out (ur_inbound st) @ dgrams_wire ac (remotes es) \<and>
    ur_tx st' = ur_tx st + payload_bytes ds \<and> ur_rx st' = ur_rx st + payload_bytes (remotes es)"
  by (rule relay_udp_delivers [OF assms])

definition sample_dgrams :: "(bytes \<times> trojan_addr) list" where
  "sample_dgrams = [([1, 2], Domain [100, 110, 115] 53), ([3], SocketAddr (V4 [8, 8, 8, 8]) 53),
     ([4, 5, 6], Domain [100, 110, 115] 53)]"

definition sample_udp_events :: "udp_event list" where
  "sample_udp_events = [FromTunnel (Inr [(V4 [9, 9, 9, 9], 53)]) None, FromRemote (Inr ([7], V4 [9, 9, 9, 9], 53)),
     FromTunnel (Inr [(V4 [1, 1, 1, 1], 53)]) None, FromTunnel (Inr [(V4 [1, 1, 1, 1], 53)]) None]"

definition sample_udp :: "((bytes \<times> u16) \<times> socket_addr) list udp_relay" where
  "sample_udp = \<lparr>ur_inbound = fresh_conn\<lparr>inp := dgrams_wire rfc1928 sample_dgrams\<rparr>, ur_resolved = [],
     ur_sent = [], ur_tx = 0, ur_rx = 0\<rparr>"

theorem udp_relay_faithful_witness:
  "\<exists>st'. relay_udp rfc1928 (list_lru 64) sample_udp_events sample_udp = (Pending, st') \<and>
     ur_sent st' = [([1, 2], V4 [9, 9, 9, 9], 53), ([3], V4 [8, 8, 8, 8], 53), ([4, 5, 6], V4 [9, 9, 9, 9], 53)] \<and> ur_tx st' = 6 \<and> ur_rx st' = 1"
proof -
  have smooth: "list_all smooth sample_udp_events" "length (lookups sample_udp_events) = length sample_dgrams"
    by (simp_all add: sample_udp_events_def sample_dgrams_def)
  have ok: "list_all (\<lambda>d. datagram_ok rfc1928 MAX_DATAGRAM_SIZE (Some d)) sample_dgrams"
    by (simp add: sample_dgrams_def rfc1928_ok)
  have st: "inp (ur_inbound sample_udp) = dgrams_wire rfc1928 sample_dgrams @ []" "wr_room (ur_inbound sample_udp) = None"
    by (simp_all add: sample_udp_def fresh_conn_def)
  have pay: "payload_bytes sample_dgrams = 6" "payload_bytes (remotes sample_udp_events) = 1" "length sample_dgrams = 3"
    "lru_iter (list_lru 64) (ur_resolved sample_udp) = []"
    "ur_sent sample_udp = []" "ur_tx sample_udp = 0" "ur_rx sample_udp = 0" "map fst sample_dgrams = [[1, 2], [3], [4, 5, 6]]"
    by (simp_all add: sample_dgrams_def sample_udp_events_def sample_udp_def list_lru_def)
  from udp_relay_faithful [OF rfc1928_ok list_lru_ok smooth ok st] obtain st' sas where
    r: "relay_udp rfc1928 (list_lru 64) sample_udp_events sample_udp = (Pending, st')" "length sas = 3"
      "ur_sent st' = zip [[1, 2], [3], [4, 5, 6]] sas" "ur_tx st' = 6" "ur_rx st' = 1"
    and addr: "\<And>i ip p. i < 3 \<Longrightarrow> snd (sample_dgrams ! i) = SocketAddr ip p \<Longrightarrow> sas ! i = (ip, p)"
    and named: "\<And>i h p. i < 3 \<Longrightarrow> snd (sample_dgrams ! i) = Domain h p \<Longrightarrow>
      \<exists>k \<le> i. snd (sample_dgrams ! k) = Domain h p \<and> sas ! i = hd (lookups sample_udp_events ! k)"
    and same: "\<And>i j h p. i < j \<Longrightarrow> j < 3 \<Longrightarrow> j - i \<le> 64 \<Longrightarrow> snd (sample_dgrams ! i) = Domain h p \<Longrightarrow>
      snd (sample_dgrams ! j) = Domain h p \<Longrightarrow> sas ! j = sas ! i"
    unfolding pay by fastforce
  obtain a b c where s: "sas = [a, b, c]" using r(2) by (auto simp: numeral_3_eq_3 length_Suc_conv)
  have "b = (V4 [8, 8, 8, 8], 53)" using addr [of 1] s by (simp add: sample_dgrams_def)
  moreover have "a = (V4 [9, 9, 9, 9], 53)" using named [of 0] s by (simp add: sample_dgrams_def sample_udp_events_def)
  moreover have "c = a" using same [of 0 2] s by (simp add: sample_dgrams_def)
  ultimately show ?thesis using r s by simp
qed

end
