(* ===== verification/ClientUdp.thy ===== *)
theory ClientUdp
  imports UdpRelay
begin

text \<open>
  \<open>relay_udp_with\<close> of \<open>shuttle/src/client/plain.rs\<close>: the client's side of a UDP association, between the
  UDP socket of a SOCKS5 client and the tunnel. The two loops run in one \<open>join!\<close>, next to the control
  connection; an event says which of them goes on and what the network does.
\<close>

section \<open>Model\<close>

text \<open>
  \<open>cu_outw\<close> is the buffered writer: what it holds and has not flushed is its output. \<open>cu_buf\<close> is the
  buffer of the first loop, which keeps its bytes from one datagram to the next. A loop that has ended
  leaves its result in \<open>cu_atob\<close> (always an error) or \<open>cu_btoa\<close>.
\<close>

record client_udp =
  cu_outw :: conn
  cu_tunnel :: conn
  cu_buf :: bytes
  cu_connected :: bool
  cu_sent :: "bytes list"
  cu_tx :: nat
  cu_rx :: nat
  cu_atob :: "anyhow option"
  cu_btoa :: "(anyhow + unit) option"

text \<open>
  \<open>CuClient\<close>: what the \<open>recv_from\<close> of the UDP socket gives, and the error of \<open>connect\<close> if it fails.
  \<open>CuTunnel\<close>: the second loop does a round, with the error of \<open>send\<close> if it fails. \<open>CuControl\<close>: a byte or an
  error on the control connection.
\<close>

datatype cu_event =
    CuClient "io_error + bytes" "io_error option"
  | CuTunnel "io_error option"
  | CuControl "io_error + byte"

text \<open>\<open>ue_trace\<close> says whether trace messages are formatted; \<open>ue_parse\<close> reads an address from a slice.\<close>

record udp_env =
  ue_trace :: bool
  ue_parse :: "bytes \<Rightarrow> anyhow + trojan_addr"

definition not_connected :: io_error where
  "not_connected = IoError Other ''Transport endpoint is not connected''"

text \<open>\<open>outw.send_to\<close> and \<open>outw.flush\<close>.\<close>

definition forward_datagram :: "addr_codec \<Rightarrow> bytes \<Rightarrow> trojan_addr \<Rightarrow> nat \<Rightarrow> client_udp \<Rightarrow> unit outcome \<times> client_udp" where
  "forward_datagram ac dat a n st =
     (case send_to ac dat a (cu_outw st) of
        (Ready (Inr _), w) \<Rightarrow>
          (case write_all (out w) (cu_tunnel st) of
             (Ready (Inr _), c) \<Rightarrow>
               (Ready (), st\<lparr>cu_outw := w\<lparr>out := []\<rparr>, cu_tunnel := c, cu_tx := cu_tx st + n\<rparr>)
           | (Ready (Inl e), c) \<Rightarrow> (Ready (), st\<lparr>cu_outw := w, cu_tunnel := c, cu_atob := Some (IoErr e)\<rparr>)
           | (Pending, c) \<Rightarrow> (Pending, st\<lparr>cu_outw := w, cu_tunnel := c\<rparr>)
           | (Panics msg, c) \<Rightarrow> (Panics msg, st\<lparr>cu_outw := w, cu_tunnel := c\<rparr>))
      | (Ready (Inl e), w) \<Rightarrow> (Ready (), st\<lparr>cu_outw := w, cu_atob := Some (IoErr e)\<rparr>)
      | (Pending, w) \<Rightarrow> (Pending, st\<lparr>cu_outw := w\<rparr>)
      | (Panics msg, w) \<Rightarrow> (Panics msg, st\<lparr>cu_outw := w\<rparr>))"

text \<open>A round of the first loop, once a datagram is there. UDP cuts it to the size of the buffer.\<close>

definition from_client :: "addr_codec \<Rightarrow> udp_env \<Rightarrow> bytes \<Rightarrow> io_error option \<Rightarrow> client_udp \<Rightarrow> unit outcome \<times> client_udp" where
  "from_client ac env dgram con st0 =
     (let dg = take MAX_DATAGRAM_SIZE dgram; n = length dg; buf = overwrite 0 dg (cu_buf st0);
          st = st0\<lparr>cu_buf := buf\<rparr> in
      if \<not> cu_connected st0 \<and> ue_trace env then (Ready (), st\<lparr>cu_atob := Some (IoErr not_connected)\<rparr>)
      else
        (case (if cu_connected st0 then None else con) of
           Some e \<Rightarrow> (Ready (), st\<lparr>cu_atob := Some (IoErr e)\<rparr>)
         | None \<Rightarrow>
             (let st = st\<lparr>cu_connected := True\<rparr> in
              if buf ! 2 \<noteq> 0 then (Ready (), st)
              else if n < 3 then (Panics ''slice index starts at 3 but ends at n'', st)
              else
                (case ue_parse env (drop 3 dg) of
                   Inl e \<Rightarrow> (Ready (), st\<lparr>cu_atob := Some e\<rparr>)
                 | Inr a \<Rightarrow>
                     (case ac_len ac a of
                        None \<Rightarrow> (Panics ''called `Result::unwrap()` on an `Err` value'', st)
                      | Some addrlen \<Rightarrow>
                          (if 3 + addrlen > n then (Panics ''slice index starts past its end'', st)
                           else forward_datagram ac (drop (3 + addrlen) dg) a n st))))))"

text \<open>
  A round of the second loop: the payload is moved up in the buffer it was received in, which has no room
  for the address of the largest datagrams.
\<close>

definition from_tunnel :: "addr_codec \<Rightarrow> io_error option \<Rightarrow> client_udp \<Rightarrow> unit outcome \<times> client_udp" where
  "from_tunnel ac sending st0 =
     (case recv_from ac MAX_DATAGRAM_SIZE (cu_tunnel st0) of
        (Ready (Inr None), c) \<Rightarrow> (Ready (), st0\<lparr>cu_tunnel := c, cu_btoa := Some (Inr ())\<rparr>)
      | (Ready (Inl e), c) \<Rightarrow> (Ready (), st0\<lparr>cu_tunnel := c, cu_btoa := Some (Inl (IoErr e))\<rparr>)
      | (Pending, c) \<Rightarrow> (Pending, st0\<lparr>cu_tunnel := c\<rparr>)
      | (Panics msg, c) \<Rightarrow> (Panics msg, st0\<lparr>cu_tunnel := c\<rparr>)
      | (Ready (Inr (Some (dat, orig_addr))), c) \<Rightarrow>
          (let st = st0\<lparr>cu_tunnel := c\<rparr> in
           case ac_len ac orig_addr of
             None \<Rightarrow> (Panics ''called `Result::unwrap()` on an `Err` value'', st)
           | Some addrlen \<Rightarrow>
               (if 3 + addrlen + length dat > MAX_DATAGRAM_SIZE then (Panics ''dest is out of bounds'', st)
                else
                  (case ac_bytes ac orig_addr of
                     None \<Rightarrow> (Panics ''called `Result::unwrap()` on an `Err` value'', st)
                   | Some bs \<Rightarrow>
                       (if length bs > addrlen then (Panics ''called `Result::unwrap()` on an `Err` value'', st)
                        else
                          (case (if cu_connected st then sending else Some not_connected) of
                             Some e \<Rightarrow> (Ready (), st\<lparr>cu_btoa := Some (Inl (IoErr e))\<rparr>)
                           | None \<Rightarrow>
                               (Ready (), st\<lparr>cu_sent := cu_sent st @ [[0x00, 0x00, 0x00] @ bs @ dat],
                                  cu_rx := cu_rx st + length dat\<rparr>)))))))"

text \<open>
  The whole. Both loops having ended, the error of the first is reported; until then an ended loop does
  nothing. When the list of events is exhausted, the relay waits.
\<close>

fun udp_loops :: "addr_codec \<Rightarrow> udp_env \<Rightarrow> cu_event list \<Rightarrow> (client_udp, anyhow, nat \<times> nat) action" where
  "udp_loops ac env [] st = (Pending, st)"
| "udp_loops ac env (CuControl r # es) st =
     (case r of
        Inr _ \<Rightarrow> (Ready (Inl (Anyhow ''unexpected data received from tcp connection'')), st)
      | Inl e \<Rightarrow>
          (if io_kind_of e = io_kind.UnexpectedEof then (Ready (Inr (cu_tx st, cu_rx st)), st)
           else (Ready (Inl (Context ''control connection terminated'' (IoErr e))), st)))"
| "udp_loops ac env (CuClient r con # es) st0 =
     (case (if cu_atob st0 \<noteq> None then (Ready (), st0)
            else case r of
                   Inl e \<Rightarrow> (Ready (), st0\<lparr>cu_atob := Some (IoErr e)\<rparr>)
                 | Inr dgram \<Rightarrow> from_client ac env dgram con st0) of
        (Pending, st) \<Rightarrow> (Pending, st)
      | (Panics msg, st) \<Rightarrow> (Panics msg, st)
      | (Ready _, st) \<Rightarrow>
          (case (cu_atob st, cu_btoa st) of
             (Some e, Some _) \<Rightarrow> (Ready (Inl (Context ''error when forward data from peer to remote'' e)), st)
           | _ \<Rightarrow> udp_loops ac env es st))"
| "udp_loops ac env (CuTunnel sending # es) st0 =
     (case (if cu_btoa st0 \<noteq> None then (Ready (), st0) else from_tunnel ac sending st0) of
        (Pending, st) \<Rightarrow> (Pending, st)
      | (Panics msg, st) \<Rightarrow> (Panics msg, st)
      | (Ready _, st) \<Rightarrow>
          (case (cu_atob st, cu_btoa st) of
             (Some e, Some _) \<Rightarrow> (Ready (Inl (Context ''error when forward data from peer to remote'' e)), st)
           | _ \<Rightarrow> udp_loops ac env es st))"

definition relay_udp_with :: "addr_codec \<Rightarrow> udp_env \<Rightarrow> (nat \<Rightarrow> byte) \<Rightarrow> trojan_like_request \<Rightarrow> cu_event list \<Rightarrow> conn \<Rightarrow>
    (anyhow + nat \<times> nat) outcome \<times> client_udp" where
  "relay_udp_with ac env uninit header es tunnel =
     (case write_request ac header fresh_conn of
        (r, w) \<Rightarrow>
          (let st = \<lparr>cu_outw = w, cu_tunnel = tunnel, cu_buf = map uninit [0..<MAX_DATAGRAM_SIZE], cu_connected = False,
                cu_sent = [], cu_tx = 0, cu_rx = 0, cu_atob = None, cu_btoa = None\<rparr> in
           case r of
             Ready (Inr _) \<Rightarrow> udp_loops ac env es st
           | Ready (Inl e) \<Rightarrow> (Ready (Inl (IoErr e)), st)
           | Pending \<Rightarrow> (Pending, st)
           | Panics msg \<Rightarrow> (Panics msg, st)))"

section \<open>Lemmas\<close>

text \<open>A SOCKS5 datagram, and what the address reader promises.\<close>

definition socks_dgram :: "addr_codec \<Rightarrow> bytes \<times> trojan_addr \<Rightarrow> bytes" where
  "socks_dgram ac d = [0x00, 0x00, 0x00] @ addr_wire ac (snd d) @ fst d"

definition parse_ok :: "addr_codec \<Rightarrow> udp_env \<Rightarrow> bool" where
  "parse_ok ac env \<longleftrightarrow> (\<forall>a rest. addr_valid a \<longrightarrow> ue_parse env (addr_wire ac a @ rest) = Inr a)"

text \<open>
  Events in which the network works and the SOCKS5 client sends whole datagrams, or fragments, which are
  dropped; and the datagrams that are passed on.
\<close>

datatype client_packet = Whole bytes trojan_addr | Fragment bytes

fun packet_ok :: "addr_codec \<Rightarrow> client_packet \<Rightarrow> bool" where
  "packet_ok ac (Whole dat a) \<longleftrightarrow> addr_valid a \<and> length (socks_dgram ac (dat, a)) \<le> MAX_DATAGRAM_SIZE"
| "packet_ok ac (Fragment dg) \<longleftrightarrow> 3 \<le> length dg \<and> length dg \<le> MAX_DATAGRAM_SIZE \<and> dg ! 2 \<noteq> 0"

fun packet_bytes :: "addr_codec \<Rightarrow> client_packet \<Rightarrow> bytes" where
  "packet_bytes ac (Whole dat a) = socks_dgram ac (dat, a)"
| "packet_bytes ac (Fragment dg) = dg"

fun wholes :: "client_packet list \<Rightarrow> (bytes \<times> trojan_addr) list" where
  "wholes [] = []"
| "wholes (Whole dat a # ps) = (dat, a) # wholes ps"
| "wholes (Fragment dg # ps) = wholes ps"

text \<open>An interleaving of packets from the client (\<open>Some\<close>) and rounds of the second loop (\<open>None\<close>).\<close>

fun cu_events :: "addr_codec \<Rightarrow> client_packet option list \<Rightarrow> cu_event list" where
  "cu_events ac [] = []"
| "cu_events ac (Some p # xs) = CuClient (Inr (packet_bytes ac p)) None # cu_events ac xs"
| "cu_events ac (None # xs) = CuTunnel None # cu_events ac xs"

abbreviation (input) client_packets :: "client_packet option list \<Rightarrow> client_packet list" where
  "client_packets xs \<equiv> map the (filter (\<lambda>x. x \<noteq> None) xs)"

definition cu_ready :: "client_udp \<Rightarrow> bool" where
  "cu_ready st \<longleftrightarrow> cu_atob st = None \<and> cu_btoa st = None \<and> length (cu_buf st) = MAX_DATAGRAM_SIZE \<and>
     wr_room (cu_outw st) = None \<and> wr_room (cu_tunnel st) = None"

lemma from_client_fragment:
  assumes "packet_ok ac (Fragment dg)" "cu_ready st" "\<not> ue_trace env"
  shows "from_client ac env dg None st = (Ready (), st\<lparr>cu_buf := overwrite 0 dg (cu_buf st), cu_connected := True\<rparr>)"
  using assms by (simp add: from_client_def overwrite_def nth_append Let_def)

lemma from_client_whole:
  assumes "addr_codec_ok ac" "parse_ok ac env" "packet_ok ac (Whole dat a)" "cu_ready st" "\<not> ue_trace env"
  shows "\<exists>buf. length buf = MAX_DATAGRAM_SIZE \<and> from_client ac env (socks_dgram ac (dat, a)) None st =
    (Ready (), st\<lparr>cu_buf := buf, cu_connected := True, cu_outw := (cu_outw st)\<lparr>out := []\<rparr>,
       cu_tunnel := (cu_tunnel st)\<lparr>out := out (cu_tunnel st) @ out (cu_outw st) @ datagram_wire ac dat a\<rparr>,
       cu_tx := cu_tx st + length (socks_dgram ac (dat, a))\<rparr>)"
proof -
  let ?dg = "socks_dgram ac (dat, a)" and ?w = "addr_wire ac a"
  let ?buf = "overwrite 0 ?dg (cu_buf st)"
  have v: "addr_valid a" and l: "length ?dg \<le> MAX_DATAGRAM_SIZE" using assms(3) by simp_all
  have "?buf ! 2 = 0" "drop 3 ?dg = ?w @ dat" "\<not> length ?dg < 3" "\<not> length ?dg < 3 + length ?w"
    by (simp_all add: overwrite_def socks_dgram_def)
  moreover have "drop (3 + length ?w) ?dg = dat" by (simp add: socks_dgram_def numeral_3_eq_3)
  moreover have "ue_parse env (?w @ dat) = Inr a" using assms(2) v by (simp add: parse_ok_def)
  moreover have "ac_len ac a = Some (length ?w)" by (rule addr_codec_laws(2) [OF assms(1) v])
  moreover have "send_to ac dat a (cu_outw st) = (Ready (Inr ()), (cu_outw st)\<lparr>out := out (cu_outw st) @ datagram_wire ac dat a\<rparr>)"
    using assms(4) by (intro send_to_wire [OF assms(1) v]) (simp add: cu_ready_def)
  moreover have "length ?buf = MAX_DATAGRAM_SIZE"
    using assms(4) l by (simp add: length_overwrite cu_ready_def)
  ultimately show ?thesis
    using assms(4,5) l
    by (intro exI [of _ ?buf]) (simp add: from_client_def forward_datagram_def cu_ready_def write_all_unbounded Let_def)
qed

lemma from_tunnel_datagram:
  assumes "addr_codec_ok ac" "addr_valid a" "length (socks_dgram ac (dat, a)) \<le> MAX_DATAGRAM_SIZE"
    and "inp (cu_tunnel st) = datagram_wire ac dat a @ rest" "cu_connected st"
  shows "from_tunnel ac None st = (Ready (), st\<lparr>cu_tunnel := (cu_tunnel st)\<lparr>inp := rest\<rparr>,
    cu_sent := cu_sent st @ [socks_dgram ac (dat, a)], cu_rx := cu_rx st + length dat\<rparr>)"
proof -
  have "length dat < MAX_DATAGRAM_SIZE" "length dat < 65536" "\<not> MAX_DATAGRAM_SIZE < 3 + length (addr_wire ac a) + length dat"
    using assms(3) by (simp_all add: socks_dgram_def)
  with recv_from_header [OF assms(1,2,4), of MAX_DATAGRAM_SIZE] addr_codec_laws(1,2) [OF assms(1,2)] assms(5)
  show ?thesis by (simp add: from_tunnel_def socks_dgram_def Let_def)
qed

lemma udp_loops_smooth:
  assumes "addr_codec_ok ac" "parse_ok ac env" "\<not> ue_trace env"
  shows "list_all (packet_ok ac) (client_packets xs) \<Longrightarrow>
    list_all (\<lambda>d. addr_valid (snd d) \<and> length (socks_dgram ac d) \<le> MAX_DATAGRAM_SIZE) ds \<Longrightarrow>
    length (filter (\<lambda>x. x = None) xs) = length ds \<Longrightarrow> inp (cu_tunnel st) = dgrams_wire ac ds @ rest \<Longrightarrow>
    cu_ready st \<Longrightarrow> cu_connected st \<or> xs = [] \<or> hd xs \<noteq> None \<Longrightarrow>
    \<exists>st'. udp_loops ac env (cu_events ac xs @ es) st = udp_loops ac env es st' \<and>
      inp (cu_tunnel st') = rest \<and> cu_sent st' = cu_sent st @ map (socks_dgram ac) ds \<and>
      out (cu_tunnel st') @ out (cu_outw st') =
        out (cu_tunnel st) @ out (cu_outw st) @ dgrams_wire ac (wholes (client_packets xs)) \<and>
      out (cu_outw st') = (if wholes (client_packets xs) = [] then out (cu_outw st) else []) \<and>
      cu_tx st' = cu_tx st + sum_list (map (\<lambda>d. length (socks_dgram ac d)) (wholes (client_packets xs))) \<and>
      cu_rx st' = cu_rx st + payload_bytes ds"
proof (induction xs arbitrary: st ds)
  case Nil
  then show ?case by auto
next
  case (Cons x xs)
  have alive: "cu_atob st = None" "cu_btoa st = None" using Cons.prems(5) by (simp_all add: cu_ready_def)
  show ?case
  proof (cases x)
    case None
    with Cons.prems obtain dat a ds' where ds: "ds = (dat, a) # ds'" by (cases ds) auto
    let ?st = "st\<lparr>cu_tunnel := (cu_tunnel st)\<lparr>inp := dgrams_wire ac ds' @ rest\<rparr>,
      cu_sent := cu_sent st @ [socks_dgram ac (dat, a)], cu_rx := cu_rx st + length dat\<rparr>"
    have "from_tunnel ac None st = (Ready (), ?st)"
      using Cons.prems ds None by (intro from_tunnel_datagram [OF assms(1)]) auto
    then have "udp_loops ac env (cu_events ac (x # xs) @ es) st = udp_loops ac env (cu_events ac xs @ es) ?st"
      using None alive by simp
    with Cons.IH [of ds' ?st] Cons.prems ds None show ?thesis
      by (auto simp: cu_ready_def simp del: udp_loops.simps cu_events.simps)
  next
    case (Some p)
    show ?thesis
    proof (cases p)
      case (Fragment dg)
      let ?st = "st\<lparr>cu_buf := overwrite 0 dg (cu_buf st), cu_connected := True\<rparr>"
      have ok: "packet_ok ac (Fragment dg)" using Cons.prems(1) Some Fragment by simp
      have "udp_loops ac env (cu_events ac (x # xs) @ es) st = udp_loops ac env (cu_events ac xs @ es) ?st"
        using Some Fragment alive from_client_fragment [OF ok Cons.prems(5) assms(3)] by simp
      moreover have "cu_ready ?st" using ok Cons.prems(5) by (simp add: cu_ready_def length_overwrite)
      ultimately show ?thesis using Cons.IH [of ds ?st] Cons.prems Some Fragment
        by (auto simp del: udp_loops.simps cu_events.simps)
    next
      case (Whole dat a)
      have ok: "packet_ok ac (Whole dat a)" using Cons.prems(1) Some Whole by simp
      from from_client_whole [OF assms(1,2) ok Cons.prems(5) assms(3)] obtain buf where
        b: "length buf = MAX_DATAGRAM_SIZE" and f: "from_client ac env (socks_dgram ac (dat, a)) None st =
          (Ready (), st\<lparr>cu_buf := buf, cu_connected := True, cu_outw := (cu_outw st)\<lparr>out := []\<rparr>,
             cu_tunnel := (cu_tunnel st)\<lparr>out := out (cu_tunnel st) @ out (cu_outw st) @ datagram_wire ac dat a\<rparr>,
             cu_tx := cu_tx st + length (socks_dgram ac (dat, a))\<rparr>)" (is "_ = (Ready (), ?st)") by blast
      have "udp_loops ac env (cu_events ac (x # xs) @ es) st = udp_loops ac env (cu_events ac xs @ es) ?st"
        using Some Whole alive f by simp
      moreover have "cu_ready ?st" using b Cons.prems(5) by (simp add: cu_ready_def)
      moreover have "list_all (packet_ok ac) (client_packets xs)" "length (filter (\<lambda>x. x = None) xs) = length ds"
        "inp (cu_tunnel ?st) = dgrams_wire ac ds @ rest" "cu_connected ?st \<or> xs = [] \<or> hd xs \<noteq> None"
        using Cons.prems Some by simp_all
      ultimately obtain st' where st': "udp_loops ac env (cu_events ac (x # xs) @ es) st = udp_loops ac env es st'"
        "inp (cu_tunnel st') = rest" "cu_sent st' = cu_sent ?st @ map (socks_dgram ac) ds"
        "out (cu_tunnel st') @ out (cu_outw st') =
          out (cu_tunnel ?st) @ out (cu_outw ?st) @ dgrams_wire ac (wholes (client_packets xs))"
        "out (cu_outw st') = (if wholes (client_packets xs) = [] then out (cu_outw ?st) else [])"
        "cu_tx st' = cu_tx ?st + sum_list (map (\<lambda>d. length (socks_dgram ac d)) (wholes (client_packets xs)))"
        "cu_rx st' = cu_rx ?st + payload_bytes ds"
        using Cons.IH [of ds ?st] Cons.prems(2) by (auto simp del: udp_loops.simps cu_events.simps)
      from st' Some Whole show ?thesis
        by (intro exI [of _ st']) (simp del: udp_loops.simps cu_events.simps)
    qed
  qed
qed

lemma relay_udp_with_smooth:
  assumes "addr_codec_ok ac" "parse_ok ac env" "\<not> ue_trace env" "addr_valid (dest_addr header)"
    and "list_all (packet_ok ac) (client_packets xs)" "xs = [] \<or> hd xs \<noteq> None" "wr_room tunnel = None"
    and "list_all (\<lambda>d. addr_valid (snd d) \<and> length (socks_dgram ac d) \<le> MAX_DATAGRAM_SIZE) ds"
    and "length (filter (\<lambda>x. x = None) xs) = length ds" "inp tunnel = dgrams_wire ac ds @ rest"
    and "io_kind_of e = io_kind.UnexpectedEof" "ws = wholes (client_packets xs)"
  shows "\<exists>st'. relay_udp_with ac env garbage header (cu_events ac xs @ [CuControl (Inl e)]) tunnel =
      (Ready (Inr (sum_list (map (\<lambda>d. length (socks_dgram ac d)) ws), payload_bytes ds)), st') \<and>
    out (cu_tunnel st') = out tunnel @ (if ws = [] then [] else request_wire ac header @ dgrams_wire ac ws) \<and>
    cu_sent st' = map (socks_dgram ac) ds \<and> inp (cu_tunnel st') = rest"
proof -
  let ?st = "\<lparr>cu_outw = fresh_conn\<lparr>out := request_wire ac header\<rparr>, cu_tunnel = tunnel,
    cu_buf = map garbage [0..<MAX_DATAGRAM_SIZE], cu_connected = False, cu_sent = [], cu_tx = 0, cu_rx = 0,
    cu_atob = None, cu_btoa = None\<rparr>"
  have w: "write_request ac header fresh_conn =
      (Ready (Inr (length (request_wire ac header))), fresh_conn\<lparr>out := request_wire ac header\<rparr>)"
    using write_request_wire [OF assms(1,4), of fresh_conn] by (simp add: fresh_conn_def)
  have r: "cu_ready ?st" using assms(7) by (simp add: cu_ready_def fresh_conn_def)
  have t: "inp (cu_tunnel ?st) = dgrams_wire ac ds @ rest" using assms(10) by simp
  have c: "cu_connected ?st \<or> xs = [] \<or> hd xs \<noteq> None" using assms(6) by blast
  from udp_loops_smooth [OF assms(1-3,5,8,9) t r c, of "[CuControl (Inl e)]", folded assms(12)] obtain st' where
    u: "udp_loops ac env (cu_events ac xs @ [CuControl (Inl e)]) ?st = udp_loops ac env [CuControl (Inl e)] st'"
    "inp (cu_tunnel st') = rest" "cu_sent st' = cu_sent ?st @ map (socks_dgram ac) ds"
    "out (cu_tunnel st') @ out (cu_outw st') = out (cu_tunnel ?st) @ out (cu_outw ?st) @ dgrams_wire ac ws"
    "out (cu_outw st') = (if ws = [] then out (cu_outw ?st) else [])"
    "cu_tx st' = cu_tx ?st + sum_list (map (\<lambda>d. length (socks_dgram ac d)) ws)"
    "cu_rx st' = cu_rx ?st + payload_bytes ds"
    by blast
  from u(4,5) have "out (cu_tunnel st') = out tunnel @ (if ws = [] then [] else request_wire ac header @ dgrams_wire ac ws)"
    by (cases "ws = []") simp_all
  with u(1-3,6,7) w assms(11) show ?thesis
    by (intro exI [of _ st']) (simp add: relay_udp_with_def)
qed

text \<open>
  Two ways in which a datagram of the client ends the forwarding. With trace messages on, the first datagram does: the message asks for the
  peer of a socket that has none. And a datagram of fewer than three bytes panics, when the byte that a
  datagram before it has left in the buffer does not make it a fragment.
\<close>

lemma first_datagram_traced:
  assumes "ue_trace env" "\<not> cu_connected st" "cu_atob st = None"
  shows "cu_atob (snd (from_client ac env dgram con st)) = Some (IoErr not_connected)"
    and "cu_tunnel (snd (from_client ac env dgram con st)) = cu_tunnel st"
  using assms by (simp_all add: from_client_def Let_def)

lemma short_datagram_panics:
  assumes "cu_connected st" "length dgram < 3" "2 < length (cu_buf st)" "cu_buf st ! 2 = 0"
  shows "fst (from_client ac env dgram con st) = Panics ''slice index starts at 3 but ends at n''"
proof -
  have "take MAX_DATAGRAM_SIZE dgram = dgram" using assms(2) by simp
  moreover have "overwrite 0 dgram (cu_buf st) ! 2 = 0" using assms(2-4) by (simp add: overwrite_def nth_append)
  ultimately show ?thesis using assms(1,2) by (simp add: from_client_def Let_def)
qed

section \<open>Properties\<close>

text \<open>
  C25. The client's UDP relay is faithful. While the network works, and however the two directions are
  interleaved, the tunnel gets the request header and then, as datagrams in order, exactly the whole datagrams
  that the SOCKS5 client sent with their destinations; fragments are dropped, and the header waits for the
  first datagram. Every datagram that comes out of the tunnel is sent to the SOCKS5 client with the address it came
  from. The end of the control connection ends the relay with the number of bytes carried.
\<close>

theorem client_udp_faithful:
  assumes "addr_codec_ok ac" "parse_ok ac env" "\<not> ue_trace env" "addr_valid (dest_addr header)"
    and "list_all (packet_ok ac) (client_packets xs)" "xs = [] \<or> hd xs \<noteq> None" "wr_room tunnel = None"
    and "list_all (\<lambda>d. addr_valid (snd d) \<and> length (socks_dgram ac d) \<le> MAX_DATAGRAM_SIZE) ds"
    and "length (filter (\<lambda>x. x = None) xs) = length ds" "inp tunnel = dgrams_wire ac ds @ rest"
    and "io_kind_of e = io_kind.UnexpectedEof" "ws = wholes (client_packets xs)"
  shows "\<exists>st'. relay_udp_with ac env garbage header (cu_events ac xs @ [CuControl (Inl e)]) tunnel =
      (Ready (Inr (sum_list (map (\<lambda>d. length (socks_dgram ac d)) ws), payload_bytes ds)), st') \<and>
    out (cu_tunnel st') = out tunnel @ (if ws = [] then [] else request_wire ac header @ dgrams_wire ac ws) \<and>
    cu_sent st' = map (socks_dgram ac) ds \<and> inp (cu_tunnel st') = rest"
  by (rule relay_udp_with_smooth [OF assms])

text \<open>A datagram to 8.8.8.8:53, a fragment, and an answer.\<close>

definition rfc1928_env :: udp_env where
  "rfc1928_env = \<lparr>ue_trace = False,
     ue_parse = (\<lambda>bs. case rfc1928_read (fresh_conn\<lparr>inp := bs\<rparr>) of (Ready (Inr a), _) \<Rightarrow> Inr a | _ \<Rightarrow> Inl (Anyhow ''address''))\<rparr>"

lemma rfc1928_parse_ok: "parse_ok rfc1928 rfc1928_env"
  by (simp add: parse_ok_def rfc1928_env_def rfc1928_def addr_wire_def rfc1928_read_bytes)

abbreviation (input) dns8 :: trojan_addr where "dns8 \<equiv> SocketAddr (V4 [8, 8, 8, 8]) 53"

theorem client_udp_faithful_witness:
  "\<exists>st. relay_udp_with rfc1928 rfc1928_env (\<lambda>_. 0) \<lparr>req_cmd = UdpAssociate, dest_addr = SocketAddr (V4 [0, 0, 0, 0]) 0\<rparr>
      (cu_events rfc1928 [Some (Whole [1, 2] dns8), Some (Fragment [0, 0, 1]), None] @
         [CuControl (Inl (IoError io_kind.UnexpectedEof ''early eof''))])
      (fresh_conn\<lparr>inp := datagram_wire rfc1928 [7] dns8\<rparr>) = (Ready (Inr (12, 1)), st) \<and>
    out (cu_tunnel st) = request_wire rfc1928 \<lparr>req_cmd = UdpAssociate, dest_addr = SocketAddr (V4 [0, 0, 0, 0]) 0\<rparr>
      @ datagram_wire rfc1928 [1, 2] dns8 \<and>
    cu_sent st = [[0, 0, 0, 1, 8, 8, 8, 8, 0, 53, 7]]"
proof -
  let ?h = "\<lparr>req_cmd = UdpAssociate, dest_addr = SocketAddr (V4 [0, 0, 0, 0]) 0\<rparr>"
  let ?xs = "[Some (Whole [1, 2] dns8), Some (Fragment [0, 0, 1]), None]"
  let ?e = "IoError io_kind.UnexpectedEof ''early eof''" and ?t = "fresh_conn\<lparr>inp := datagram_wire rfc1928 [7] dns8\<rparr>"
  have w: "addr_wire rfc1928 dns8 = [1, 8, 8, 8, 8, 0, 53]"
    by (simp add: addr_wire_def rfc1928_def be16_def drop_bit_eq_div)
  have "\<exists>st'. relay_udp_with rfc1928 rfc1928_env (\<lambda>_. 0) ?h (cu_events rfc1928 ?xs @ [CuControl (Inl ?e)]) ?t =
      (Ready (Inr (sum_list (map (\<lambda>d. length (socks_dgram rfc1928 d)) [([1, 2], dns8)]), payload_bytes [([7 :: byte], dns8)])), st') \<and>
    out (cu_tunnel st') = out ?t @ (if [([1, 2] :: bytes, dns8)] = [] then [] else
      request_wire rfc1928 ?h @ dgrams_wire rfc1928 [([1, 2], dns8)]) \<and>
    cu_sent st' = map (socks_dgram rfc1928) [([7], dns8)] \<and> inp (cu_tunnel st') = []"
    by (rule client_udp_faithful [OF rfc1928_ok rfc1928_parse_ok])
      (simp_all add: rfc1928_env_def socks_dgram_def w fresh_conn_def)
  moreover have "sum_list (map (\<lambda>d. length (socks_dgram rfc1928 d)) [([1, 2], dns8)]) = 12"
    by (simp add: socks_dgram_def w)
  ultimately show ?thesis by (auto simp: socks_dgram_def w fresh_conn_def simp del: relay_udp_with_def)
qed

end
