(* ===== verification/Url.thy ===== *)
theory Url
  imports Prelude
begin

text \<open>
  \<open>shuttle/src/utils.rs\<close>: the two functions that take the URL of a proxied HTTP request apart, and the
  formatting of durations for the log. Text is ASCII.
\<close>

section \<open>Strings\<close>

text \<open>\<open>str::split\<close> at \<open>//\<close> and at a character, and the text after the first occurrence.\<close>

fun split_dslash :: "string \<Rightarrow> string list" where
  "split_dslash [] = [[]]"
| "split_dslash (c # s) =
     (if c = CHR ''/'' \<and> s \<noteq> [] \<and> hd s = CHR ''/'' then [] # split_dslash (tl s)
      else (case split_dslash s of x # xs \<Rightarrow> (c # x) # xs | [] \<Rightarrow> [[c]]))"

fun after_dslash :: "string \<Rightarrow> string option" where
  "after_dslash [] = None"
| "after_dslash (c # s) =
     (if c = CHR ''/'' \<and> s \<noteq> [] \<and> hd s = CHR ''/'' then Some (tl s) else after_dslash s)"

section \<open>Model\<close>

text \<open>
  The first component is the scheme with its colon, which is cut off; cutting the last character off an
  empty string panics. A port in the URL is parsed together with the colon that \<open>split_at\<close> leaves in
  front of it.
\<close>

definition extract_host_addr_from_url :: "string \<Rightarrow> (string \<times> nat) option outcome" where
  "extract_host_addr_from_url url =
     (let components = split_dslash url; scheme = hd components in
      case tl components of
        [] \<Rightarrow> Ready None
      | rest # _ \<Rightarrow>
          (let host = takeWhile (\<lambda>c. c \<noteq> CHR ''/'') rest in
           if scheme = [] then Panics ''range end index out of range''
           else
             (case (if butlast scheme = ''ftp'' then Some 21
                    else if butlast scheme = ''https'' then Some 443
                    else if butlast scheme = ''http'' \<or> butlast scheme = [] then Some 80
                    else None) of
                None \<Rightarrow> Ready None
              | Some port \<Rightarrow>
                  (if CHR '':'' \<in> set host then
                     (let h = takeWhile (\<lambda>c. c \<noteq> CHR '':'') host;
                          p = dropWhile (\<lambda>c. c \<noteq> CHR '':'') host in
                      case parse_unsigned 65536 p of
                        None \<Rightarrow> Ready None
                      | Some n \<Rightarrow> Ready (Some (h, n)))
                   else Ready (Some (host, port))))))"

definition url_to_relative :: "string \<Rightarrow> string option" where
  "url_to_relative url0 =
     (let url = (case after_dslash url0 of Some s \<Rightarrow> s | None \<Rightarrow> url0);
          rest = dropWhile (\<lambda>c. c \<noteq> CHR ''/'') url in
      if rest = [] then None else Some rest)"

text \<open>
  Which unit a duration of \<open>t\<close> nanoseconds is shown in, and by how many nanoseconds it is divided;
  \<open>False\<close> for the two last branches, which divide integers.
\<close>

definition autofmt :: "nat \<Rightarrow> string \<times> nat \<times> bool" where
  "autofmt t =
     (if t < 1000 then (''ns'', 1, True)
      else if t < 1000000 then (''us'', 1000, True)
      else if t < 1000000000 then (''ms'', 1000000, True)
      else if t < 1000000000000 then (''s'', 1000000000, True)
      else if t < 60000000000000 then (''mins'', 1000000000000, True)
      else if t < 3600000000000000 then (''hrs'', 60000000000000, False)
      else (''days'', 3600000000000000, False))"

section \<open>Lemmas\<close>

lemma split_dslash_Cons: "split_dslash s \<noteq> []"
  by (induction s rule: split_dslash.induct) (auto split: list.splits)

lemma split_dslash_prefix:
  "CHR ''/'' \<notin> set s \<Longrightarrow> split_dslash (s @ ''//'' @ t) = s # split_dslash t"
  by (induction s) auto

lemma after_dslash_prefix: "CHR ''/'' \<notin> set s \<Longrightarrow> after_dslash (s @ ''//'' @ t) = Some t"
  by (induction s) auto

lemma hd_split_dslash:
  "takeWhile (\<lambda>c. c \<noteq> CHR ''/'') (hd (split_dslash s)) = takeWhile (\<lambda>c. c \<noteq> CHR ''/'') s"
proof (induction s rule: split_dslash.induct)
  case (2 c s)
  obtain x xs where "split_dslash s = x # xs" using split_dslash_Cons by (cases "split_dslash s") auto
  with 2 show ?case by auto
qed simp

lemma takeWhile_host:
  "x \<notin> set host \<Longrightarrow> takeWhile (\<lambda>c. c \<noteq> x) (host @ x # rest) = host"
  "x \<notin> set host \<Longrightarrow> dropWhile (\<lambda>c. c \<noteq> x) (host @ x # rest) = x # rest"
  by (induction host) auto

text \<open>The three schemes with their ports.\<close>

abbreviation (input) schemes :: "(string \<times> nat) list" where
  "schemes \<equiv> [(''ftp'', 21), (''https'', 443), (''http'', 80)]"

lemma extract_authority:
  assumes "(scheme, port) \<in> set schemes" "CHR ''/'' \<notin> set authority"
  shows "extract_host_addr_from_url (scheme @ ''://'' @ authority @ CHR ''/'' # rest) =
    (if CHR '':'' \<in> set authority
     then (case parse_unsigned 65536 (dropWhile (\<lambda>c. c \<noteq> CHR '':'') authority) of
             None \<Rightarrow> Ready None
           | Some n \<Rightarrow> Ready (Some (takeWhile (\<lambda>c. c \<noteq> CHR '':'') authority, n)))
     else Ready (Some (authority, port)))"
proof -
  let ?t = "authority @ CHR ''/'' # rest"
  have "CHR ''/'' \<notin> set (scheme @ '':'')" using assms(1) by auto
  from split_dslash_prefix [OF this, of ?t]
  have s: "split_dslash (scheme @ ''://'' @ ?t) = (scheme @ '':'') # split_dslash ?t" by simp
  obtain x xs where x: "split_dslash ?t = x # xs" using split_dslash_Cons by (cases "split_dslash ?t") auto
  with hd_split_dslash [of ?t] takeWhile_host(1) [OF assms(2)]
  have "takeWhile (\<lambda>c. c \<noteq> CHR ''/'') x = authority" by simp
  with s x assms(1) show ?thesis by (auto simp: extract_host_addr_from_url_def Let_def)
qed

lemma url_to_relative_path:
  assumes "CHR ''/'' \<notin> set scheme" "CHR ''/'' \<notin> set authority"
  shows "url_to_relative (scheme @ ''://'' @ authority @ CHR ''/'' # rest) = Some (CHR ''/'' # rest)"
  using after_dslash_prefix [of "scheme @ '':''" "authority @ CHR ''/'' # rest"] assms
  by (simp add: url_to_relative_def takeWhile_host(2))

lemma colon_no_port: "parse_unsigned bound (CHR '':'' # p) = None"
  by (simp add: digit_val_def)

section \<open>Properties\<close>

text \<open>
  The URL of a proxied request is taken apart into the host, the default port of its scheme and the
  path, whatever the path holds. A URL that names a port is refused, whichever port it is: the colon is
  parsed with the number.
\<close>

lemma url_taken_apart:
  assumes "(scheme, port) \<in> set schemes" "CHR ''/'' \<notin> set host" "CHR '':'' \<notin> set host" "CHR ''/'' \<notin> set p"
  shows "extract_host_addr_from_url (scheme @ ''://'' @ host @ ''/'' @ rest) = Ready (Some (host, port)) \<and>
    url_to_relative (scheme @ ''://'' @ host @ ''/'' @ rest) = Some (''/'' @ rest) \<and>
    extract_host_addr_from_url (scheme @ ''://'' @ host @ '':'' @ p @ ''/'' @ rest) = Ready None"
proof -
  have "CHR ''/'' \<notin> set scheme" using assms(1) by auto
  with extract_authority [OF assms(1), of host rest] extract_authority [OF assms(1), of "host @ CHR '':'' # p" rest]
    url_to_relative_path [of scheme host rest] assms(2-4)
  show ?thesis by (simp add: takeWhile_host(2) colon_no_port del: parse_unsigned.simps)
qed

end
