(* ===== verification/Proxy.thy ===== *)
theory Proxy
  imports Client ClientUdp Url
begin

text \<open>
  The proxy front end of \<open>shuttle/src/client/plain.rs\<close>: the choice of the protocol by the first byte, and
  the handling of an HTTP proxy request and of a SOCKS5 request up to the relay. Parsing an HTTP request
  (\<open>httparse\<close>), parsing an address and the SOCKS5 messages (\<open>socks5_protocol\<close>) are parameters.
\<close>

section \<open>HTTP\<close>

text \<open>Text as bytes: a character is one byte.\<close>

definition bytes_of :: "string \<Rightarrow> bytes" where
  "bytes_of s = map (\<lambda>c. of_nat (of_char c)) s"

definition to_lower :: "char \<Rightarrow> char" where
  "to_lower c = (let n = of_char c :: nat in if 65 \<le> n \<and> n \<le> 90 then char_of (n + 32) else c)"

definition eq_ignore_ascii_case :: "string \<Rightarrow> string \<Rightarrow> bool" where
  "eq_ignore_ascii_case s t \<longleftrightarrow> map to_lower s = map to_lower t"

record http_request =
  http_method :: string
  http_path :: string
  http_version :: nat
  http_headers :: "(string \<times> bytes) list"

datatype http_status = Partial | Complete nat http_request

record http_env =
  he_parse :: "bytes \<Rightarrow> string + http_status"
  he_addr :: "string \<Rightarrow> trojan_addr option"
  he_uninit :: "nat \<Rightarrow> byte"

definition crlf :: string where
  "crlf = [CHR 0x0d, CHR 0x0a]"

definition HTTP_200_CONNECTION_ESTABLISHED :: bytes where
  "HTTP_200_CONNECTION_ESTABLISHED =
     bytes_of (''HTTP/1.1 200 Connection Established'' @ crlf @ ''X-Powered-By: noisy-shuttle'' @ crlf @ crlf)"

definition HTTP_400_BAD_REQUEST :: bytes where
  "HTTP_400_BAD_REQUEST = bytes_of (''HTTP/1.1 400 Bad Request'' @ crlf @ crlf
     @ ''<html><h1>Not Proxied Request</h1>Powered by noisy-shuttle</html>'')"

definition HTTP_405_METHOD_NOT_ALLOWED :: bytes where
  "HTTP_405_METHOD_NOT_ALLOWED = bytes_of (''HTTP/1.1 405 Method Not Allowed'' @ crlf @ crlf
     @ ''<html><h1>Method Not Allowed</h1>Powered by noisy-shuttle</html>'')"

text \<open>The headers that are passed on, and the value of the last Host header.\<close>

definition is_proxy_header :: "string \<Rightarrow> bool" where
  "is_proxy_header name \<longleftrightarrow> length name \<ge> 6 \<and> eq_ignore_ascii_case (take 6 name) ''Proxy-''"

definition passed_headers :: "(string \<times> bytes) list \<Rightarrow> (string \<times> bytes) list" where
  "passed_headers hs = filter (\<lambda>h. \<not> is_proxy_header (fst h)) hs"

definition host_header :: "(string \<times> bytes) list \<Rightarrow> bytes option" where
  "host_header hs =
     (case filter (\<lambda>h. eq_ignore_ascii_case (fst h) ''Host'') (passed_headers hs) of
        [] \<Rightarrow> None
      | us \<Rightarrow> Some (snd (last us)))"

text \<open>The request as it is written for the server, with the path in place of the URL.\<close>

definition header_line :: "string \<times> bytes \<Rightarrow> bytes" where
  "header_line h = bytes_of (fst h @ '': '') @ (if utf8_valid (snd h) then snd h else []) @ bytes_of crlf"

definition request_text :: "string \<Rightarrow> string \<Rightarrow> nat \<Rightarrow> (string \<times> bytes) list \<Rightarrow> bytes" where
  "request_text meth path hver hs =
     bytes_of (meth @ '' '' @ path @ '' HTTP/1.'' @ show_nat hver @ crlf)
     @ concat (map header_line hs) @ bytes_of crlf"

text \<open>
  What the first loop ends with: the buffer to send first, whether it was sent already, and the tunnel it
  was sent over. \<open>connected\<close> is what the connector returns.
\<close>

type_synonym http_ready = "bytes option \<times> conn option \<times> nat"

text \<open>The header of a request written at the start of a fresh buffer.\<close>

definition encode_header :: "addr_codec \<Rightarrow> http_env \<Rightarrow> trojan_addr \<Rightarrow> bytes outcome" where
  "encode_header ac env a =
     (case encode_request ac \<lparr>req_cmd = Connect, dest_addr = a\<rparr> (map (he_uninit env) [0..<MAX_FIRST_PACKET_SIZE]) of
        Ready (n, buf) \<Rightarrow> Ready (take n buf)
      | Pending \<Rightarrow> Pending
      | Panics msg \<Rightarrow> Panics msg)"

definition http_connect :: "addr_codec \<Rightarrow> http_env \<Rightarrow> string \<Rightarrow> bytes \<Rightarrow> (conn, anyhow, http_ready) action" where
  "http_connect ac env url body inbound =
     (case he_addr env url of
        None \<Rightarrow> (Ready (Inl (Anyhow ''invalid address'')), inbound)
      | Some a \<Rightarrow>
          io_bind (io_map_err IoErr (write_all HTTP_200_CONNECTION_ESTABLISHED)) (\<lambda>_ inbound.
            (case encode_header ac env a of
               Ready hdr \<Rightarrow> (Ready (Inr (Some (hdr @ body), None, 0)), inbound)
             | Pending \<Rightarrow> (Pending, inbound)
             | Panics msg \<Rightarrow> (Panics msg, inbound))) inbound)"

definition http_plain :: "addr_codec \<Rightarrow> http_env \<Rightarrow> bool \<Rightarrow> io_error + conn \<Rightarrow> http_request \<Rightarrow> bytes \<Rightarrow>
    (conn, anyhow, http_ready) action" where
  "http_plain ac env pooled connected req body inbound =
     (if http_path req \<noteq> [] \<and> hd (http_path req) = CHR ''/'' then
        io_bind (io_map_err IoErr (write_all HTTP_400_BAD_REQUEST))
          (\<lambda>_. io_fail (Anyhow ''not proxied request'')) inbound
      else
        (case extract_host_addr_from_url (http_path req) of
           Panics msg \<Rightarrow> (Panics msg, inbound)
         | Pending \<Rightarrow> (Pending, inbound)
         | Ready None \<Rightarrow> (Ready (Inl (Anyhow ''invalid url'')), inbound)
         | Ready (Some (host, pno)) \<Rightarrow>
             (if length host \<ge> 256 then (Ready (Inl (Anyhow ''invalid url'')), inbound)
              else
                (case url_to_relative (http_path req) of
                   None \<Rightarrow> (Ready (Inl (Anyhow ''invalid url'')), inbound)
                 | Some path \<Rightarrow>
                     (case encode_header ac env (Domain (bytes_of host) (of_nat pno)) of
                        Panics msg \<Rightarrow> (Panics msg, inbound)
                      | Pending \<Rightarrow> (Pending, inbound)
                      | Ready hdr \<Rightarrow>
                          (let text = request_text (http_method req) path (http_version req)
                                 (passed_headers (http_headers req));
                               outbuf = hdr @ text @ body; initlen = length text + length body in
                           if pooled then (Ready (Inr (Some outbuf, None, initlen)), inbound)
                           else
                             (case connected of
                                Inl e \<Rightarrow> (Ready (Inl (Context ''failed to establish snowy tunnel'' (IoErr e))), inbound)
                              | Inr snowys \<Rightarrow>
                                  (case write_all outbuf snowys of
                                     (Ready (Inr _), snowys) \<Rightarrow> (Ready (Inr (None, Some snowys, initlen)), inbound)
                                   | (Ready (Inl e), snowys) \<Rightarrow> (Ready (Inl (IoErr e)), inbound)
                                   | (Pending, snowys) \<Rightarrow> (Pending, inbound)
                                   | (Panics msg, snowys) \<Rightarrow> (Panics msg, inbound)))))))))"

definition http_request_handler :: "addr_codec \<Rightarrow> http_env \<Rightarrow> bool \<Rightarrow> io_error + conn \<Rightarrow> http_request \<Rightarrow> bytes \<Rightarrow>
    (conn, anyhow, http_ready) action" where
  "http_request_handler ac env pooled connected req body inbound =
     (if (case host_header (http_headers req) of Some h \<Rightarrow> \<not> utf8_valid h | None \<Rightarrow> False)
      then (Ready (Inl (Anyhow ''invalid Host'')), inbound)
      else if http_method req = ''CONNECT'' then http_connect ac env (http_path req) body inbound
      else if http_method req \<in> set [''GET'', ''POST'', ''OPTIONS'', ''HEAD'', ''PUT'', ''DELETE'', ''TRACE'', ''PATCH'']
        then http_plain ac env pooled connected req body inbound
      else io_bind (io_map_err IoErr (write_all HTTP_405_METHOD_NOT_ALLOWED))
        (\<lambda>_. io_fail (Anyhow ''unspported HTTP method'')) inbound)"

text \<open>
  The loop that reads the request. Every \<open>read\<close> is given the whole buffer and so writes at its start;
  \<open>ks\<close> says how much arrives for each of them, and the loop waits when it is exhausted.
\<close>

fun http_loop :: "addr_codec \<Rightarrow> http_env \<Rightarrow> bool \<Rightarrow> io_error + conn \<Rightarrow> nat list \<Rightarrow> bytes \<Rightarrow> nat \<Rightarrow>
    (conn, anyhow, http_ready) action" where
  "http_loop ac env pooled connected [] buf end0 inbound = (Pending, inbound)"
| "http_loop ac env pooled connected (k # ks) buf end0 inbound =
     (case read_some MAX_FIRST_PACKET_SIZE k inbound of
        (Ready (Inl e), inbound) \<Rightarrow> (Ready (Inl (IoErr e)), inbound)
      | (Pending, inbound) \<Rightarrow> (Pending, inbound)
      | (Panics msg, inbound) \<Rightarrow> (Panics msg, inbound)
      | (Ready (Inr bs), inbound) \<Rightarrow>
          (if bs = [] then (Ready (Inl (Anyhow ''incompleted http request'')), inbound)
           else
             (let buf1 = overwrite 0 bs buf; end1 = end0 + length bs in
              if end1 > length buf1 then (Panics ''range end index out of range'', inbound)
              else
                (case he_parse env (take end1 buf1) of
                   Inl e \<Rightarrow> (Ready (Inl (Anyhow e)), inbound)
                 | Inr Partial \<Rightarrow> http_loop ac env pooled connected ks buf1 end1 inbound
                 | Inr (Complete start req) \<Rightarrow>
                     http_request_handler ac env pooled connected req (drop start (take end1 buf1)) inbound))))"

section \<open>Handling a connection\<close>

text \<open>
  What the client runs with: the attempt over the pool if there is one, what the connector returns,
  \<open>copy_bidirectional\<close>, what arrives within the first-packet timeout, and for UDP the error of binding
  the socket if it fails and the events of the relay.
\<close>

record proxy_world =
  pw_reusable :: "(bytes option \<Rightarrow> conn \<Rightarrow> conn pool_inner \<Rightarrow> (anyhow + nat \<times> nat) outcome \<times> conn \<times> conn pool_inner) option"
  pw_connected :: "io_error + conn"
  pw_copy :: "conn \<Rightarrow> conn \<Rightarrow> (io_error + nat \<times> nat) outcome"
  pw_first :: "nat option"
  pw_endpoint :: string
  pw_uninit :: "nat \<Rightarrow> byte"
  pw_udp_bind :: "io_error option"
  pw_udp_env :: udp_env
  pw_udp_events :: "cu_event list"

text \<open>The result of a relay is only logged.\<close>

definition log_relay :: "(anyhow + nat \<times> nat) outcome \<Rightarrow> (anyhow + unit) outcome" where
  "log_relay r = (case r of Ready _ \<Rightarrow> Ready (Inr ()) | Pending \<Rightarrow> Pending | Panics msg \<Rightarrow> Panics msg)"

definition tcp_remote :: "proxy_world \<Rightarrow> bytes option \<Rightarrow> remote_state \<Rightarrow> (anyhow + unit) outcome \<times> remote_state" where
  "tcp_remote w outbuf st =
     (case relay_tcp_remote (pw_reusable w) (pw_connected w) (pw_copy w) (pw_first w) (pw_endpoint w) outbuf st of
        (r, st') \<Rightarrow> (log_relay r, st'))"

definition handle_connection_http :: "addr_codec \<Rightarrow> http_env \<Rightarrow> nat list \<Rightarrow> proxy_world \<Rightarrow> remote_state \<Rightarrow>
    (anyhow + unit) outcome \<times> remote_state" where
  "handle_connection_http ac env ks w st0 =
     (case http_loop ac env (pw_reusable w \<noteq> None) (pw_connected w) ks (map (he_uninit env) [0..<MAX_FIRST_PACKET_SIZE]) 0
         (rm_inbound st0) of
        (Ready (Inr (outbuf, outbound, initlen)), inb) \<Rightarrow>
          (case outbound of
             Some snowys \<Rightarrow>
               (case relay_tcp_with (pw_copy w) (pw_first w) outbuf inb snowys of
                  (r, inb', outb) \<Rightarrow> (log_relay r, st0\<lparr>rm_inbound := inb', rm_outbound := Some outb\<rparr>))
           | None \<Rightarrow> tcp_remote w outbuf (st0\<lparr>rm_inbound := inb\<rparr>))
      | (Ready (Inl e), inb) \<Rightarrow> (Ready (Inl e), st0\<lparr>rm_inbound := inb\<rparr>)
      | (Pending, inb) \<Rightarrow> (Pending, st0\<lparr>rm_inbound := inb\<rparr>)
      | (Panics msg, inb) \<Rightarrow> (Panics msg, st0\<lparr>rm_inbound := inb\<rparr>))"

text \<open>
  The messages of the \<open>socks5_protocol\<close> crate. \<open>so_success\<close> is the answer to UDP ASSOCIATE, written and
  flushed, and \<open>so_default\<close> the default address.
\<close>

datatype socks_command = SocksConnect | SocksBind | SocksUdpAssociate

record 'auth socks_ops =
  so_version :: "(conn, anyhow, unit) action"
  so_auth :: "(conn, anyhow, 'auth) action"
  so_select :: "'auth \<Rightarrow> byte"
  so_command :: "(conn, anyhow, socks_command \<times> trojan_addr) action"
  so_success :: "(conn, anyhow, unit) action"
  so_default :: trojan_addr

definition SOCKS5_CONNECT_SUCCEEDED :: bytes where
  "SOCKS5_CONNECT_SUCCEEDED = [0x05, 0x00, 0x00, 0x01, 0x00, 0x00, 0x00, 0x00, 0x00, 0x00]"

definition SOCKS5_COMMAND_NOT_SUPPORTED :: bytes where
  "SOCKS5_COMMAND_NOT_SUPPORTED = [0x05, 0x07, 0x00]"

definition socks5_request :: "'auth socks_ops \<Rightarrow> (conn, anyhow, socks_command \<times> trojan_addr) action" where
  "socks5_request so =
     io_bind (so_version so) (\<lambda>_.
     io_bind (so_auth so) (\<lambda>req.
     io_bind (io_map_err IoErr (write_all [0x05, so_select so req])) (\<lambda>_.
     so_command so)))"

definition socks5_connect :: "addr_codec \<Rightarrow> proxy_world \<Rightarrow> trojan_addr \<Rightarrow> remote_state \<Rightarrow>
    (anyhow + unit) outcome \<times> remote_state" where
  "socks5_connect ac w a st =
     (case write_all SOCKS5_CONNECT_SUCCEEDED (rm_inbound st) of
        (Ready (Inr _), inb) \<Rightarrow>
          (case encoded ac (pw_uninit w) \<lparr>req_cmd = Connect, dest_addr = a\<rparr> of
             Ready outbuf \<Rightarrow> tcp_remote w (Some outbuf) (st\<lparr>rm_inbound := inb\<rparr>)
           | Pending \<Rightarrow> (Pending, st\<lparr>rm_inbound := inb\<rparr>)
           | Panics msg \<Rightarrow> (Panics msg, st\<lparr>rm_inbound := inb\<rparr>))
      | (Ready (Inl e), inb) \<Rightarrow>
          (Ready (Inl (Context ''failed to write socks5 response'' (IoErr e))), st\<lparr>rm_inbound := inb\<rparr>)
      | (Pending, inb) \<Rightarrow> (Pending, st\<lparr>rm_inbound := inb\<rparr>)
      | (Panics msg, inb) \<Rightarrow> (Panics msg, st\<lparr>rm_inbound := inb\<rparr>))"

definition socks5_udp :: "addr_codec \<Rightarrow> 'auth socks_ops \<Rightarrow> proxy_world \<Rightarrow> remote_state \<Rightarrow>
    (anyhow + unit) outcome \<times> remote_state \<times> client_udp option" where
  "socks5_udp ac so w st =
     (case pw_udp_bind w of
        Some e \<Rightarrow> (Ready (Inl (IoErr e)), st, None)
      | None \<Rightarrow>
          (case so_success so (rm_inbound st) of
             (Ready (Inr _), inb) \<Rightarrow>
               (let st = st\<lparr>rm_inbound := inb\<rparr> in
                case pw_connected w of
                  Inl e \<Rightarrow> (Ready (Inl (Context ''failed to establish snowy tunnel'' (IoErr e))), st, None)
                | Inr snowys \<Rightarrow>
                    (case relay_udp_with ac (pw_udp_env w) (pw_uninit w)
                        \<lparr>req_cmd = UdpAssociate, dest_addr = so_default so\<rparr> (pw_udp_events w) snowys of
                       (r, cu) \<Rightarrow> (log_relay r, st\<lparr>rm_outbound := Some (cu_tunnel cu)\<rparr>, Some cu)))
           | (Ready (Inl e), inb) \<Rightarrow> (Ready (Inl e), st\<lparr>rm_inbound := inb\<rparr>, None)
           | (Pending, inb) \<Rightarrow> (Pending, st\<lparr>rm_inbound := inb\<rparr>, None)
           | (Panics msg, inb) \<Rightarrow> (Panics msg, st\<lparr>rm_inbound := inb\<rparr>, None)))"

definition handle_connection_socks5 :: "addr_codec \<Rightarrow> 'auth socks_ops \<Rightarrow> proxy_world \<Rightarrow> remote_state \<Rightarrow>
    (anyhow + unit) outcome \<times> remote_state \<times> client_udp option" where
  "handle_connection_socks5 ac so w st0 =
     (case socks5_request so (rm_inbound st0) of
        (Ready (Inr (SocksConnect, a)), inb) \<Rightarrow>
          (case socks5_connect ac w a (st0\<lparr>rm_inbound := inb\<rparr>) of (r, st) \<Rightarrow> (r, st, None))
      | (Ready (Inr (SocksUdpAssociate, a)), inb) \<Rightarrow> socks5_udp ac so w (st0\<lparr>rm_inbound := inb\<rparr>)
      | (Ready (Inr (SocksBind, a)), inb) \<Rightarrow>
          (case io_bind (io_map_err IoErr (write_all SOCKS5_COMMAND_NOT_SUPPORTED))
              (\<lambda>_. io_fail (Anyhow ''Socks5 BIND not supported'')) inb of
             (r, inb') \<Rightarrow> (r, st0\<lparr>rm_inbound := inb'\<rparr>, None))
      | (Ready (Inl e), inb) \<Rightarrow> (Ready (Inl e), st0\<lparr>rm_inbound := inb\<rparr>, None)
      | (Pending, inb) \<Rightarrow> (Pending, st0\<lparr>rm_inbound := inb\<rparr>, None)
      | (Panics msg, inb) \<Rightarrow> (Panics msg, st0\<lparr>rm_inbound := inb\<rparr>, None))"

text \<open>The first byte is looked at without being read; it stays zero at the end of the stream.\<close>

definition peek_first :: "conn \<Rightarrow> (io_error + byte) outcome" where
  "peek_first c =
     (case inp c of
        b # _ \<Rightarrow> Ready (Inr b)
      | [] \<Rightarrow> (case inp_end c of Eof \<Rightarrow> Ready (Inr 0) | ReadError e \<Rightarrow> Ready (Inl e) | Silent \<Rightarrow> Pending))"

definition proxy_connection :: "addr_codec \<Rightarrow> 'auth socks_ops \<Rightarrow> http_env \<Rightarrow> nat list \<Rightarrow> proxy_world \<Rightarrow> remote_state \<Rightarrow>
    (anyhow + unit) outcome \<times> remote_state \<times> client_udp option" where
  "proxy_connection ac so env ks w st =
     (case peek_first (rm_inbound st) of
        Ready (Inr b) \<Rightarrow>
          (if b = 0x04 \<or> b = 0x05 then handle_connection_socks5 ac so w st
           else (case handle_connection_http ac env ks w st of (r, st') \<Rightarrow> (r, st', None)))
      | Ready (Inl e) \<Rightarrow> (Ready (Inl (IoErr e)), st, None)
      | Pending \<Rightarrow> (Pending, st, None)
      | Panics msg \<Rightarrow> (Panics msg, st, None))"

section \<open>Lemmas\<close>

text \<open>What \<open>relay_tcp_with\<close> has written when the copying begins.\<close>

lemma snd_copied:
  "snd (case q of Ready (Inr (tx, rx)) \<Rightarrow> (f tx rx, x) | Ready (Inl e) \<Rightarrow> (g e, x)
       | Pending \<Rightarrow> (h, x) | Panics msg \<Rightarrow> (k msg, x)) = x"
  by (simp split: outcome.splits sum.splits prod.splits)

lemma relay_tcp_with_sends:
  assumes "relay_tcp_with copy first (Some b) inbound outbound = (r, inb, outb)"
    and "length b \<le> MAX_FIRST_PACKET_SIZE" "wr_room outbound = None" "\<forall>e. inp_end inbound \<noteq> ReadError e"
  shows "\<exists>early. inp inbound = early @ inp inb \<and> out inb = out inbound \<and>
    outb = outbound\<lparr>out := out outbound @ b @ early\<rparr>"
proof -
  have s: "snd (relay_tcp_with copy first (Some b) inbound outbound) = (inb, outb)" using assms(1) by simp
  have nothing_read: "(inb, outb) = (inbound, outbound\<lparr>out := out outbound @ b\<rparr>)"
    if "first = None \<or> (\<exists>k. first = Some k \<and> read_some (MAX_FIRST_PACKET_SIZE - length b) k inbound = (Pending, inbound))"
    using that s assms(2,3) by (auto simp: relay_tcp_with_def write_all_unbounded snd_copied)
  show ?thesis
  proof (cases first)
    case None
    with nothing_read show ?thesis by simp
  next
    case (Some k)
    show ?thesis
    proof (cases "MAX_FIRST_PACKET_SIZE - length b" k inbound rule: read_some_cases)
      case (got early io)
      with Some s assms(2,3) have "(inb, outb) = (io, outbound\<lparr>out := out outbound @ b @ early\<rparr>)"
        by (simp add: relay_tcp_with_def write_all_unbounded snd_copied)
      with read_some_Inr [OF got] show ?thesis by auto
    next
      case (failed e)
      with assms(4) show ?thesis by (cases "inp_end inbound") (auto simp: read_some_def)
    next
      case waits
      with Some nothing_read show ?thesis by simp
    qed
  qed
qed

lemma tcp_remote_sends:
  assumes "tcp_remote w (Some b) st = (r, st')" "pw_reusable w = None" "pw_connected w = Inr tunnel"
    and "length b \<le> MAX_FIRST_PACKET_SIZE" "wr_room tunnel = None" "\<forall>e. inp_end (rm_inbound st) \<noteq> ReadError e"
  shows "\<exists>early. inp (rm_inbound st) = early @ inp (rm_inbound st') \<and> out (rm_inbound st') = out (rm_inbound st) \<and>
    rm_outbound st' = Some (tunnel\<lparr>out := out tunnel @ b @ early\<rparr>)"
proof -
  obtain q inb outb where q: "relay_tcp_with (pw_copy w) (pw_first w) (Some b) (rm_inbound st) tunnel = (q, inb, outb)"
    by (metis prod_cases3)
  with assms(1-3) have "st' = st\<lparr>rm_inbound := inb, rm_outbound := Some outb\<rparr>"
    by (simp add: tcp_remote_def relay_tcp_remote_def)
  with relay_tcp_with_sends [OF q assms(4-6)] show ?thesis by auto
qed

lemma take_overwritten_header:
  assumes "length bs + 3 \<le> length buf"
  shows "take (length bs + 3) ((overwrite 1 bs (buf[0 := b]))[length bs + 1 := CR, length bs + 2 := LF]) = b # bs @ [CR, LF]"
proof -
  obtain z zs where z: "buf = z # zs" using assms by (cases buf) auto
  with assms have "2 \<le> length (drop (length bs) zs)" by simp
  then obtain x y rest where "drop (length bs) zs = x # y # rest"
    by (metis Suc_le_length_iff numeral_2_eq_2)
  with z show ?thesis by (simp add: overwrite_def list_update_append numeral_3_eq_3)
qed

lemma encode_header_wire:
  assumes "addr_codec_ok ac" "addr_valid a" "length (request_wire ac \<lparr>req_cmd = Connect, dest_addr = a\<rparr>) \<le> MAX_FIRST_PACKET_SIZE"
  shows "encode_header ac env a = Ready (request_wire ac \<lparr>req_cmd = Connect, dest_addr = a\<rparr>)"
proof -
  let ?w = "addr_wire ac a" and ?buf = "map (he_uninit env) [0..<MAX_FIRST_PACKET_SIZE]"
  have l: "length ?w + 3 \<le> length ?buf" using assms(3) by (simp add: request_wire_def)
  then have "?buf \<noteq> []" "length (overwrite 1 ?w (?buf[0 := 1])) = length ?buf"
    by (auto simp: overwrite_def)
  with l take_overwritten_header [OF l, of 1] addr_codec_laws(1,2) [OF assms(1,2)] show ?thesis
    by (simp add: encode_header_def encode_request_def request_wire_def Let_def numeral_3_eq_3 del: upt_Suc)
qed

text \<open>A request whose head arrives with the first read.\<close>

lemma http_loop_first_read:
  assumes "inp c \<noteq> []" "length (inp c) \<le> k" "length (inp c) \<le> MAX_FIRST_PACKET_SIZE"
    and "he_parse env (inp c) = Inr (Complete start req)" "length buf = MAX_FIRST_PACKET_SIZE"
  shows "http_loop ac env pooled connected (k # ks) buf 0 c =
    http_request_handler ac env pooled connected req (drop start (inp c)) (c\<lparr>inp := []\<rparr>)"
proof -
  have "length (inp c) \<le> min MAX_FIRST_PACKET_SIZE (max 1 k)" using assms(2,3) by simp
  then have "read_some MAX_FIRST_PACKET_SIZE k c = (Ready (Inr (inp c)), c\<lparr>inp := []\<rparr>)"
    using assms(1) by (simp add: read_some_def Let_def)
  moreover have "take (length (inp c)) (overwrite 0 (inp c) buf) = inp c"
    "length (overwrite 0 (inp c) buf) = MAX_FIRST_PACKET_SIZE"
    using assms(3,5) by (simp_all add: overwrite_def)
  ultimately show ?thesis using assms(1,3,4) by simp
qed

text \<open>The two forms of an HTTP request that are proxied, and what the server is sent for them.\<close>

lemma http_connect_ready:
  assumes "addr_codec_ok ac" "addr_valid a" "length (request_wire ac \<lparr>req_cmd = Connect, dest_addr = a\<rparr>) \<le> MAX_FIRST_PACKET_SIZE"
    and "he_addr env url = Some a" "wr_room c = None"
  shows "http_connect ac env url body c =
    (Ready (Inr (Some (request_wire ac \<lparr>req_cmd = Connect, dest_addr = a\<rparr> @ body), None, 0)),
     c\<lparr>out := out c @ HTTP_200_CONNECTION_ESTABLISHED\<rparr>)"
  using assms(4,5) encode_header_wire [OF assms(1-3), of env]
  by (simp add: http_connect_def write_all_unbounded)

lemma http_plain_ready:
  assumes "addr_codec_ok ac" "addr_valid (Domain (bytes_of host) (of_nat pno))"
    and "length (request_wire ac \<lparr>req_cmd = Connect, dest_addr = Domain (bytes_of host) (of_nat pno)\<rparr>) \<le> MAX_FIRST_PACKET_SIZE"
    and "(scheme, pno) \<in> set schemes" "CHR ''/'' \<notin> set host" "CHR '':'' \<notin> set host"
    and "http_path req = scheme @ ''://'' @ host @ ''/'' @ path" "wr_room tunnel = None"
  shows "http_plain ac env False (Inr tunnel) req body c =
    (let text = request_text (http_method req) (''/'' @ path) (http_version req) (passed_headers (http_headers req)) in
     (Ready (Inr (None, Some (tunnel\<lparr>out := out tunnel
          @ request_wire ac \<lparr>req_cmd = Connect, dest_addr = Domain (bytes_of host) (of_nat pno)\<rparr> @ text @ body\<rparr>),
        length text + length body)), c))"
proof -
  have s: "CHR ''/'' \<notin> set scheme" "scheme \<noteq> []" using assms(4) by auto
  have "length host < 256" using assms(2) by (simp add: bytes_of_def)
  moreover have "hd (http_path req) \<noteq> CHR ''/''" using s assms(7) by (cases scheme) auto
  moreover have "extract_host_addr_from_url (http_path req) = Ready (Some (host, pno))"
    using extract_authority [OF assms(4,5), of path] assms(6,7) by simp
  moreover have "url_to_relative (http_path req) = Some (''/'' @ path)"
    using url_to_relative_path [OF s(1) assms(5), of path] assms(7) by simp
  ultimately show ?thesis
    using encode_header_wire [OF assms(1-3), of env] assms(8)
    by (simp add: http_plain_def write_all_unbounded Let_def)
qed

section \<open>Properties\<close>

text \<open>
  The HTTP proxy only understands a request whose head arrives with one read. Take a request in two parts, each
  of which fits the buffer: in one piece it is handled; in two pieces the second overwrites the first in the buffer, so
  that the parser is given the second part followed by other bytes, and the request fails when the second
  part alone does not begin a request.
\<close>

lemma split_request_fails:
  assumes "bs1 \<noteq> []" "bs2 \<noteq> []" "inp c = bs1 @ bs2" "length (bs1 @ bs2) \<le> MAX_FIRST_PACKET_SIZE"
    and "he_parse env bs1 = Inr Partial" "he_parse env (bs1 @ bs2) = Inr (Complete start req)"
    and "\<forall>x. he_parse env (bs2 @ x) = Inl e" "length buf = MAX_FIRST_PACKET_SIZE"
  shows "http_loop ac env pooled connected (length (bs1 @ bs2) # ks) buf 0 c =
      http_request_handler ac env pooled connected req (drop start (bs1 @ bs2)) (c\<lparr>inp := []\<rparr>) \<and>
    http_loop ac env pooled connected (length bs1 # length bs2 # ks) buf 0 c = (Ready (Inl (Anyhow e)), c\<lparr>inp := []\<rparr>)"
proof
  show "http_loop ac env pooled connected (length (bs1 @ bs2) # ks) buf 0 c =
      http_request_handler ac env pooled connected req (drop start (bs1 @ bs2)) (c\<lparr>inp := []\<rparr>)"
    using http_loop_first_read [of c "length (bs1 @ bs2)" env start req buf ac pooled connected ks] assms by simp
  let ?b1 = "overwrite 0 bs1 buf" and ?n = "length bs1 + length bs2"
  let ?b2 = "overwrite 0 bs2 ?b1"
  have m: "max 1 (length bs1) = length bs1" "max 1 (length bs2) = length bs2" using assms(1,2) by (cases bs1; cases bs2; simp)+
  have "read_some MAX_FIRST_PACKET_SIZE (length bs1) c = (Ready (Inr bs1), c\<lparr>inp := bs2\<rparr>)"
    "read_some MAX_FIRST_PACKET_SIZE (length bs2) (c\<lparr>inp := bs2\<rparr>) = (Ready (Inr bs2), c\<lparr>inp := []\<rparr>)"
    using assms(1-4) m by (simp_all add: read_some_def Let_def)
  moreover have "length ?b1 = MAX_FIRST_PACKET_SIZE" "length ?b2 = MAX_FIRST_PACKET_SIZE"
    "take (length bs1) ?b1 = bs1"
    using assms(4,8) by (simp_all add: overwrite_def)
  moreover have "he_parse env (take ?n ?b2) = Inl e"
    using assms(7) by (simp add: overwrite_def)
  ultimately show "http_loop ac env pooled connected (length bs1 # length bs2 # ks) buf 0 c =
      (Ready (Inl (Anyhow e)), c\<lparr>inp := []\<rparr>)"
    using assms(1,2,4,5) by simp
qed

text \<open>A parser that knows one request line, which arrives in two parts.\<close>

definition toy_env :: http_env where
  "toy_env = \<lparr>he_parse = (\<lambda>bs. if take 2 bs = [71, 69] then
       (if length bs < 4 then Inr Partial else Inr (Complete 4 \<lparr>http_method = ''GET'', http_path = ''http://a/'',
          http_version = 1, http_headers = []\<rparr>)) else Inl ''invalid token''),
     he_addr = (\<lambda>_. None), he_uninit = (\<lambda>_. 0)\<rparr>"

end
