(* ===== verification/Loop.thy ===== *)
theory Loop
  imports Prelude
begin

text \<open>
  Loops that may run forever. One round of the loop is a function that gives the state of the next
  round (\<open>Inl\<close>) or the value the loop returns (\<open>Inr\<close>); \<open>None\<close> is a loop that never returns.
\<close>

partial_function (option) run_loop :: "('s \<Rightarrow> 's + 'r) \<Rightarrow> 's \<Rightarrow> 'r option" where
  "run_loop f s = (case f s of Inl s' \<Rightarrow> run_loop f s' | Inr r \<Rightarrow> Some r)"

lemma run_loop_again: "f s = Inl s' \<Longrightarrow> run_loop f s = run_loop f s'"
  by (subst run_loop.simps) simp

lemma run_loop_return: "f s = Inr r \<Longrightarrow> run_loop f s = Some r"
  by (subst run_loop.simps) simp

lemmas run_loop_round = run_loop_again run_loop_return

text \<open>An invariant of the rounds holds of the last one.\<close>

lemma run_loop_invariant:
  assumes "run_loop f s = Some r" "I s"
    and "\<And>s s'. I s \<Longrightarrow> f s = Inl s' \<Longrightarrow> I s'"
  shows "\<exists>s. I s \<and> f s = Inr r"
proof -
  have "g = f \<longrightarrow> I s \<longrightarrow> (\<exists>s. I s \<and> f s = Inr r)" if "run_loop g s = Some r" for g s
    using that
  proof (rule run_loop.raw_induct [rotated])
    fix rl g s r
    assume IH: "\<And>g s r. rl g s = Some r \<Longrightarrow> g = f \<longrightarrow> I s \<longrightarrow> (\<exists>s. I s \<and> f s = Inr r)"
      and "(case g s of Inl s' \<Rightarrow> rl g s' | Inr r \<Rightarrow> Some r) = Some r"
    then show "g = f \<longrightarrow> I s \<longrightarrow> (\<exists>s. I s \<and> f s = Inr r)"
      using assms(3) by (cases "g s") auto
  qed
  with assms(1,2) show ?thesis by blast
qed

text \<open>A loop whose rounds descend in a well-founded relation returns.\<close>

lemma run_loop_returns:
  assumes "wf R" "I s" and "\<And>s s'. I s \<Longrightarrow> f s = Inl s' \<Longrightarrow> I s' \<and> (s', s) \<in> R"
  shows "\<exists>r. run_loop f s = Some r"
  using assms(1,2)
proof (induction s rule: wf_induct_rule)
  case (less s)
  show ?case
  proof (cases "f s")
    case (Inl s')
    with assms(3) less have "\<exists>r. run_loop f s' = Some r" by blast
    with Inl show ?thesis by (simp add: run_loop_again)
  next
    case (Inr r)
    then show ?thesis by (simp add: run_loop_return)
  qed
qed

text \<open>A loop with an invariant under which no round returns runs forever.\<close>

lemma run_loop_forever:
  assumes "I s" and "\<And>s. I s \<Longrightarrow> \<exists>s'. f s = Inl s' \<and> I s'"
  shows "run_loop f s = None"
proof (rule ccontr)
  assume "run_loop f s \<noteq> None"
  then obtain r where "run_loop f s = Some r" by blast
  from run_loop_invariant [of f s r I, OF this assms(1)] assms(2) show False by (metis Inl_Inr_False sum.inject(1))
qed

end
