(* ===== verification/Snowy.thy ===== *)
theory Snowy
  imports Loop "HOL-Library.Stream"
begin

text \<open>
  \<open>tunnel/src/common.rs\<close>: the encrypted stream. \<open>SnowyStream\<close> cuts what is written into pieces,
  encrypts each with the Noise transport, frames it as a TLS application-data record and pushes it to
  the socket; reading collects records, decrypts them and hands out the plaintext. The record parser of
  the \<open>rustls\<close> crate and the Noise transport of the \<open>snow\<close> crate are parameters; \<open>records_ok\<close> and
  \<open>noise_ok\<close> state what is relied on.
\<close>

section \<open>The socket\<close>

text \<open>
  A TCP socket as its \<open>poll\<close> functions show it: what the next reads return (a piece of the stream, the
  end, or an error; not ready when nothing is left), what was written, and what the socket answers to
  the next writes (\<open>Takes n\<close>: up to \<open>n\<close> bytes are taken).
\<close>

datatype sock_in = Arrives bytes | Fin | ReadFails io_error

datatype sock_answer = Takes nat | WriteFails io_error | NotReady

record socket =
  sk_in :: "sock_in list"
  sk_out :: bytes
  sk_answers :: "sock_answer stream"
  sk_shutdown :: "io_error option"
  sk_fin :: bool

fun socket_poll_read :: "nat \<Rightarrow> sock_in list \<Rightarrow> (io_error + bytes) outcome \<times> sock_in list" where
  "socket_poll_read room [] = (Pending, [])"
| "socket_poll_read room (Arrives bs # xs) =
     (Ready (Inr (take room bs)), if length bs \<le> room then xs else Arrives (drop room bs) # xs)"
| "socket_poll_read room (Fin # xs) = (Ready (Inr []), Fin # xs)"
| "socket_poll_read room (ReadFails e # xs) = (Ready (Inl e), xs)"

definition socket_poll_write :: "bytes \<Rightarrow> socket \<Rightarrow> (io_error + nat) outcome \<times> socket" where
  "socket_poll_write bs sk =
     (let sk' = sk\<lparr>sk_answers := stl (sk_answers sk)\<rparr> in
      case shd (sk_answers sk) of
        Takes n \<Rightarrow> (Ready (Inr (min n (length bs))), sk'\<lparr>sk_out := sk_out sk @ take n bs\<rparr>)
      | WriteFails e \<Rightarrow> (Ready (Inl e), sk')
      | NotReady \<Rightarrow> (Pending, sk'))"

definition socket_poll_shutdown :: "socket \<Rightarrow> (io_error + unit) outcome \<times> socket" where
  "socket_poll_shutdown sk =
     (case sk_shutdown sk of
        Some e \<Rightarrow> (Ready (Inl e), sk)
      | None \<Rightarrow> (Ready (Inr ()), sk\<lparr>sk_fin := True\<rparr>))"

section \<open>State\<close>

abbreviation (input) TLS_RECORD_HEADER_LENGTH :: nat where "TLS_RECORD_HEADER_LENGTH \<equiv> 5"
abbreviation (input) MAXIMUM_PLAINTEXT_LENGTH :: nat where "MAXIMUM_PLAINTEXT_LENGTH \<equiv> 16368"

datatype snowy_state = Stream | ReadShutdown | WriteShutdown | FullyShutdown

fun shutdown_read :: "snowy_state \<Rightarrow> snowy_state" where
  "shutdown_read WriteShutdown = FullyShutdown"
| "shutdown_read FullyShutdown = FullyShutdown"
| "shutdown_read _ = ReadShutdown"

fun shutdown_write :: "snowy_state \<Rightarrow> snowy_state" where
  "shutdown_write ReadShutdown = FullyShutdown"
| "shutdown_write FullyShutdown = FullyShutdown"
| "shutdown_write _ = WriteShutdown"

fun writeable :: "snowy_state \<Rightarrow> bool" where
  "writeable s \<longleftrightarrow> \<not> (s = WriteShutdown \<or> s = FullyShutdown)"

fun readable :: "snowy_state \<Rightarrow> bool" where
  "readable s \<longleftrightarrow> \<not> (s = ReadShutdown \<or> s = FullyShutdown)"

text \<open>
  What \<open>OpaqueMessage::read\<close> makes of the bytes read so far: the payload of the record at their
  beginning and the bytes it used, more bytes needed, or an invalid record. The Noise transport has a
  cipher state for each direction; encrypting can fail only with a panic of the caller's \<open>unwrap\<close>.
\<close>

datatype opaque = Opaque bytes nat | TooShort | BadFrame

record ('s, 'r) tunnel_params =
  om_read :: "bytes \<Rightarrow> opaque"
  om_max_wire :: nat
  nz_write :: "'s \<Rightarrow> bytes \<Rightarrow> (bytes \<times> 's) option"
  nz_read :: "'r \<Rightarrow> bytes \<Rightarrow> (string + bytes) \<times> 'r"
  left_over :: "'r \<Rightarrow> bytes \<Rightarrow> nat \<Rightarrow> byte"
  uninit :: "nat \<Rightarrow> byte"

record ('s, 'r) snowy =
  socket :: socket
  noise_send :: 's
  noise_recv :: 'r
  state :: snowy_state
  pending_read_buffer :: bytes
  pending_read_filled :: nat
  read_buffer :: bytes
  read_offset :: nat
  write_buffer :: bytes
  write_offset :: nat

text \<open>Memory that is not initialised holds arbitrary bytes.\<close>

definition uninit_bytes :: "('s, 'r) tunnel_params \<Rightarrow> nat \<Rightarrow> bytes" where
  "uninit_bytes P n = map (uninit P) [0..<n]"

definition snowy_new :: "('s, 'r) tunnel_params \<Rightarrow> socket \<Rightarrow> 's \<Rightarrow> 'r \<Rightarrow> ('s, 'r) snowy" where
  "snowy_new P io s r =
     \<lparr>socket = io, noise_send = s, noise_recv = r, state = Stream,
      pending_read_buffer = uninit_bytes P (om_max_wire P), pending_read_filled = 0,
      read_buffer = [], read_offset = 0, write_buffer = [], write_offset = 0\<rparr>"

section \<open>Reading\<close>

text \<open>
  One round of the loops of \<open>poll_read\<close>. \<open>got\<close> is what has been put into the caller's buffer, which
  has room for \<open>room\<close> bytes; \<open>has_read\<close> is \<open>got \<noteq> []\<close>. First the plaintext that is left is handed out.
\<close>

definition hand_out :: "nat \<Rightarrow> bytes \<Rightarrow> ('s, 'r) snowy \<Rightarrow> bytes \<times> ('s, 'r) snowy" where
  "hand_out room got st =
     (if read_offset st < length (read_buffer st) then
        (let len = min (length (read_buffer st) - read_offset st) (room - length got);
             got = got @ take len (drop (read_offset st) (read_buffer st));
             st = st\<lparr>read_offset := read_offset st + len\<rparr> in
         (got, if read_offset st < length (read_buffer st) then st
               else st\<lparr>read_offset := 0, read_buffer := []\<rparr>))
      else (got, st))"

text \<open>
  A complete record is taken off the buffer and decrypted. When that fails, the plaintext buffer keeps
  the length it was given and whatever its memory holds by then: \<open>left_over\<close>, which may depend on what was
  received before and on the record (older plaintext, or bytes that the cipher has written).
\<close>

definition open_record :: "('s, 'r) tunnel_params \<Rightarrow> bytes \<Rightarrow> bytes \<Rightarrow> nat \<Rightarrow> ('s, 'r) snowy \<Rightarrow>
    bytes \<times> ('s, 'r) snowy + (io_error + bytes) outcome \<times> ('s, 'r) snowy" where
  "open_record P got payload n st0 =
     (let st = st0\<lparr>pending_read_buffer := copy_down n (pending_read_filled st0) (pending_read_buffer st0),
                   pending_read_filled := pending_read_filled st0 - n\<rparr> in
      if payload = [] then Inl (got, st)
      else
        (case nz_read P (noise_recv st) payload of
           (Inr plain, r) \<Rightarrow> Inl (got, st\<lparr>noise_recv := r, read_buffer := plain\<rparr>)
         | (Inl msg, r) \<Rightarrow>
             Inr (Ready (Inl (IoError InvalidData (''Noise failed to read message: '' @ msg))),
                  st\<lparr>noise_recv := r, read_buffer := map (left_over P (noise_recv st) payload) [0..<MAXIMUM_PLAINTEXT_LENGTH]\<rparr>)))"

text \<open>Otherwise the socket is read, into the free part of the buffer.\<close>

definition read_socket :: "bytes \<Rightarrow> ('s, 'r) snowy \<Rightarrow>
    bytes \<times> ('s, 'r) snowy + (io_error + bytes) outcome \<times> ('s, 'r) snowy" where
  "read_socket got st0 =
     (case socket_poll_read (length (pending_read_buffer st0) - pending_read_filled st0) (sk_in (socket st0)) of
        (res, xs) \<Rightarrow>
          (let st = st0\<lparr>socket := (socket st0)\<lparr>sk_in := xs\<rparr>\<rparr> in
           case res of
             Ready (Inr bs) \<Rightarrow>
               (if bs = [] then
                  Inr (if 0 < pending_read_filled st
                       then Ready (Inl (IoError UnexpectedEof
                              ''Underlaying socket reaches EoF when a TLS frame half-read''))
                       else Ready (Inr got), st)
                else Inl (got, st\<lparr>pending_read_buffer :=
                                    overwrite (pending_read_filled st) bs (pending_read_buffer st),
                                  pending_read_filled := pending_read_filled st + length bs\<rparr>))
           | Ready (Inl e) \<Rightarrow>
               Inr (Ready (Inl e),
                    if io_kind_of e = ConnectionAborted \<or> io_kind_of e = UnexpectedEof
                    then st\<lparr>state := shutdown_read (state st)\<rparr> else st)
           | Pending \<Rightarrow> Inr (Pending, st)
           | Panics msg \<Rightarrow> Inr (Panics msg, st)))"

definition read_round :: "('s, 'r) tunnel_params \<Rightarrow> nat \<Rightarrow> bytes \<times> ('s, 'r) snowy \<Rightarrow>
    bytes \<times> ('s, 'r) snowy + (io_error + bytes) outcome \<times> ('s, 'r) snowy" where
  "read_round P room s =
     (case hand_out room (fst s) (snd s) of
        (got, st) \<Rightarrow>
          (if read_offset st < length (read_buffer st) then Inr (Ready (Inr got), st)
           else
             (case om_read P (take (pending_read_filled st) (pending_read_buffer st)) of
                Opaque payload n \<Rightarrow> open_record P got payload n st
              | TooShort \<Rightarrow> (if got \<noteq> [] then Inr (Ready (Inr got), st) else read_socket got st)
              | BadFrame \<Rightarrow>
                  Inr (Ready (Inl (IoError InvalidData ''Invalid TLS frame'')),
                       st\<lparr>state := shutdown_read (state st)\<rparr>))))"

definition poll_read :: "('s, 'r) tunnel_params \<Rightarrow> nat \<Rightarrow> ('s, 'r) snowy \<Rightarrow>
    ((io_error + bytes) outcome \<times> ('s, 'r) snowy) option" where
  "poll_read P room st =
     (if \<not> readable (state st) then Some (Ready (Inr []), st)
      else run_loop (read_round P room) ([], st))"

section \<open>Writing\<close>

text \<open>A TLS 1.2 application-data record.\<close>

definition tls_record :: "bytes \<Rightarrow> bytes" where
  "tls_record c = [0x17, 0x03, 0x03] @ be16 (of_nat (length c)) @ c"

lemma length_tls_record: "length (tls_record c) = 5 + length c"
  by (simp add: tls_record_def)

text \<open>
  One round of the loop of \<open>poll_write\<close>: the record in the write buffer is pushed on, or the next piece
  of the caller's buffer is put into a record; \<open>offset\<close> is how much of the caller's buffer was taken.
\<close>

definition write_round :: "('s, 'r) tunnel_params \<Rightarrow> bytes \<Rightarrow> nat \<times> ('s, 'r) snowy \<Rightarrow>
    nat \<times> ('s, 'r) snowy + (io_error + nat) outcome \<times> ('s, 'r) snowy" where
  "write_round P buf s =
     (case s of (offset, st0) \<Rightarrow>
       (if write_offset st0 < length (write_buffer st0) then
          (case socket_poll_write (drop (write_offset st0) (write_buffer st0)) (socket st0) of
             (res, sk) \<Rightarrow>
               (let st = st0\<lparr>socket := sk\<rparr> in
                case res of
                  Ready (Inr n) \<Rightarrow>
                    (let st = st\<lparr>write_offset := write_offset st + n\<rparr> in
                     if n = 0
                     then Inr (Ready (Inl (IoError WriteZero
                            ''Write zero byte to underlying socket when a TLS frame is half-written'')),
                               st\<lparr>state := shutdown_write (state st)\<rparr>)
                     else Inl (offset, st))
                | Ready (Inl e) \<Rightarrow> Inr (Ready (Inl e), st)
                | Pending \<Rightarrow> Inr (if offset = 0 then Pending else Ready (Inr offset), st)
                | Panics msg \<Rightarrow> Inr (Panics msg, st)))
        else
          (let st = st0\<lparr>write_offset := 0, write_buffer := []\<rparr> in
           if offset = length buf then Inr (Ready (Inr offset), st)
           else
             (let len = min (length buf - offset) MAXIMUM_PLAINTEXT_LENGTH in
              case nz_write P (noise_send st) (take len (drop offset buf)) of
                None \<Rightarrow> Inr (Panics ''called `Result::unwrap()` on an `Err` value'', st)
              | Some (c, s') \<Rightarrow>
                  Inl (offset + len, st\<lparr>noise_send := s', write_buffer := tls_record c\<rparr>)))))"

definition poll_write :: "('s, 'r) tunnel_params \<Rightarrow> bytes \<Rightarrow> ('s, 'r) snowy \<Rightarrow>
    ((io_error + nat) outcome \<times> ('s, 'r) snowy) option" where
  "poll_write P buf st =
     (if \<not> writeable (state st) then Some (Ready (Inr 0), st)
      else run_loop (write_round P buf) (0, st))"

definition flush_round :: "('s, 'r) snowy \<Rightarrow> ('s, 'r) snowy + (io_error + unit) outcome \<times> ('s, 'r) snowy" where
  "flush_round st0 =
     (if write_offset st0 < length (write_buffer st0) then
        (case socket_poll_write (drop (write_offset st0) (write_buffer st0)) (socket st0) of
           (res, sk) \<Rightarrow>
             (let st = st0\<lparr>socket := sk\<rparr> in
              case res of
                Ready (Inr n) \<Rightarrow> Inl (st\<lparr>write_offset := write_offset st + n\<rparr>)
              | Ready (Inl e) \<Rightarrow> Inr (Ready (Inl e), st)
              | Pending \<Rightarrow> Inr (Pending, st)
              | Panics msg \<Rightarrow> Inr (Panics msg, st)))
      else Inr (Ready (Inr ()), st0\<lparr>write_offset := 0, write_buffer := []\<rparr>))"

definition poll_flush :: "('s, 'r) snowy \<Rightarrow> ((io_error + unit) outcome \<times> ('s, 'r) snowy) option" where
  "poll_flush st = run_loop flush_round st"

definition poll_shutdown :: "('s, 'r) snowy \<Rightarrow> ((io_error + unit) outcome \<times> ('s, 'r) snowy) option" where
  "poll_shutdown st0 =
     (let st = (if writeable (state st0) then st0\<lparr>state := shutdown_write (state st0)\<rparr> else st0) in
      case poll_flush st of
        None \<Rightarrow> None
      | Some (Ready (Inr _), st) \<Rightarrow>
          (case socket_poll_shutdown (socket st) of (res, sk) \<Rightarrow> Some (res, st\<lparr>socket := sk\<rparr>))
      | Some (res, st) \<Rightarrow> Some (res, st))"

definition buffered_plaintext :: "('s, 'r) snowy \<Rightarrow> bytes" where
  "buffered_plaintext st = drop (read_offset st) (read_buffer st)"

section \<open>The loops return\<close>

text \<open>A record that was parsed used some of the bytes.\<close>

definition om_progress :: "('s, 'r) tunnel_params \<Rightarrow> bool" where
  "om_progress P \<longleftrightarrow> (\<forall>bs c n. om_read P bs = Opaque c n \<longrightarrow> 0 < n \<and> n \<le> length bs)"

fun input_size :: "sock_in list \<Rightarrow> nat" where
  "input_size [] = 0"
| "input_size (Arrives bs # xs) = length bs + input_size xs"
| "input_size (_ # xs) = input_size xs"

abbreviation (input) read_measures :: "((bytes \<times> ('s, 'r) snowy) \<times> (bytes \<times> ('s, 'r) snowy)) set" where
  "read_measures \<equiv> measures [\<lambda>s. input_size (sk_in (socket (snd s))), \<lambda>s. pending_read_filled (snd s)]"

lemma read_socket_descends:
  assumes "read_socket g st = Inl (g', st')"
  shows "input_size (sk_in (socket st')) < input_size (sk_in (socket st))"
  using assms
  by (cases "sk_in (socket st)" rule: input_size.cases)
    (auto simp: read_socket_def Let_def split: if_splits)

lemma read_round_descends:
  assumes "om_progress P" "read_round P room s = Inl s'"
  shows "(s', s) \<in> read_measures"
proof -
  obtain g st where h: "hand_out room (fst s) (snd s) = (g, st)" by (metis surj_pair)
  then have same: "socket st = socket (snd s)" "pending_read_filled st = pending_read_filled (snd s)"
    by (auto simp: hand_out_def Let_def split: if_splits)
  have no: "\<not> read_offset st < length (read_buffer st)"
    using assms(2) h by (auto simp: read_round_def split: if_splits)
  show ?thesis
  proof (cases "om_read P (take (pending_read_filled st) (pending_read_buffer st))")
    case (Opaque c n)
    then have "0 < n" "n \<le> pending_read_filled st"
      using assms(1) unfolding om_progress_def by (metis, metis length_take min.boundedE)
    moreover from Opaque assms(2) h no obtain st' where "s' = (g, st')" "socket st' = socket st"
      "pending_read_filled st' = pending_read_filled st - n"
      by (auto simp: read_round_def open_record_def Let_def split: if_splits prod.splits sum.splits)
    ultimately show ?thesis using same by auto
  next
    case TooShort
    with assms(2) h no obtain st' where "s' = (fst s', st')" "read_socket g st = Inl (fst s', st')"
      by (auto simp: read_round_def split: if_splits prod.splits) (metis prod.collapse)
    with read_socket_descends [of g st "fst s'" st'] same show ?thesis by (metis in_measures(2) snd_conv)
  next
    case BadFrame
    with assms(2) h no show ?thesis by (simp add: read_round_def)
  qed
qed

lemma poll_read_returns:
  assumes "om_progress P"
  shows "\<exists>x. poll_read P room st = Some x"
proof -
  have "\<exists>x. run_loop (read_round P room) ([], st) = Some x"
    by (rule run_loop_returns [of read_measures "\<lambda>_. True"])
      (use read_round_descends [OF assms] wf_measures in blast)+
  then show ?thesis by (simp add: poll_read_def del: readable.simps)
qed

lemma write_round_descends:
  assumes "fst s \<le> length buf" "write_round P buf s = Inl s'"
  shows "fst s' \<le> length buf \<and>
    (s', s) \<in> measures [\<lambda>s. length buf - fst s, \<lambda>s. length (write_buffer (snd s)) - write_offset (snd s)]"
proof -
  obtain offset st where s: "s = (offset, st)" by (metis surj_pair)
  show ?thesis
  proof (cases "write_offset st < length (write_buffer st)")
    case True
    then show ?thesis
      using assms by (cases "shd (sk_answers (socket st))")
        (auto simp: s write_round_def socket_poll_write_def Let_def split: if_splits)
  next
    case False
    define len where "len = min (length buf - offset) MAXIMUM_PLAINTEXT_LENGTH"
    from False assms(2) obtain st' where "s' = (offset + len, st')" "offset \<noteq> length buf"
      by (auto simp: s write_round_def Let_def len_def split: if_splits option.splits)
    moreover have "len \<le> length buf - offset" "offset \<noteq> length buf \<Longrightarrow> offset \<le> length buf \<Longrightarrow> 0 < len"
      by (auto simp: len_def)
    ultimately show ?thesis using assms(1) by (auto simp: s)
  qed
qed

lemma poll_write_returns: "\<exists>x. poll_write P buf st = Some x"
proof -
  have "\<exists>x. run_loop (write_round P buf) (0, st) = Some x"
    by (rule run_loop_returns [of "measures [\<lambda>s. length buf - fst s,
        \<lambda>s. length (write_buffer (snd s)) - write_offset (snd s)]" "\<lambda>s. fst s \<le> length buf"])
      (use write_round_descends wf_measures in \<open>blast, simp, blast\<close>)
  then show ?thesis by (simp add: poll_write_def del: writeable.simps)
qed

text \<open>The socket does not answer \<open>Ok(0)\<close> for ever.\<close>

definition not_stuck :: "sock_answer stream \<Rightarrow> bool" where
  "not_stuck ans \<longleftrightarrow> (\<forall>i. \<exists>j\<ge>i. ans !! j \<noteq> Takes 0)"

lemma not_stuck_stl: "not_stuck ans \<Longrightarrow> not_stuck (stl ans)"
  unfolding not_stuck_def by (metis Suc_le_D Suc_le_mono snth.simps(2))

lemma flush_round_descends:
  assumes "not_stuck (sk_answers (socket st))" "flush_round st = Inl st'"
  shows "not_stuck (sk_answers (socket st')) \<and>
    (st', st) \<in> measures [\<lambda>st. length (write_buffer st) - write_offset st,
      \<lambda>st. LEAST j. sk_answers (socket st) !! j \<noteq> Takes 0]"
proof -
  from assms(2) obtain k where less: "write_offset st < length (write_buffer st)"
    and k: "shd (sk_answers (socket st)) = Takes k"
    and st': "write_buffer st' = write_buffer st" "sk_answers (socket st') = stl (sk_answers (socket st))"
      "write_offset st' = write_offset st + min k (length (write_buffer st) - write_offset st)"
    by (auto simp: flush_round_def socket_poll_write_def Let_def split: if_splits sock_answer.splits)
  let ?a = "sk_answers (socket st)"
  show ?thesis
  proof (cases "k = 0")
    case True
    from assms(1) obtain j where "?a !! j \<noteq> Takes 0" by (auto simp: not_stuck_def)
    moreover have "\<not> ?a !! 0 \<noteq> Takes 0" using k True by simp
    ultimately have "(LEAST j. ?a !! j \<noteq> Takes 0) = Suc (LEAST j. ?a !! Suc j \<noteq> Takes 0)"
      by (rule Least_Suc)
    with True st' less assms(1) show ?thesis by (simp add: not_stuck_stl)
  next
    case False
    with st' less assms(1) show ?thesis by (auto simp: not_stuck_stl)
  qed
qed

lemma poll_flush_returns: "not_stuck (sk_answers (socket st)) \<Longrightarrow> \<exists>x. poll_flush st = Some x"
  unfolding poll_flush_def
  by (rule run_loop_returns [of "measures [\<lambda>st. length (write_buffer st) - write_offset st,
      \<lambda>st. LEAST j. sk_answers (socket st) !! j \<noteq> Takes 0]" "\<lambda>st. not_stuck (sk_answers (socket st))"])
    (auto dest: flush_round_descends)

lemma poll_flush_stuck:
  assumes "write_offset st < length (write_buffer st)" "sk_answers (socket st) = sconst (Takes 0)"
  shows "poll_flush st = None"
  unfolding poll_flush_def
  by (rule run_loop_forever [of "\<lambda>st. write_offset st < length (write_buffer st) \<and>
      sk_answers (socket st) = sconst (Takes 0)"])
    (use assms in \<open>auto simp: flush_round_def socket_poll_write_def Let_def\<close>)

lemma poll_shutdown_returns:
  assumes "not_stuck (sk_answers (socket st))"
  shows "\<exists>x. poll_shutdown st = Some x"
proof -
  let ?st = "if writeable (state st) then st\<lparr>state := shutdown_write (state st)\<rparr> else st"
  from assms have "not_stuck (sk_answers (socket ?st))" by simp
  from poll_flush_returns [OF this] obtain r st' where "poll_flush ?st = Some (r, st')" by auto
  then show ?thesis by (auto simp: poll_shutdown_def Let_def split: outcome.splits sum.splits prod.splits simp del: writeable.simps)
qed

lemma poll_shutdown_stuck:
  assumes "write_offset st < length (write_buffer st)" "sk_answers (socket st) = sconst (Takes 0)"
  shows "poll_shutdown st = None"
proof -
  let ?st = "if writeable (state st) then st\<lparr>state := shutdown_write (state st)\<rparr> else st"
  have "poll_flush ?st = None" by (rule poll_flush_stuck) (use assms in simp_all)
  then show ?thesis by (simp add: poll_shutdown_def Let_def del: writeable.simps)
qed

text \<open>
  C30. The polls return to the executor. \<open>poll_read\<close> does, whatever the finite input that is ready on the socket, if
  the record parser uses some bytes for every record it finds; \<open>poll_write\<close> always does, because it gives up when the socket takes no byte.
  \<open>poll_flush\<close> and \<open>poll_shutdown\<close> return when the socket does not answer \<open>Ok(0)\<close> for ever; when it does, and something is
  left to be sent, both spin without returning.
\<close>

theorem polls_return:
  "(om_progress P \<longrightarrow> (\<exists>x. poll_read P room st = Some x)) \<and>
   (\<exists>x. poll_write P buf st = Some x) \<and>
   (not_stuck (sk_answers (socket st)) \<longrightarrow> (\<exists>x. poll_flush st = Some x) \<and> (\<exists>x. poll_shutdown st = Some x)) \<and>
   (write_offset st < length (write_buffer st) \<and> sk_answers (socket st) = sconst (Takes 0) \<longrightarrow>
      poll_flush st = None \<and> poll_shutdown st = None)"
  using poll_read_returns poll_write_returns poll_flush_returns poll_flush_stuck poll_shutdown_returns poll_shutdown_stuck by blast

text \<open>A record parser and a toy cipher that counts messages.\<close>

definition parse_record :: "bytes \<Rightarrow> opaque" where
  "parse_record bs =
     (if length bs < 5 then TooShort
      else (let n = unat (of_be16 (bs ! 3) (bs ! 4)) in
            if length bs < 5 + n then TooShort else Opaque (take n (drop 5 bs)) (5 + n)))"

lemma parse_record_whole:
  assumes "length c \<le> 65535"
  shows "parse_record (tls_record c @ rest) = Opaque c (5 + length c)"
proof -
  have "unat (of_nat (length c) :: u16) = length c" using assms by (simp add: unat_of_nat take_bit_nat_eq_self)
  then show ?thesis by (simp add: parse_record_def tls_record_def be16_def Let_def)
qed

lemma parse_record_short:
  assumes "length c \<le> 65535" "n < 5 + length c"
  shows "parse_record (take n (tls_record c)) = TooShort"
proof (cases "n < 5")
  case True
  then have "length (take n (tls_record c)) < 5" by (simp add: length_tls_record)
  then show ?thesis by (simp only: parse_record_def if_True)
next
  case False
  have "unat (of_nat (length c) :: u16) = length c" using assms by (simp add: unat_of_nat take_bit_nat_eq_self)
  with False assms(2) show ?thesis
    by (simp add: parse_record_def tls_record_def be16_def Let_def)
qed

definition sample_tunnel :: "(nat, nat) tunnel_params" where
  "sample_tunnel = \<lparr>om_read = parse_record, om_max_wire = 5 + 16384 + 2048,
     nz_write = (\<lambda>s p. Some (p @ replicate 16 (of_nat s), Suc s)),
     nz_read = (\<lambda>r c. if drop (length c - 16) c = replicate 16 (of_nat r)
        then (Inr (take (length c - 16) c), Suc r) else (Inl ''decrypt error'', r)),
     left_over = (\<lambda>_ _ _. 0xAA), uninit = (\<lambda>_. 0)\<rparr>"

definition sample_socket :: socket where
  "sample_socket = \<lparr>sk_in = [], sk_out = [], sk_answers = sconst (Takes 1000), sk_shutdown = None, sk_fin = False\<rparr>"

lemma sample_progress: "om_progress sample_tunnel"
  by (auto simp: om_progress_def sample_tunnel_def parse_record_def Let_def split: if_splits)

theorem polls_return_witness:
  "(\<exists>x. poll_read sample_tunnel 10 (snowy_new sample_tunnel sample_socket 0 0) = Some x) \<and>
   (\<exists>x. poll_flush ((snowy_new sample_tunnel sample_socket 0 0)\<lparr>write_buffer := [1]\<rparr>) = Some x) \<and>
   (\<exists>x. poll_shutdown ((snowy_new sample_tunnel sample_socket 0 0)\<lparr>write_buffer := [1]\<rparr>) = Some x) \<and>
   poll_shutdown ((snowy_new sample_tunnel (sample_socket\<lparr>sk_answers := sconst (Takes 0)\<rparr>) 0 0)\<lparr>write_buffer := [1]\<rparr>) = None"
proof -
  have "not_stuck (sconst (Takes 1000))" by (auto simp: not_stuck_def)
  then show ?thesis
    using polls_return [of sample_tunnel 10 "snowy_new sample_tunnel sample_socket 0 0" "[]"] sample_progress
      polls_return [of sample_tunnel 10 "(snowy_new sample_tunnel sample_socket 0 0)\<lparr>write_buffer := [1]\<rparr>" "[]"]
      polls_return [of sample_tunnel 10 "(snowy_new sample_tunnel (sample_socket\<lparr>sk_answers := sconst (Takes 0)\<rparr>) 0 0)\<lparr>write_buffer := [1]\<rparr>" "[]"]
    by (simp add: snowy_new_def sample_socket_def)
qed

text \<open>
  C39. When a record does not decrypt, \<open>poll_read\<close> reports the error, but the plaintext buffer keeps the
  length it was set to before the decryption and the stream stays readable: the next \<open>poll_read\<close> succeeds
  and hands out what the memory of the buffer holds, which is no plaintext of the peer.
\<close>

theorem decrypt_error_leaves_uninit:
  assumes "readable (state st)" "read_buffer st = []" "read_offset st = 0" "0 < room" "room < MAXIMUM_PLAINTEXT_LENGTH"
    and "om_read P (take (pending_read_filled st) (pending_read_buffer st)) = Opaque c n" "c \<noteq> []"
    and "nz_read P (noise_recv st) c = (Inl msg, r')"
  shows "\<exists>st' st''.
    poll_read P room st = Some (Ready (Inl (IoError InvalidData (''Noise failed to read message: '' @ msg))), st') \<and>
    poll_read P room st' = Some (Ready (Inr (map (left_over P (noise_recv st) c) [0..<room])), st'')"
proof -
  let ?e = "IoError InvalidData (''Noise failed to read message: '' @ msg)"
  let ?st = "st\<lparr>pending_read_buffer := copy_down n (pending_read_filled st) (pending_read_buffer st),
    pending_read_filled := pending_read_filled st - n, noise_recv := r',
    read_buffer := map (left_over P (noise_recv st) c) [0..<MAXIMUM_PLAINTEXT_LENGTH]\<rparr>"
  have "read_round P room ([], st) = Inr (Ready (Inl ?e), ?st)"
    using assms(2,3,6-8) by (simp add: read_round_def hand_out_def open_record_def)
  then have first: "poll_read P room st = Some (Ready (Inl ?e), ?st)"
    using assms(1) by (simp add: poll_read_def run_loop_return)
  have "take room (map (left_over P (noise_recv st) c) [0..<MAXIMUM_PLAINTEXT_LENGTH]) = map (left_over P (noise_recv st) c) [0..<room]"
    using assms(5) by (simp add: take_map)
  then have "read_round P room ([], ?st) = Inr (Ready (Inr (map (left_over P (noise_recv st) c) [0..<room])), ?st\<lparr>read_offset := room\<rparr>)"
    using assms(3-5) by (simp add: read_round_def hand_out_def Let_def min_def)
  then have "poll_read P room ?st = Some (Ready (Inr (map (left_over P (noise_recv st) c) [0..<room])), ?st\<lparr>read_offset := room\<rparr>)"
    using assms(1) by (simp add: poll_read_def run_loop_return)
  with first show ?thesis by blast
qed

theorem decrypt_error_leaves_uninit_witness:
  "let st = (snowy_new sample_tunnel sample_socket 0 0)
         \<lparr>pending_read_buffer := tls_record (replicate 17 5), pending_read_filled := 22\<rparr> in
   \<exists>st' st''.
     poll_read sample_tunnel 3 st =
       Some (Ready (Inl (IoError InvalidData ''Noise failed to read message: decrypt error'')), st') \<and>
     poll_read sample_tunnel 3 st' = Some (Ready (Inr [0xAA, 0xAA, 0xAA]), st'')"
proof -
  let ?st = "(snowy_new sample_tunnel sample_socket 0 0)
    \<lparr>pending_read_buffer := tls_record (replicate 17 5), pending_read_filled := 22\<rparr>"
  have "\<exists>st' st''.
    poll_read sample_tunnel 3 ?st =
      Some (Ready (Inl (IoError InvalidData (''Noise failed to read message: '' @ ''decrypt error''))), st') \<and>
    poll_read sample_tunnel 3 st' = Some (Ready (Inr (map (left_over sample_tunnel (noise_recv ?st) (replicate 17 5)) [0..<3])), st'')"
  proof (rule decrypt_error_leaves_uninit)
    show "om_read sample_tunnel (take (pending_read_filled ?st) (pending_read_buffer ?st)) = Opaque (replicate 17 5) 22"
      using parse_record_whole [of "replicate 17 5" "[]"] by (simp add: sample_tunnel_def length_tls_record del: replicate.simps)
    show "nz_read sample_tunnel (noise_recv ?st) (replicate 17 5) = (Inl ''decrypt error'', 0)"
      by (simp add: sample_tunnel_def snowy_new_def)
  qed (simp_all add: snowy_new_def)
  moreover have "map (left_over sample_tunnel (noise_recv ?st) (replicate 17 5)) [0..<3] = [0xAA, 0xAA, 0xAA]"
    by (simp add: sample_tunnel_def numeral_3_eq_3)
  ultimately show ?thesis by (simp only: Let_def append.simps)
qed

end
