(* ===== verification/Pipe.thy ===== *)
theory Pipe
  imports Net
begin

text \<open>
  What the program expects of a byte stream: whatever the order in which one end writes, the network
  moves bytes and the other end reads, the reader gets what was written, in order. The locale states
  this contract as the laws of single steps, and proves it for whole runs. The connections on which
  the other theories run their readers and writers implement it (here), and so does the encrypted
  tunnel between two \<open>SnowyStream\<close>s (in theory Tunnel).
\<close>

text \<open>
  The steps an observer sees: bytes were taken for sending, a write failed after some of its bytes were
  taken, bytes were handed out, the stream broke (a read failed or a call panicked); or nothing to be seen.
\<close>

datatype pipe_event = Wrote bytes | WriteFailed bytes | Got bytes | Broken | Internal

inductive pipe_run :: "('c \<Rightarrow> pipe_event \<Rightarrow> 'c \<Rightarrow> bool) \<Rightarrow> 'c \<Rightarrow> pipe_event list \<Rightarrow> 'c \<Rightarrow> bool" for step where
  pipe_run_Nil: "pipe_run step c [] c"
| pipe_run_Cons: "step c e c1 \<Longrightarrow> pipe_run step c1 es c2 \<Longrightarrow> pipe_run step c (e # es) c2"

lemma pipe_run_snoc: "pipe_run step c es c1 \<Longrightarrow> step c1 e c2 \<Longrightarrow> pipe_run step c (es @ [e]) c2"
  by (induction rule: pipe_run.induct) (auto intro: pipe_run.intros)

fun sends :: "pipe_event list \<Rightarrow> bytes set" where
  "sends [] = {[]}"
| "sends (Wrote bs # es) = (@) bs ` sends es"
| "sends (WriteFailed bs # es) = {take k bs @ x | k x. x \<in> sends es}"
| "sends (_ # es) = sends es"

fun received :: "pipe_event list \<Rightarrow> bytes" where
  "received [] = []"
| "received (Got bs # es) = bs @ received es"
| "received (_ # es) = received es"

locale byte_pipe =
  fixes step :: "'c \<Rightarrow> pipe_event \<Rightarrow> 'c \<Rightarrow> bool"
    and holds :: "'c \<Rightarrow> bytes \<Rightarrow> bool"
  assumes wrote: "holds c q \<Longrightarrow> step c (Wrote bs) c' \<Longrightarrow> holds c' (q @ bs)"
    and write_failed: "holds c q \<Longrightarrow> step c (WriteFailed bs) c' \<Longrightarrow> \<exists>k. holds c' (q @ take k bs)"
    and got_some: "holds c q \<Longrightarrow> step c (Got bs) c' \<Longrightarrow> \<exists>q'. q = bs @ q' \<and> holds c' q'"
    and broken: "holds c q \<Longrightarrow> \<not> step c Broken c'"
    and internal: "holds c q \<Longrightarrow> step c Internal c' \<Longrightarrow> holds c' q"
begin

lemma run_delivers:
  "pipe_run step c es c' \<Longrightarrow> holds c q \<Longrightarrow>
     Broken \<notin> set es \<and> (\<exists>s q'. s \<in> sends es \<and> holds c' q' \<and> q @ s = received es @ q')"
proof (induction arbitrary: q rule: pipe_run.induct)
  case (pipe_run_Nil c)
  then show ?case by auto
next
  case (pipe_run_Cons c e c1 es c2)
  show ?case
  proof (cases e)
    case (Wrote bs)
    with pipe_run_Cons have "holds c1 (q @ bs)" by (blast intro: wrote)
    from pipe_run_Cons.IH [OF this] obtain s q' where
      "Broken \<notin> set es" "s \<in> sends es" "holds c2 q'" "(q @ bs) @ s = received es @ q'" by blast
    with Wrote show ?thesis by auto
  next
    case (WriteFailed bs)
    with pipe_run_Cons obtain k where "holds c1 (q @ take k bs)" using write_failed by blast
    from pipe_run_Cons.IH [OF this] obtain s q' where
      *: "Broken \<notin> set es" "s \<in> sends es" "holds c2 q'" "(q @ take k bs) @ s = received es @ q'" by blast
    then have "take k bs @ s \<in> sends (e # es)" using WriteFailed by auto
    moreover have "q @ (take k bs @ s) = received (e # es) @ q'" "Broken \<notin> set (e # es)"
      using * WriteFailed by simp_all
    ultimately show ?thesis using *(3) by blast
  next
    case (Got bs)
    with pipe_run_Cons obtain q1 where "q = bs @ q1" "holds c1 q1" using got_some by blast
    with pipe_run_Cons.IH [of q1] Got show ?thesis by fastforce
  next
    case Broken
    with pipe_run_Cons broken show ?thesis by blast
  next
    case Internal
    with pipe_run_Cons have "holds c1 q" by (blast intro: internal)
    with pipe_run_Cons.IH [of q] Internal show ?thesis by simp
  qed
qed

end

section \<open>Connections\<close>

text \<open>One direction between the two ends of a connection.\<close>

inductive conn_step :: "conn \<times> conn \<Rightarrow> pipe_event \<Rightarrow> conn \<times> conn \<Rightarrow> bool" where
  conn_write: "write_all bs a = (Ready (Inr ()), a') \<Longrightarrow> conn_step (a, b) (Wrote bs) (a', b)"
| conn_write_failed: "write_all bs a = (r, a') \<Longrightarrow> r \<noteq> Ready (Inr ()) \<Longrightarrow> conn_step (a, b) (WriteFailed bs) (a', b)"
| conn_deliver: "conn_step (a, b) Internal (a\<lparr>out := drop n (out a)\<rparr>, b\<lparr>inp := inp b @ take n (out a)\<rparr>)"
| conn_read: "read_some cap k b = (Ready (Inr bs), b') \<Longrightarrow> conn_step (a, b) (Got bs) (a, b')"
| conn_read_exact: "read_exact n b = (Ready (Inr bs), b') \<Longrightarrow> conn_step (a, b) (Got bs) (a, b')"

inductive_cases conn_step_cases:
  "conn_step c (Wrote bs) c'" "conn_step c (WriteFailed bs) c'" "conn_step c (Got bs) c'"
  "conn_step c Broken c'" "conn_step c Internal c'"

definition conn_holds :: "conn \<times> conn \<Rightarrow> bytes \<Rightarrow> bool" where
  "conn_holds c q \<longleftrightarrow> q = inp (snd c) @ out (fst c)"

interpretation conns: byte_pipe conn_step conn_holds
proof unfold_locales
  fix c q bs c'
  assume "conn_holds c q" "conn_step c (WriteFailed bs) c'"
  then show "\<exists>k. conn_holds c' (q @ take k bs)"
  proof (elim conn_step_cases)
    fix a r a' b
    assume "conn_holds c q" "c = (a, b)" "c' = (a', b)" "write_all bs a = (r, a')"
    moreover obtain k where "out (snd (write_all bs a)) = out a @ take k bs"
      using write_all_prefix by blast
    ultimately show ?thesis by (auto simp: conn_holds_def)
  qed
next
  fix c q bs c'
  assume "conn_holds c q" "conn_step c (Wrote bs) c'"
  then show "conn_holds c' (q @ bs)"
    by (elim conn_step_cases) (auto simp: conn_holds_def write_all_result)
next
  fix c q bs c'
  assume "conn_holds c q" "conn_step c (Got bs) c'"
  then show "\<exists>q'. q = bs @ q' \<and> conn_holds c' q'"
    by (elim conn_step_cases) (auto simp: conn_holds_def dest!: read_some_Inr read_exact_result(1))
qed (auto simp: conn_holds_def elim!: conn_step_cases)

end
