(* ===== verification/Tunnel.thy ===== *)
theory Tunnel
  imports Snowy Pipe
begin

text \<open>
  Two \<open>SnowyStream\<close>s connected by a TCP connection implement the byte-stream contract of theory Pipe:
  what is written into one end comes out of the other, complete and in order, whatever the sizes of the
  buffers, of the pieces TCP makes of the stream and of the writes it accepts, and however the calls are
  interleaved with those of the other direction.
\<close>

section \<open>What is relied on\<close>

text \<open>
  The record parser finds an application-data record at the beginning of the bytes, and asks for more
  bytes as long as it is incomplete; a whole record fits into the read buffer.
\<close>

definition records_ok :: "('s, 'r) tunnel_params \<Rightarrow> bool" where
  "records_ok P \<longleftrightarrow>
     (\<forall>c rest. c \<noteq> [] \<and> length c \<le> 16384 \<longrightarrow> om_read P (tls_record c @ rest) = Opaque c (5 + length c)) \<and>
     (\<forall>c n. c \<noteq> [] \<and> length c \<le> 16384 \<and> n < 5 + length c \<longrightarrow> om_read P (take n (tls_record c)) = TooShort) \<and>
     5 + 16384 \<le> om_max_wire P"

lemma records_okD:
  assumes "records_ok P"
  shows "c \<noteq> [] \<Longrightarrow> length c \<le> 16384 \<Longrightarrow> om_read P (tls_record c @ rest) = Opaque c (5 + length c)"
    and "c \<noteq> [] \<Longrightarrow> length c \<le> 16384 \<Longrightarrow> n < 5 + length c \<Longrightarrow> om_read P (take n (tls_record c)) = TooShort"
    and "5 + 16384 \<le> om_max_wire P"
  using assms unfolding records_ok_def by blast+

text \<open>
  The Noise transport: \<open>paired s r\<close> says that \<open>r\<close> receives what \<open>s\<close> sends next. A message is encrypted
  with a tag of 16 bytes, and the receiver decrypts the messages in the order they were encrypted.
\<close>

definition noise_ok :: "('s, 'r) tunnel_params \<Rightarrow> ('s \<Rightarrow> 'r \<Rightarrow> bool) \<Rightarrow> bool" where
  "noise_ok P paired \<longleftrightarrow>
     (\<forall>s r p. paired s r \<and> p \<noteq> [] \<and> length p \<le> MAXIMUM_PLAINTEXT_LENGTH \<longrightarrow>
        (\<exists>c s' r'. nz_write P s p = Some (c, s') \<and> length c = length p + 16 \<and>
           nz_read P r c = (Inr p, r') \<and> paired s' r'))"

lemma noise_okD:
  assumes "noise_ok P paired" "paired s r" "p \<noteq> []" "length p \<le> MAXIMUM_PLAINTEXT_LENGTH"
  obtains c s' r' where "nz_write P s p = Some (c, s')" "length c = length p + 16"
    "nz_read P r c = (Inr p, r')" "paired s' r'"
  using assms unfolding noise_ok_def by blast

section \<open>What is on its way\<close>

text \<open>The records that a sender at state \<open>s\<close> makes of some pieces of plaintext, and its state afterwards.\<close>

inductive sealed :: "('s, 'r) tunnel_params \<Rightarrow> 's \<Rightarrow> bytes list \<Rightarrow> bytes \<Rightarrow> 's \<Rightarrow> bool" for P where
  sealed_Nil: "sealed P s [] [] s"
| sealed_Cons: "p \<noteq> [] \<Longrightarrow> length p \<le> MAXIMUM_PLAINTEXT_LENGTH \<Longrightarrow> nz_write P s p = Some (c, s1) \<Longrightarrow>
    length c = length p + 16 \<Longrightarrow> sealed P s1 ps ws s2 \<Longrightarrow> sealed P s (p # ps) (tls_record c @ ws) s2"

inductive_cases sealed_NilE: "sealed P s [] ws s2"
inductive_cases sealed_ConsE: "sealed P s (p # ps) ws s2"

lemma sealed_snoc:
  assumes "sealed P s ps ws s1" "p \<noteq> []" "length p \<le> MAXIMUM_PLAINTEXT_LENGTH"
    "nz_write P s1 p = Some (c, s2)" "length c = length p + 16"
  shows "sealed P s (ps @ [p]) (ws @ tls_record c) s2"
  using assms
proof (induction rule: sealed.induct)
  case (sealed_Nil s)
  then show ?case using sealed.sealed_Cons [OF _ _ _ _ sealed.sealed_Nil] by fastforce
next
  case (sealed_Cons q s d s0 ps ws s1)
  then show ?case using sealed.sealed_Cons [of q P s d s0 "ps @ [p]" "ws @ tls_record c" s2] by simp
qed

lemma sealed_paired:
  assumes "sealed P s ps ws s1" "noise_ok P paired" "paired s r"
  shows "\<exists>r1. paired s1 r1"
  using assms
proof (induction arbitrary: r rule: sealed.induct)
  case (sealed_Nil s)
  then show ?case by blast
next
  case (sealed_Cons p s c s1 ps ws s2)
  then show ?case by (metis noise_okD option.inject prod.inject)
qed

text \<open>The bytes that reads of the socket will return, if nothing but the end comes after them.\<close>

fun arrivals :: "sock_in list \<Rightarrow> bytes option" where
  "arrivals [] = Some []"
| "arrivals (Arrives bs # xs) = (if bs = [] then None else map_option ((@) bs) (arrivals xs))"
| "arrivals (Fin # xs) = (if xs = [] then Some [] else None)"
| "arrivals (ReadFails e # xs) = None"

lemma arrivals_append:
  "arrivals xs = Some bs \<Longrightarrow> Fin \<notin> set xs \<Longrightarrow> arrivals (xs @ ys) = map_option ((@) bs) (arrivals ys)"
proof (induction xs arbitrary: bs rule: arrivals.induct)
  case (2 b xs)
  then show ?case by (cases "arrivals ys") (auto split: if_splits)
next
  case 1
  then show ?case by (cases "arrivals ys") auto
qed auto

text \<open>
  The reading end, before which \<open>rest\<close> is still on its way from a sender at state \<open>s1\<close>: the buffers are
  consistent, and \<open>q\<close> is the plaintext that is still to be read.
\<close>

definition reader_wf :: "('s, 'r) tunnel_params \<Rightarrow> ('s, 'r) snowy \<Rightarrow> bool" where
  "reader_wf P st \<longleftrightarrow>
     length (pending_read_buffer st) = om_max_wire P \<and> pending_read_filled st \<le> om_max_wire P \<and>
     (read_offset st < length (read_buffer st) \<or> read_offset st = 0 \<and> read_buffer st = []) \<and> readable (state st)"

definition pending :: "('s, 'r) snowy \<Rightarrow> bytes" where
  "pending st = take (pending_read_filled st) (pending_read_buffer st)"

definition flow :: "('s, 'r) tunnel_params \<Rightarrow> ('s \<Rightarrow> 'r \<Rightarrow> bool) \<Rightarrow> 's \<Rightarrow> bytes \<Rightarrow> ('s, 'r) snowy \<Rightarrow> bytes \<Rightarrow> bool"
  where
  "flow P paired s1 rest st q \<longleftrightarrow>
     reader_wf P st \<and>
     (\<exists>s0 ps xs. paired s0 (noise_recv st) \<and> arrivals (sk_in (socket st)) = Some xs \<and>
        sealed P s0 ps (pending st @ xs @ rest) s1 \<and> q = buffered_plaintext st @ concat ps)"

section \<open>Reading\<close>

text \<open>At the boundary of a record the parser finds the next record, or waits for the rest of it.\<close>

lemma sealed_parse:
  assumes "records_ok P" "sealed P s0 ps (pd @ xs) s1"
  shows "(\<exists>p ps' c s' pd'. ps = p # ps' \<and> p \<noteq> [] \<and> length p \<le> MAXIMUM_PLAINTEXT_LENGTH \<and> c \<noteq> [] \<and>
      nz_write P s0 p = Some (c, s') \<and> pd = tls_record c @ pd' \<and> om_read P pd = Opaque c (5 + length c) \<and>
      sealed P s' ps' (pd' @ xs) s1) \<or>
    (om_read P pd = TooShort \<and> length pd < om_max_wire P \<and> (xs = [] \<longrightarrow> ps = [] \<and> pd = []))"
proof (cases ps)
  case Nil
  with assms(2) have "pd = []" "xs = []" by (auto elim: sealed_NilE)
  moreover have "om_read P (take 0 (tls_record [0])) = TooShort"
    by (rule records_okD(2) [OF assms(1)]) simp_all
  ultimately show ?thesis using Nil assms(1) by (simp add: records_ok_def)
next
  case (Cons p ps')
  with assms(2) obtain c s' ws where p: "p \<noteq> []" "length p \<le> MAXIMUM_PLAINTEXT_LENGTH" "nz_write P s0 p = Some (c, s')"
    and len: "length c = length p + 16" and ws: "pd @ xs = tls_record c @ ws" "sealed P s' ps' ws s1"
    by (auto elim: sealed_ConsE)
  then have c: "c \<noteq> []" "length c \<le> 16384" by auto
  show ?thesis
  proof (cases "5 + length c \<le> length pd")
    case True
    define pd' where "pd' = drop (5 + length c) pd"
    have "take (5 + length c) (pd @ xs) = tls_record c" "drop (5 + length c) (pd @ xs) = ws"
      using ws(1) by (simp_all add: length_tls_record)
    with True have "take (5 + length c) pd = tls_record c" "ws = pd' @ xs" by (simp_all add: pd'_def)
    moreover from this(1) have pd: "pd = tls_record c @ pd'" by (metis append_take_drop_id pd'_def)
    moreover from pd have "om_read P pd = Opaque c (5 + length c)"
      using records_okD(1) [OF assms(1) c] by simp
    ultimately show ?thesis using Cons p c(1) ws(2) by blast
  next
    case False
    have "take (length pd) (pd @ xs) = take (length pd) (tls_record c)"
      using ws(1) False by (simp add: length_tls_record)
    then have pd: "pd = take (length pd) (tls_record c)" by simp
    with False have "om_read P pd = TooShort"
      using records_okD(2) [OF assms(1) c, of "length pd"] by simp
    moreover have "length pd < om_max_wire P" using False c(2) records_okD(3) [OF assms(1)] by simp
    moreover have "xs \<noteq> []" using False arg_cong [OF ws(1), of length] by (auto simp: length_tls_record)
    ultimately show ?thesis by blast
  qed
qed

text \<open>The plaintext handed out is the beginning of what is still to be read.\<close>

lemma hand_out_flow:
  assumes "flow P paired s1 rest st q" "hand_out room g st = (g', st')" "length g \<le> room"
  obtains bs q' where "g' = g @ bs" "q = bs @ q'" "flow P paired s1 rest st' q'" "length g' \<le> room"
    "socket st' = socket st" "pending st' = pending st"
    "read_offset st' < length (read_buffer st') \<Longrightarrow> length g' = room"
    "\<not> read_offset st' < length (read_buffer st') \<Longrightarrow> read_buffer st' = [] \<and> read_offset st' = 0"
proof (cases "read_offset st < length (read_buffer st)")
  case False
  with assms show ?thesis
    by (intro that [of "[]" q]) (auto simp: hand_out_def flow_def reader_wf_def)
next
  case True
  define len where "len = min (length (read_buffer st) - read_offset st) (room - length g)"
  define bs where "bs = take len (drop (read_offset st) (read_buffer st))"
  have l: "length bs = len" by (simp add: bs_def len_def)
  have b: "buffered_plaintext st = bs @ drop (read_offset st + len) (read_buffer st)"
    unfolding bs_def buffered_plaintext_def by (metis add.commute append_take_drop_id drop_drop)
  have g': "g' = g @ bs" and st': "st' = (if read_offset st + len < length (read_buffer st)
      then st\<lparr>read_offset := read_offset st + len\<rparr> else st\<lparr>read_offset := 0, read_buffer := []\<rparr>)"
    using assms(2) True by (auto simp: hand_out_def Let_def len_def bs_def split: if_splits)
  have b': "buffered_plaintext st' = drop (read_offset st + len) (read_buffer st)"
    by (auto simp: st' buffered_plaintext_def)
  from assms(1) obtain r where q: "q = buffered_plaintext st @ r" and wf: "reader_wf P st"
    and r: "\<exists>s0 ps xs. paired s0 (noise_recv st) \<and> arrivals (sk_in (socket st)) = Some xs \<and>
        sealed P s0 ps (pending st @ xs @ rest) s1 \<and> r = concat ps"
    unfolding flow_def by blast
  have same: "noise_recv st' = noise_recv st" "socket st' = socket st" "pending st' = pending st"
    by (simp_all add: st' pending_def)
  have "reader_wf P st'" using wf by (simp add: st' reader_wf_def)
  with r have fl: "flow P paired s1 rest st' (buffered_plaintext st' @ r)"
    unfolding flow_def same by blast
  show ?thesis
  proof (rule that [OF g' _ fl])
    show "q = bs @ buffered_plaintext st' @ r" using q b b' by simp
    show "length g' \<le> room" using assms(3) l by (simp add: g' len_def)
    show "length g' = room" if "read_offset st' < length (read_buffer st')"
      using that True assms(3) l by (auto simp: g' st' len_def min_def split: if_splits)
  qed (auto simp: st' pending_def)
qed

text \<open>The end of the stream is seen only when nothing is on its way any more.\<close>

definition fin_ok :: "bytes \<Rightarrow> bool \<Rightarrow> ('s, 'r) snowy \<Rightarrow> bool" where
  "fin_ok rest closed st \<longleftrightarrow> (Fin \<in> set (sk_in (socket st)) \<longrightarrow> rest = [] \<and> closed)"

lemma open_record_flow:
  assumes "noise_ok P paired" "reader_wf P st" "read_buffer st = []"
    and "paired s0 (noise_recv st)" "nz_write P s0 p = Some (c, s')" "p \<noteq> []" "length p \<le> MAXIMUM_PLAINTEXT_LENGTH"
    and "c \<noteq> []" "pending st = tls_record c @ pd'" "arrivals (sk_in (socket st)) = Some xs"
    and "sealed P s' ps (pd' @ xs @ rest) s1"
  shows "\<exists>st'. open_record P g c (5 + length c) st = Inl (g, st') \<and> flow P paired s1 rest st' (p @ concat ps) \<and>
    socket st' = socket st"
proof -
  obtain r' where r: "nz_read P (noise_recv st) c = (Inr p, r')" "paired s' r'"
    by (rule noise_okD [OF assms(1,4,6,7)]) (use assms(5) in auto)
  let ?st = "st\<lparr>pending_read_buffer := copy_down (5 + length c) (pending_read_filled st) (pending_read_buffer st),
    pending_read_filled := pending_read_filled st - (5 + length c), noise_recv := r', read_buffer := p\<rparr>"
  have wf: "length (pending_read_buffer st) = om_max_wire P" "pending_read_filled st \<le> om_max_wire P"
    "read_offset st = 0" "readable (state st)"
    using assms(2,3) by (auto simp: reader_wf_def)
  have "pending ?st = drop (5 + length c) (pending st)"
    using wf by (simp add: pending_def take_copy_down)
  then have pd: "pending ?st = pd'" using assms(9) by (simp add: length_tls_record)
  have "reader_wf P ?st" using wf assms(6) by (simp add: reader_wf_def length_copy_down)
  moreover have "buffered_plaintext ?st = p" using wf by (simp add: buffered_plaintext_def)
  ultimately have "flow P paired s1 rest ?st (p @ concat ps)"
    unfolding flow_def pd using r(2) assms(10,11) by auto
  moreover have "open_record P g c (5 + length c) st = Inl (g, ?st)"
    using r(1) assms(8) by (simp add: open_record_def Let_def)
  ultimately show ?thesis by force
qed

lemma read_socket_flow:
  assumes "reader_wf P st" "read_buffer st = []" "paired s0 (noise_recv st)"
    and "arrivals (sk_in (socket st)) = Some xs" "sealed P s0 ps (pending st @ xs @ rest) s1"
    and "length (pending st) < om_max_wire P" "xs @ rest = [] \<Longrightarrow> ps = [] \<and> pending st = []" "fin_ok rest closed st"
  shows "case read_socket [] st of
      Inl (g, st') \<Rightarrow> g = [] \<and> flow P paired s1 rest st' (concat ps) \<and> fin_ok rest closed st'
    | Inr (Ready (Inr g), st') \<Rightarrow> g = [] \<and> ps = [] \<and> flow P paired s1 rest st' [] \<and> fin_ok rest closed st'
    | Inr (Pending, st') \<Rightarrow> flow P paired s1 rest st' (concat ps) \<and> fin_ok rest closed st' \<and> (rest = [] \<longrightarrow> ps = [])
    | _ \<Rightarrow> False"
proof -
  let ?f = "pending_read_filled st" and ?b = "pending_read_buffer st"
  have wf: "length ?b = om_max_wire P" "?f \<le> om_max_wire P" "read_offset st = 0" "readable (state st)"
    using assms(1,2) by (auto simp: reader_wf_def)
  then have f: "length (pending st) = ?f" by (simp add: pending_def)
  have bp: "buffered_plaintext st = []" using assms(2) by (simp add: buffered_plaintext_def)
  have fl: "flow P paired s1 rest st (concat ps)"
    using assms(1,3,4,5) bp unfolding flow_def by (metis append_Nil)
  show ?thesis
  proof (cases "sk_in (socket st)")
    case Nil
    then have "read_socket [] st = Inr (Pending, st)" by (simp add: read_socket_def)
    with Nil show ?thesis using fl assms(4,7,8) by simp
  next
    case (Cons i ys)
    show ?thesis
    proof (cases i)
      case (Arrives bs)
      with Cons assms(4) obtain zs where bs: "bs \<noteq> []" "xs = bs @ zs" "arrivals ys = Some zs" by (auto split: if_splits)
      define k where "k = length ?b - ?f"
      have "0 < k" using assms(6) wf f by (simp add: k_def)
      define ys' where "ys' = (if length bs \<le> k then ys else Arrives (drop k bs) # ys)"
      let ?st = "st\<lparr>socket := socket st\<lparr>sk_in := ys'\<rparr>, pending_read_buffer := overwrite ?f (take k bs) ?b,
        pending_read_filled := ?f + length (take k bs)\<rparr>"
      have "read_socket [] st = Inl ([], ?st)"
        using Cons Arrives bs(1) \<open>0 < k\<close> by (simp add: read_socket_def Let_def k_def ys'_def del: length_take)
      moreover have pd: "pending ?st = pending st @ take k bs"
        using wf(1,2) by (simp add: pending_def take_overwrite del: length_take)
      have ar: "arrivals ys' = Some (drop k bs @ zs)" using bs by (simp add: ys'_def)
      have "reader_wf P ?st"
        using wf assms(2) by (simp add: reader_wf_def k_def length_overwrite)
      moreover have "sealed P s0 ps (pending ?st @ (drop k bs @ zs) @ rest) s1"
        using assms(5) bs(2) pd by (metis append.assoc append_take_drop_id)
      ultimately have "flow P paired s1 rest ?st (concat ps)"
        unfolding flow_def using assms(2,3) ar
        by (intro conjI exI [of _ s0] exI [of _ ps] exI [of _ "drop k bs @ zs"])
          (simp_all add: buffered_plaintext_def)
      moreover have "fin_ok rest closed ?st" using assms(8) Cons by (auto simp: fin_ok_def ys'_def)
      ultimately show ?thesis using \<open>read_socket [] st = Inl ([], ?st)\<close> by simp
    next
      case Fin
      with Cons assms(4,7,8) have e: "ys = []" "xs = []" "rest = []" "ps = []" "pending st = []"
        by (auto simp: fin_ok_def split: if_splits)
      moreover have "?f = 0" using f e(5) by simp
      ultimately have "read_socket [] st = Inr (Ready (Inr []), st)" using Cons Fin by (simp add: read_socket_def)
      with e show ?thesis using fl assms(8) by simp
    next
      case (ReadFails e)
      with Cons assms(4) show ?thesis by simp
    qed
  qed
qed

text \<open>The invariant of the loop: what was handed out and what is still to be read make up \<open>q0\<close>.\<close>

definition read_so_far :: "('s, 'r) tunnel_params \<Rightarrow> ('s \<Rightarrow> 'r \<Rightarrow> bool) \<Rightarrow> 's \<Rightarrow> bytes \<Rightarrow> bool \<Rightarrow> nat \<Rightarrow> bytes \<Rightarrow>
    bytes \<times> ('s, 'r) snowy \<Rightarrow> bool" where
  "read_so_far P paired s1 rest closed room q0 s \<longleftrightarrow>
     (\<exists>q. q0 = fst s @ q \<and> flow P paired s1 rest (snd s) q) \<and> fin_ok rest closed (snd s) \<and> length (fst s) \<le> room"

lemma read_so_farI:
  "q0 = g @ q \<Longrightarrow> flow P paired s1 rest st q \<Longrightarrow> fin_ok rest closed st \<Longrightarrow> length g \<le> room \<Longrightarrow>
     read_so_far P paired s1 rest closed room q0 (g, st)"
  by (auto simp: read_so_far_def)

lemma read_round_flow:
  assumes "records_ok P" "noise_ok P paired" "read_so_far P paired s1 rest closed room q0 (g, st)"
  shows "case read_round P room (g, st) of
      Inl s' \<Rightarrow> read_so_far P paired s1 rest closed room q0 s'
    | Inr (Ready (Inr g'), st') \<Rightarrow> read_so_far P paired s1 rest closed room q0 (g', st') \<and> (g' = [] \<and> 0 < room \<longrightarrow> q0 = [])
    | Inr (Pending, st') \<Rightarrow> read_so_far P paired s1 rest closed room q0 ([], st') \<and> (rest = [] \<longrightarrow> q0 = [])
    | _ \<Rightarrow> False"
proof -
  from assms(3) obtain q where q: "q0 = g @ q" "flow P paired s1 rest st q" "fin_ok rest closed st" "length g \<le> room"
    by (auto simp: read_so_far_def)
  obtain g1 st1 where h: "hand_out room g st = (g1, st1)" by (metis surj_pair)
  from hand_out_flow [OF q(2) h q(4)] obtain q1 where q1: "q0 = g1 @ q1" "flow P paired s1 rest st1 q1" "length g1 \<le> room"
    "socket st1 = socket st"
    and more1: "read_offset st1 < length (read_buffer st1) \<Longrightarrow> length g1 = room"
    and none: "\<not> read_offset st1 < length (read_buffer st1) \<Longrightarrow> read_buffer st1 = []"
    using q(1) by (metis append.assoc)
  have fin: "fin_ok rest closed st1" using q(3) q1(4) by (simp add: fin_ok_def)
  note so_far = read_so_farI [OF q1(1,2) fin q1(3)]
  show ?thesis
  proof (cases "read_offset st1 < length (read_buffer st1)")
    case True
    then show ?thesis using h so_far more1 by (auto simp: read_round_def)
  next
    case False
    from none [OF this] have rb: "read_buffer st1 = []" "buffered_plaintext st1 = []"
      by (simp_all add: buffered_plaintext_def)
    from q1(2) obtain s0 ps xs where fl: "reader_wf P st1" "paired s0 (noise_recv st1)"
      "arrivals (sk_in (socket st1)) = Some xs" "sealed P s0 ps (pending st1 @ xs @ rest) s1" "q1 = concat ps"
      using rb(2) by (auto simp: flow_def)
    from sealed_parse [OF assms(1) fl(4)] show ?thesis
    proof (elim disjE exE conjE)
      fix p ps' c s' pd'
      assume *: "ps = p # ps'" "p \<noteq> []" "length p \<le> MAXIMUM_PLAINTEXT_LENGTH" "c \<noteq> []"
        "nz_write P s0 p = Some (c, s')" "pending st1 = tls_record c @ pd'"
        "om_read P (pending st1) = Opaque c (5 + length c)" "sealed P s' ps' (pd' @ xs @ rest) s1"
      from open_record_flow [OF assms(2) fl(1) rb(1) fl(2) *(5,2,3,4,6) fl(3) *(8), of g1]
      obtain st' where o: "open_record P g1 c (5 + length c) st1 = Inl (g1, st')"
        and f: "flow P paired s1 rest st' (p @ concat ps')" and sk: "socket st' = socket st1" by blast
      have "read_round P room (g, st) = Inl (g1, st')"
        using h False *(7) o by (simp add: read_round_def pending_def)
      moreover have "read_so_far P paired s1 rest closed room q0 (g1, st')"
        using q1(1,3) fl(5) *(1) f fin sk by (intro read_so_farI) (simp_all add: fin_ok_def)
      ultimately show ?thesis by simp
    next
      assume *: "om_read P (pending st1) = TooShort" "length (pending st1) < om_max_wire P"
        "xs @ rest = [] \<longrightarrow> ps = [] \<and> pending st1 = []"
      then have r: "read_round P room (g, st) =
          (if g1 \<noteq> [] then Inr (Ready (Inr g1), st1) else read_socket [] st1)"
        using h False by (simp add: read_round_def pending_def)
      show ?thesis
      proof (cases "g1 = []")
        case True
        with read_socket_flow [of P st1 paired s0 xs ps rest s1 closed] fl(1) rb(1) fl(2-4) *(2) fin *(3) q1(1) fl(5) r
        show ?thesis
          by (auto simp: read_so_far_def split: sum.splits outcome.splits)
      next
        case False
        with r so_far show ?thesis by simp
      qed
    qed
  qed
qed

text \<open>A whole call of \<open>poll_read\<close>.\<close>

lemma poll_read_flow:
  assumes "records_ok P" "noise_ok P paired" "flow P paired s1 rest st q" "fin_ok rest closed st"
    and "poll_read P room st = Some (r, st')"
  shows "(\<exists>bs q'. r = Ready (Inr bs) \<and> q = bs @ q' \<and> length bs \<le> room \<and> flow P paired s1 rest st' q' \<and>
      fin_ok rest closed st' \<and> (bs = [] \<and> 0 < room \<longrightarrow> q = [])) \<or>
    r = Pending \<and> flow P paired s1 rest st' q \<and> fin_ok rest closed st' \<and> (rest = [] \<longrightarrow> q = [])"
proof -
  let ?I = "read_so_far P paired s1 rest closed room q"
  have "run_loop (read_round P room) ([], st) = Some (r, st')"
    using assms(3,5) by (simp add: poll_read_def flow_def reader_wf_def)
  then obtain s where "?I s" and s: "read_round P room s = Inr (r, st')"
  proof (rule run_loop_invariant [where I = ?I, THEN exE])
    show "?I ([], st)" using assms(3,4) by (auto simp: read_so_far_def)
  next
    fix s s'
    assume "?I s" "read_round P room s = Inl s'"
    with read_round_flow [OF assms(1,2), of s1 rest closed room q "fst s" "snd s"] show "?I s'" by simp
  qed auto
  with read_round_flow [OF assms(1,2), of s1 rest closed room q "fst s" "snd s"]
  have "case (r, st') of
      (Ready (Inr g'), st') \<Rightarrow> ?I (g', st') \<and> (g' = [] \<and> 0 < room \<longrightarrow> q = [])
    | (Pending, st') \<Rightarrow> ?I ([], st') \<and> (rest = [] \<longrightarrow> q = [])
    | _ \<Rightarrow> False" by simp
  then show ?thesis
    by (auto simp: read_so_far_def split: outcome.splits sum.splits)
qed

section \<open>Writing\<close>

definition unsent :: "('s, 'r) snowy \<Rightarrow> bytes" where
  "unsent st = sk_out (socket st) @ drop (write_offset st) (write_buffer st)"

text \<open>Pushing the write buffer to the socket moves bytes from one to the other.\<close>

lemma push_cases:
  obtains (taken) n sk where "socket_poll_write (drop (write_offset st) (write_buffer st)) (socket st) = (Ready (Inr n), sk)"
    "unsent (st\<lparr>socket := sk, write_offset := write_offset st + n\<rparr>) = unsent st"
    "n \<le> length (write_buffer st) - write_offset st" "sk_fin sk = sk_fin (socket st)" "sk_in sk = sk_in (socket st)"
    "\<exists>k. shd (sk_answers (socket st)) = Takes k \<and> n = min k (length (write_buffer st) - write_offset st)"
    "sk_answers sk = stl (sk_answers (socket st))"
  | (refused) res sk where "socket_poll_write (drop (write_offset st) (write_buffer st)) (socket st) = (res, sk)"
    "res = Pending \<or> (\<exists>e. res = Ready (Inl e))" "unsent (st\<lparr>socket := sk\<rparr>) = unsent st"
    "sk_fin sk = sk_fin (socket st)" "sk_in sk = sk_in (socket st)"
proof (cases "shd (sk_answers (socket st))")
  case (Takes k)
  have "take k (drop i b) @ drop (i + min k (length b - i)) b = drop i b" for i and b :: bytes
    using append_take_drop_id [of k "drop i b"]
    by (cases "k \<le> length b - i") (simp_all add: add.commute)
  then show ?thesis
    using Takes
    by (intro taken [of "min k (length (write_buffer st) - write_offset st)" "socket st\<lparr>sk_answers := stl (sk_answers (socket st)),
        sk_out := sk_out (socket st) @ take k (drop (write_offset st) (write_buffer st))\<rparr>"])
      (auto simp: socket_poll_write_def unsent_def)
next
  case (WriteFails e)
  then show ?thesis
    by (intro refused [of _ "socket st\<lparr>sk_answers := stl (sk_answers (socket st))\<rparr>"])
      (auto simp: socket_poll_write_def unsent_def)
next
  case NotReady
  then show ?thesis
    by (intro refused [of _ "socket st\<lparr>sk_answers := stl (sk_answers (socket st))\<rparr>"])
      (auto simp: socket_poll_write_def unsent_def)
qed

text \<open>A piece that is encrypted next comes after what is already on its way.\<close>

lemma flow_snoc:
  assumes "noise_ok P paired" "flow P paired s1 rest st q" "p \<noteq> []" "length p \<le> MAXIMUM_PLAINTEXT_LENGTH"
  obtains c s2 where "nz_write P s1 p = Some (c, s2)" "flow P paired s2 (rest @ tls_record c) st (q @ p)"
proof -
  from assms(2) obtain s0 ps xs where f: "reader_wf P st" "paired s0 (noise_recv st)"
    "arrivals (sk_in (socket st)) = Some xs" "sealed P s0 ps (pending st @ xs @ rest) s1"
    "q = buffered_plaintext st @ concat ps"
    by (auto simp: flow_def)
  from sealed_paired [OF f(4) assms(1) f(2)] obtain r1 where "paired s1 r1" by blast
  from noise_okD [OF assms(1) this assms(3,4)] obtain c s2 where c: "nz_write P s1 p = Some (c, s2)"
    "length c = length p + 16" by blast
  from sealed_snoc [OF f(4) assms(3,4) c] f have "flow P paired s2 (rest @ tls_record c) st (q @ p)"
    unfolding flow_def by (auto intro!: exI [of _ s0] exI [of _ "ps @ [p]"])
  with c(1) show ?thesis by (rule that)
qed

definition written_so_far :: "('s, 'r) tunnel_params \<Rightarrow> ('s \<Rightarrow> 'r \<Rightarrow> bool) \<Rightarrow> ('s, 'r) snowy \<Rightarrow> bytes \<Rightarrow> bytes \<Rightarrow>
    nat \<times> ('s, 'r) snowy \<Rightarrow> bool" where
  "written_so_far P paired B buf q s \<longleftrightarrow>
     fst s \<le> length buf \<and> \<not> sk_fin (socket (snd s)) \<and>
     flow P paired (noise_send (snd s)) (unsent (snd s)) B (q @ take (fst s) buf)"

lemma write_round_flow:
  assumes "noise_ok P paired" "written_so_far P paired B buf q (offset, st)"
  shows "case write_round P buf (offset, st) of
      Inl s' \<Rightarrow> written_so_far P paired B buf q s'
    | Inr (Ready (Inr n), st') \<Rightarrow> written_so_far P paired B buf q (n, st') \<and> (n = 0 \<longrightarrow> buf = [])
    | Inr (Ready (Inl e), st') \<Rightarrow> \<exists>n. written_so_far P paired B buf q (n, st')
    | Inr (Pending, st') \<Rightarrow> written_so_far P paired B buf q (0, st')
    | Inr (Panics m, st') \<Rightarrow> False"
proof (cases "write_offset st < length (write_buffer st)")
  case True
  show ?thesis
  proof (cases st rule: push_cases)
    case (taken n sk)
    let ?st = "st\<lparr>socket := sk, write_offset := write_offset st + n\<rparr>"
    have w: "written_so_far P paired B buf q (offset, ?st)"
      "written_so_far P paired B buf q (offset, ?st\<lparr>state := shutdown_write (state st)\<rparr>)"
      using assms(2) taken(2,4) by (auto simp: written_so_far_def unsent_def)
    show ?thesis
    proof (cases "n = 0")
      case True
      then show ?thesis using \<open>write_offset st < length (write_buffer st)\<close> taken(1) w(2)
        by (auto simp: write_round_def Let_def)
    next
      case False
      then show ?thesis using \<open>write_offset st < length (write_buffer st)\<close> taken(1) w(1)
        by (auto simp: write_round_def Let_def)
    qed
  next
    case (refused res sk)
    have "written_so_far P paired B buf q (offset, st\<lparr>socket := sk\<rparr>)"
      using assms(2) refused(3,4) by (simp add: written_so_far_def)
    with True refused(1,2) show ?thesis by (auto simp: write_round_def Let_def)
  qed
next
  case False
  let ?st = "st\<lparr>write_offset := 0, write_buffer := []\<rparr>"
  have w: "offset \<le> length buf" "\<not> sk_fin (socket st)"
    and fl: "flow P paired (noise_send st) (unsent ?st) B (q @ take offset buf)"
    using assms(2) False by (simp_all add: written_so_far_def unsent_def)
  show ?thesis
  proof (cases "offset = length buf")
    case True
    with False w fl show ?thesis by (simp add: write_round_def written_so_far_def)
  next
    case nonempty: False
    define len where "len = min (length buf - offset) MAXIMUM_PLAINTEXT_LENGTH"
    let ?p = "take len (drop offset buf)"
    have "?p \<noteq> []" "length ?p \<le> MAXIMUM_PLAINTEXT_LENGTH" using nonempty w(1) by (auto simp: len_def)
    from flow_snoc [OF assms(1) fl this] obtain c s2 where c: "nz_write P (noise_send st) ?p = Some (c, s2)"
      and f: "flow P paired s2 (unsent ?st @ tls_record c) B ((q @ take offset buf) @ ?p)" by blast
    have "write_round P buf (offset, st) = Inl (offset + len, ?st\<lparr>noise_send := s2, write_buffer := tls_record c\<rparr>)"
      using False nonempty c by (simp add: write_round_def Let_def len_def)
    moreover have "written_so_far P paired B buf q
        (offset + len, ?st\<lparr>noise_send := s2, write_buffer := tls_record c\<rparr>)"
      using w f nonempty by (simp add: written_so_far_def unsent_def take_add len_def)
    ultimately show ?thesis by simp
  qed
qed

lemma poll_write_flow:
  assumes "noise_ok P paired" "flow P paired (noise_send A) (unsent A) B q"
    and "sk_fin (socket A) \<Longrightarrow> \<not> writeable (state A)" "poll_write P buf A = Some (r, A')"
  shows "\<exists>n \<le> length buf. flow P paired (noise_send A') (unsent A') B (q @ take n buf) \<and>
    (writeable (state A) \<longrightarrow> \<not> sk_fin (socket A')) \<and> (\<not> writeable (state A) \<longrightarrow> A' = A) \<and>
    (r = Ready (Inr n) \<and> (n = 0 \<and> writeable (state A) \<longrightarrow> buf = []) \<or> r = Pending \<and> n = 0 \<or> (\<exists>e. r = Ready (Inl e)))"
proof (cases "writeable (state A)")
  case False
  with assms(2,4) show ?thesis by (auto simp: poll_write_def intro!: exI [of _ 0])
next
  case True
  let ?I = "written_so_far P paired B buf q"
  have "run_loop (write_round P buf) (0, A) = Some (r, A')" using assms(4) True by (simp add: poll_write_def)
  then obtain s where "?I s" "write_round P buf s = Inr (r, A')"
  proof (rule run_loop_invariant [where I = ?I, THEN exE])
    show "?I (0, A)" using assms(2,3) True by (auto simp: written_so_far_def)
  next
    fix s s'
    assume "?I s" "write_round P buf s = Inl s'"
    with write_round_flow [OF assms(1), of B buf q "fst s" "snd s"] show "?I s'" by simp
  qed auto
  with write_round_flow [OF assms(1), of B buf q "fst s" "snd s"]
  have "case (r, A') of
      (Ready (Inr n), st') \<Rightarrow> ?I (n, st') \<and> (n = 0 \<longrightarrow> buf = [])
    | (Ready (Inl e), st') \<Rightarrow> \<exists>n. ?I (n, st')
    | (Pending, st') \<Rightarrow> ?I (0, st')
    | (Panics m, st') \<Rightarrow> False" by simp
  with True show ?thesis
    by (auto simp: written_so_far_def split: outcome.splits sum.splits)
qed

text \<open>What flushing leaves as it was.\<close>

definition flush_keeps :: "('s, 'r) snowy \<Rightarrow> ('s, 'r) snowy \<Rightarrow> bool" where
  "flush_keeps A A' \<longleftrightarrow>
     unsent A' = unsent A \<and> noise_send A' = noise_send A \<and> state A' = state A \<and>
     sk_fin (socket A') = sk_fin (socket A) \<and>
     (drop (write_offset A) (write_buffer A) = [] \<longrightarrow> drop (write_offset A') (write_buffer A') = [])"

lemma flush_round_keeps:
  assumes "flush_keeps A st"
  shows "case flush_round st of
      Inl st' \<Rightarrow> flush_keeps A st'
    | Inr (Ready (Inr u), st') \<Rightarrow> flush_keeps A st' \<and> write_buffer st' = []
    | Inr (Panics m, st') \<Rightarrow> False
    | Inr (_, st') \<Rightarrow> flush_keeps A st'"
proof (cases "write_offset st < length (write_buffer st)")
  case True
  show ?thesis
  proof (cases st rule: push_cases)
    case (taken n sk)
    have "flush_keeps A (st\<lparr>socket := sk, write_offset := write_offset st + n\<rparr>)"
      using assms taken(2,4) by (auto simp: flush_keeps_def)
    with True taken(1) show ?thesis by (simp add: flush_round_def)
  next
    case (refused res sk)
    have "flush_keeps A (st\<lparr>socket := sk\<rparr>)" using assms refused(3,4) by (simp add: flush_keeps_def)
    with True refused(1,2) show ?thesis by (auto simp: flush_round_def)
  qed
next
  case False
  with assms have "flush_keeps A (st\<lparr>write_offset := 0, write_buffer := []\<rparr>)"
    by (simp add: flush_keeps_def unsent_def)
  with False show ?thesis by (simp add: flush_round_def)
qed

lemma poll_flush_keeps:
  assumes "poll_flush A = Some (r, A')"
  shows "flush_keeps A A' \<and> (\<forall>u. r = Ready (Inr u) \<longrightarrow> write_buffer A' = []) \<and> (\<forall>m. r \<noteq> Panics m)"
proof -
  from assms have "run_loop flush_round A = Some (r, A')" by (simp add: poll_flush_def)
  then obtain st where "flush_keeps A st" "flush_round st = Inr (r, A')"
  proof (rule run_loop_invariant [where I = "flush_keeps A", THEN exE])
    show "flush_keeps A A" by (simp add: flush_keeps_def)
  next
    fix s s'
    assume "flush_keeps A s" "flush_round s = Inl s'"
    with flush_round_keeps [of A s] show "flush_keeps A s'" by simp
  qed auto
  with flush_round_keeps [of A st] show ?thesis by (auto split: outcome.splits sum.splits)
qed

section \<open>The two directions are independent\<close>

definition reader_part where
  "reader_part st = (noise_recv st, pending_read_buffer st, pending_read_filled st, read_buffer st,
     read_offset st, sk_in (socket st), readable (state st))"

definition writer_part where
  "writer_part st = (noise_send st, write_buffer st, write_offset st, sk_out (socket st),
     sk_fin (socket st), writeable (state st))"

lemma shutdown_other [simp]:
  "readable (shutdown_write s) = readable s" "writeable (shutdown_read s) = writeable s"
  "\<not> writeable (shutdown_write s)" "\<not> readable (shutdown_read s)"
  by (cases s; simp)+

lemma flow_cong: "reader_part st = reader_part st' \<Longrightarrow> flow P paired s1 rest st q = flow P paired s1 rest st' q"
  by (simp add: flow_def reader_wf_def reader_part_def pending_def buffered_plaintext_def)

lemma hand_out_writer: "writer_part (snd (hand_out room g st)) = writer_part st"
  by (simp add: hand_out_def writer_part_def Let_def)

lemma open_record_writer:
  "case open_record P g c n st of
     Inl s' \<Rightarrow> writer_part (snd s') = writer_part st | Inr r \<Rightarrow> writer_part (snd r) = writer_part st"
  by (auto simp: open_record_def writer_part_def Let_def split: prod.splits sum.splits)

lemma read_socket_writer:
  "case read_socket g st of
     Inl s' \<Rightarrow> writer_part (snd s') = writer_part st | Inr r \<Rightarrow> writer_part (snd r) = writer_part st"
  by (auto simp: read_socket_def writer_part_def Let_def simp del: writeable.simps readable.simps
      split: prod.splits sum.splits outcome.splits)

lemma read_round_writer:
  "case read_round P room s of
     Inl s' \<Rightarrow> writer_part (snd s') = writer_part (snd s) | Inr r \<Rightarrow> writer_part (snd r) = writer_part (snd s)"
proof -
  obtain g st where h: "hand_out room (fst s) (snd s) = (g, st)" by (metis surj_pair)
  have w: "writer_part st = writer_part (snd s)" using hand_out_writer [of room "fst s" "snd s"] h by simp
  show ?thesis
  proof (cases "read_offset st < length (read_buffer st)")
    case True
    with h w show ?thesis by (simp add: read_round_def)
  next
    case False
    show ?thesis
    proof (cases "om_read P (take (pending_read_filled st) (pending_read_buffer st))")
      case (Opaque c n)
      with h False w open_record_writer [where P = P and g = g and c = c and n = n and st = st]
      show ?thesis by (auto simp: read_round_def split: sum.splits)
    next
      case TooShort
      with h False w read_socket_writer [where g = g and st = st]
      show ?thesis by (auto simp: read_round_def split: sum.splits)
    next
      case BadFrame
      with h False w show ?thesis
        by (simp add: read_round_def writer_part_def del: writeable.simps readable.simps)
    qed
  qed
qed

lemma poll_read_writer:
  assumes "poll_read P room st = Some (r, st')"
  shows "writer_part st' = writer_part st"
proof (cases "readable (state st)")
  case True
  with assms have "run_loop (read_round P room) ([], st) = Some (r, st')" by (simp add: poll_read_def)
  then obtain s where "writer_part (snd s) = writer_part st" "read_round P room s = Inr (r, st')"
  proof (rule run_loop_invariant [where I = "\<lambda>s. writer_part (snd s) = writer_part st", THEN exE])
    fix s s'
    assume "writer_part (snd s) = writer_part st" "read_round P room s = Inl s'"
    with read_round_writer [where P = P and room = room and s = s] show "writer_part (snd s') = writer_part st"
      by simp
  qed auto
  with read_round_writer [where P = P and room = room and s = s] show ?thesis by simp
next
  case False
  with assms show ?thesis by (simp add: poll_read_def)
qed

lemma socket_poll_write_in: "sk_in (snd (socket_poll_write bs sk)) = sk_in sk"
  by (simp add: socket_poll_write_def Let_def split: sock_answer.splits)

lemma write_round_reader:
  "case write_round P buf s of
     Inl s' \<Rightarrow> reader_part (snd s') = reader_part (snd s) | Inr r \<Rightarrow> reader_part (snd r) = reader_part (snd s)"
proof -
  obtain offset st where s: "s = (offset, st)" by (metis surj_pair)
  obtain res sk where p: "socket_poll_write (drop (write_offset st) (write_buffer st)) (socket st) = (res, sk)"
    by (metis surj_pair)
  with socket_poll_write_in [of "drop (write_offset st) (write_buffer st)" "socket st"]
  have "sk_in sk = sk_in (socket st)" by simp
  with p show ?thesis
    by (auto simp: write_round_def s reader_part_def Let_def simp del: writeable.simps readable.simps
        split: outcome.splits sum.splits option.splits)
qed

lemma poll_write_reader:
  assumes "poll_write P buf st = Some (r, st')"
  shows "reader_part st' = reader_part st"
proof (cases "writeable (state st)")
  case True
  with assms have "run_loop (write_round P buf) (0, st) = Some (r, st')" by (simp add: poll_write_def)
  then obtain s where "reader_part (snd s) = reader_part st" "write_round P buf s = Inr (r, st')"
  proof (rule run_loop_invariant [where I = "\<lambda>s. reader_part (snd s) = reader_part st", THEN exE])
    fix s s'
    assume "reader_part (snd s) = reader_part st" "write_round P buf s = Inl s'"
    with write_round_reader [where P = P and buf = buf and s = s] show "reader_part (snd s') = reader_part st"
      by simp
  qed auto
  with write_round_reader [where P = P and buf = buf and s = s] show ?thesis by simp
next
  case False
  with assms show ?thesis by (simp add: poll_write_def)
qed

lemma flush_round_reader:
  "case flush_round st of Inl st' \<Rightarrow> reader_part st' = reader_part st | Inr r \<Rightarrow> reader_part (snd r) = reader_part st"
proof -
  obtain res sk where p: "socket_poll_write (drop (write_offset st) (write_buffer st)) (socket st) = (res, sk)"
    by (metis surj_pair)
  with socket_poll_write_in [of "drop (write_offset st) (write_buffer st)" "socket st"]
  have "sk_in sk = sk_in (socket st)" by simp
  with p show ?thesis
    by (auto simp: flush_round_def reader_part_def Let_def simp del: writeable.simps readable.simps
        split: outcome.splits sum.splits)
qed

lemma poll_flush_reader:
  assumes "poll_flush st = Some (r, st')"
  shows "reader_part st' = reader_part st"
proof -
  from assms have "run_loop flush_round st = Some (r, st')" by (simp add: poll_flush_def)
  then obtain s where "reader_part s = reader_part st" "flush_round s = Inr (r, st')"
  proof (rule run_loop_invariant [where I = "\<lambda>s. reader_part s = reader_part st", THEN exE])
    fix s s'
    assume "reader_part s = reader_part st" "flush_round s = Inl s'"
    with flush_round_reader [where st = s] show "reader_part s' = reader_part st" by simp
  qed auto
  with flush_round_reader [where st = s] show ?thesis by simp
qed

text \<open>Shutting down flushes; only when that is complete the socket is closed.\<close>

lemma poll_shutdown_flush:
  assumes "poll_shutdown A = Some (r, A')"
  obtains A1 r1 where "poll_flush (A\<lparr>state := if writeable (state A) then shutdown_write (state A) else state A\<rparr>) = Some (r1, A1)"
    and "A' = A1 \<and> r = r1 \<and> (\<forall>u. r1 \<noteq> Ready (Inr u)) \<or>
      r1 = Ready (Inr ()) \<and> (A' = A1\<lparr>socket := socket A1\<lparr>sk_fin := True\<rparr>\<rparr> \<or> A' = A1)"
proof -
  let ?A = "A\<lparr>state := if writeable (state A) then shutdown_write (state A) else state A\<rparr>"
  have eq: "(if writeable (state A) then A\<lparr>state := shutdown_write (state A)\<rparr> else A) = ?A" by simp
  with assms obtain r1 A1 where f: "poll_flush ?A = Some (r1, A1)"
    by (auto simp: poll_shutdown_def Let_def simp del: writeable.simps split: option.splits)
  show ?thesis
  proof (cases "\<exists>u. r1 = Ready (Inr u)")
    case True
    with assms f eq show ?thesis
      by (intro that [OF f])
        (auto simp: poll_shutdown_def socket_poll_shutdown_def Let_def simp del: writeable.simps split: option.splits)
  next
    case False
    with assms f eq show ?thesis
      by (intro that [OF f])
        (auto simp: poll_shutdown_def Let_def simp del: writeable.simps split: outcome.splits sum.splits)
  qed
qed

lemma poll_shutdown_reader:
  assumes "poll_shutdown st = Some (r, st')"
  shows "reader_part st' = reader_part st"
proof -
  from poll_shutdown_flush [OF assms] obtain A1 r1
    where f: "poll_flush (st\<lparr>state := if writeable (state st) then shutdown_write (state st) else state st\<rparr>) = Some (r1, A1)"
      and st': "st' = A1 \<or> st' = A1\<lparr>socket := socket A1\<lparr>sk_fin := True\<rparr>\<rparr>" by blast
  from poll_flush_reader [OF f] have "reader_part A1 = reader_part st"
    by (simp add: reader_part_def del: writeable.simps readable.simps)
  with st' show ?thesis by (auto simp: reader_part_def)
qed

section \<open>The tunnel as a byte pipe\<close>

text \<open>
  The steps of a tunnel, seen in the direction from \<open>A\<close> to \<open>B\<close>: the calls of the application at either
  end, with any answers of the sockets, and the network moving bytes and the end of the stream from \<open>A\<close>
  to \<open>B\<close>. The other direction may do anything.
\<close>

abbreviation (input) with_answers :: "sock_answer stream \<Rightarrow> ('s, 'r) snowy \<Rightarrow> ('s, 'r) snowy" where
  "with_answers ans st \<equiv> st\<lparr>socket := socket st\<lparr>sk_answers := ans\<rparr>\<rparr>"

inductive tunnel_step :: "('s, 'r) tunnel_params \<Rightarrow> ('s, 'r) snowy \<times> ('s, 'r) snowy \<Rightarrow> pipe_event \<Rightarrow>
    ('s, 'r) snowy \<times> ('s, 'r) snowy \<Rightarrow> bool" for P where
  tun_write: "poll_write P buf (with_answers ans A) = Some (Ready (Inr n), A') \<Longrightarrow>
    tunnel_step P (A, B) (Wrote (take n buf)) (A', B)"
| tun_write_waits: "poll_write P buf (with_answers ans A) = Some (Pending, A') \<Longrightarrow>
    tunnel_step P (A, B) Internal (A', B)"
| tun_write_failed: "poll_write P buf (with_answers ans A) = Some (Ready (Inl e), A') \<Longrightarrow>
    tunnel_step P (A, B) (WriteFailed buf) (A', B)"
| tun_write_panics: "poll_write P buf (with_answers ans A) = Some (Panics m, A') \<Longrightarrow>
    tunnel_step P (A, B) Broken (A', B)"
| tun_flush: "poll_flush (with_answers ans A) = Some (r, A') \<Longrightarrow> tunnel_step P (A, B) Internal (A', B)"
| tun_shutdown: "poll_shutdown (with_answers ans A) = Some (r, A') \<Longrightarrow> tunnel_step P (A, B) Internal (A', B)"
| tun_deliver: "sk_out (socket A) = xs @ ys \<Longrightarrow> xs \<noteq> [] \<Longrightarrow>
    tunnel_step P (A, B) Internal (A\<lparr>socket := socket A\<lparr>sk_out := ys\<rparr>\<rparr>,
      B\<lparr>socket := socket B\<lparr>sk_in := sk_in (socket B) @ [Arrives xs]\<rparr>\<rparr>)"
| tun_fin: "sk_fin (socket A) \<Longrightarrow> sk_out (socket A) = [] \<Longrightarrow> Fin \<notin> set (sk_in (socket B)) \<Longrightarrow>
    tunnel_step P (A, B) Internal (A, B\<lparr>socket := socket B\<lparr>sk_in := sk_in (socket B) @ [Fin]\<rparr>\<rparr>)"
| tun_read: "poll_read P room B = Some (Ready (Inr bs), B') \<Longrightarrow> tunnel_step P (A, B) (Got bs) (A, B')"
| tun_read_waits: "poll_read P room B = Some (Pending, B') \<Longrightarrow> tunnel_step P (A, B) Internal (A, B')"
| tun_read_failed: "poll_read P room B = Some (Ready (Inl e), B') \<Longrightarrow> tunnel_step P (A, B) Broken (A, B')"
| tun_read_panics: "poll_read P room B = Some (Panics m, B') \<Longrightarrow> tunnel_step P (A, B) Broken (A, B')"
| tun_back_read: "poll_read P room A = Some (r, A') \<Longrightarrow> tunnel_step P (A, B) Internal (A', B)"
| tun_back_write: "poll_write P buf (with_answers ans B) = Some (w, B') \<Longrightarrow> tunnel_step P (A, B) Internal (A, B')"
| tun_back_flush: "poll_flush (with_answers ans B) = Some (f, B') \<Longrightarrow> tunnel_step P (A, B) Internal (A, B')"
| tun_back_shutdown: "poll_shutdown (with_answers ans B) = Some (f, B') \<Longrightarrow> tunnel_step P (A, B) Internal (A, B')"
| tun_back_net: "tunnel_step P (A, B) Internal (A\<lparr>socket := socket A\<lparr>sk_in := sis\<rparr>\<rparr>, B\<lparr>socket := socket B\<lparr>sk_out := os\<rparr>\<rparr>)"

inductive_cases tunnel_step_cases:
  "tunnel_step P c (Wrote bs) c'" "tunnel_step P c (WriteFailed bs) c'" "tunnel_step P c (Got bs) c'"
  "tunnel_step P c Broken c'" "tunnel_step P c Internal c'"

definition tunnel_holds :: "('s, 'r) tunnel_params \<Rightarrow> ('s \<Rightarrow> 'r \<Rightarrow> bool) \<Rightarrow>
    ('s, 'r) snowy \<times> ('s, 'r) snowy \<Rightarrow> bytes \<Rightarrow> bool" where
  "tunnel_holds P paired c q \<longleftrightarrow>
     (case c of (A, B) \<Rightarrow>
       records_ok P \<and> noise_ok P paired \<and> flow P paired (noise_send A) (unsent A) B q \<and>
       fin_ok (unsent A) (sk_fin (socket A)) B \<and>
       (sk_fin (socket A) \<longrightarrow> \<not> writeable (state A) \<and> drop (write_offset A) (write_buffer A) = []))"

lemma tunnel_holds_cong:
  assumes "tunnel_holds P paired (A, B) q" "writer_part A' = writer_part A" "reader_part B' = reader_part B"
  shows "tunnel_holds P paired (A', B') q"
  using assms flow_cong [OF assms(3)]
  by (simp add: tunnel_holds_def fin_ok_def writer_part_def reader_part_def unsent_def
      del: writeable.simps readable.simps)

lemma tunnel_write:
  assumes "tunnel_holds P paired (A, B) q" "poll_write P buf (with_answers ans A) = Some (r, A')"
  shows "\<exists>n. tunnel_holds P paired (A', B) (q @ take n buf) \<and>
    (r = Ready (Inr n) \<or> r = Pending \<and> n = 0 \<or> (\<exists>e. r = Ready (Inl e)))"
proof -
  let ?A = "with_answers ans A"
  have h: "tunnel_holds P paired (?A, B) q"
    by (rule tunnel_holds_cong [OF assms(1)]) (simp_all add: writer_part_def)
  then have "noise_ok P paired" "flow P paired (noise_send ?A) (unsent ?A) B q"
    "sk_fin (socket ?A) \<Longrightarrow> \<not> writeable (state ?A)"
    by (simp_all add: tunnel_holds_def del: writeable.simps)
  from poll_write_flow [OF this assms(2)] obtain n where
    n: "flow P paired (noise_send A') (unsent A') B (q @ take n buf)"
      "writeable (state A) \<longrightarrow> \<not> sk_fin (socket A')" "\<not> writeable (state A) \<longrightarrow> A' = ?A"
      "r = Ready (Inr n) \<or> r = Pending \<and> n = 0 \<or> (\<exists>e. r = Ready (Inl e))"
    by (auto simp del: writeable.simps)
  have "tunnel_holds P paired (A', B) (q @ take n buf)"
  proof (cases "writeable (state A)")
    case True
    with h n(1,2) show ?thesis by (auto simp: tunnel_holds_def fin_ok_def simp del: writeable.simps)
  next
    case False
    with h n(1,3) show ?thesis by (auto simp: tunnel_holds_def simp del: writeable.simps)
  qed
  with n(4) show ?thesis by blast
qed

lemma tunnel_flush:
  assumes "tunnel_holds P paired (A, B) q" "flush_keeps A A'"
  shows "tunnel_holds P paired (A', B) q"
  using assms by (auto simp: tunnel_holds_def flush_keeps_def simp del: writeable.simps)

lemma tunnel_shutdown:
  assumes "tunnel_holds P paired (A, B) q" "poll_shutdown (with_answers ans A) = Some (r, A')"
  shows "tunnel_holds P paired (A', B) q"
proof -
  let ?A0 = "with_answers ans A"
  let ?A = "?A0\<lparr>state := if writeable (state ?A0) then shutdown_write (state ?A0) else state ?A0\<rparr>"
  have h: "tunnel_holds P paired (?A, B) q"
    using assms(1) by (auto simp: tunnel_holds_def unsent_def simp del: writeable.simps)
  from poll_shutdown_flush [OF assms(2)] obtain A1 r1 where f: "poll_flush ?A = Some (r1, A1)"
    and A': "A' = A1 \<or> r1 = Ready (Inr ()) \<and> A' = A1\<lparr>socket := socket A1\<lparr>sk_fin := True\<rparr>\<rparr>"
    by blast
  note k = poll_flush_keeps [OF f]
  then have h1: "tunnel_holds P paired (A1, B) q" using tunnel_flush [OF h] by blast
  have "\<not> writeable (state A1)" using k by (simp add: flush_keeps_def del: writeable.simps)
  with h1 k A' show ?thesis
    by (auto simp: tunnel_holds_def unsent_def fin_ok_def simp del: writeable.simps)
qed

lemma tunnel_deliver:
  assumes "tunnel_holds P paired (A, B) q" "sk_out (socket A) = xs @ ys" "xs \<noteq> []"
  shows "tunnel_holds P paired (A\<lparr>socket := socket A\<lparr>sk_out := ys\<rparr>\<rparr>,
    B\<lparr>socket := socket B\<lparr>sk_in := sk_in (socket B) @ [Arrives xs]\<rparr>\<rparr>) q"
proof -
  have nf: "Fin \<notin> set (sk_in (socket B))"
    using assms by (auto simp: tunnel_holds_def fin_ok_def unsent_def)
  let ?B = "B\<lparr>socket := socket B\<lparr>sk_in := sk_in (socket B) @ [Arrives xs]\<rparr>\<rparr>"
  from assms(1) obtain s0 ps zs where f: "reader_wf P B" "paired s0 (noise_recv B)" "arrivals (sk_in (socket B)) = Some zs"
    "sealed P s0 ps (pending B @ zs @ unsent A) (noise_send A)" "q = buffered_plaintext B @ concat ps"
    by (auto simp: tunnel_holds_def flow_def)
  have "arrivals (sk_in (socket ?B)) = Some (zs @ xs)"
    using arrivals_append [OF f(3) nf] assms(3) by simp
  moreover have "unsent A = xs @ unsent (A\<lparr>socket := socket A\<lparr>sk_out := ys\<rparr>\<rparr>)"
    using assms(2) by (simp add: unsent_def)
  ultimately have "flow P paired (noise_send A) (unsent (A\<lparr>socket := socket A\<lparr>sk_out := ys\<rparr>\<rparr>)) ?B q"
    using f by (auto simp: flow_def reader_wf_def pending_def buffered_plaintext_def)
  with assms(1) nf show ?thesis by (auto simp: tunnel_holds_def fin_ok_def simp del: writeable.simps)
qed

lemma tunnel_fin:
  assumes "tunnel_holds P paired (A, B) q" "sk_fin (socket A)" "sk_out (socket A) = []" "Fin \<notin> set (sk_in (socket B))"
  shows "tunnel_holds P paired (A, B\<lparr>socket := socket B\<lparr>sk_in := sk_in (socket B) @ [Fin]\<rparr>\<rparr>) q"
proof -
  let ?B = "B\<lparr>socket := socket B\<lparr>sk_in := sk_in (socket B) @ [Fin]\<rparr>\<rparr>"
  have u: "unsent A = []" using assms by (simp add: tunnel_holds_def unsent_def)
  have "arrivals (sk_in (socket ?B)) = arrivals (sk_in (socket B))"
    using assms(1) arrivals_append [of "sk_in (socket B)" _ "[Fin]"] assms(4)
    by (auto simp: tunnel_holds_def flow_def)
  then have "flow P paired (noise_send A) (unsent A) ?B q"
    using assms(1) by (simp add: tunnel_holds_def flow_def reader_wf_def pending_def buffered_plaintext_def)
  with assms(1,2) u show ?thesis by (simp add: tunnel_holds_def fin_ok_def del: writeable.simps)
qed

lemma tunnel_read:
  assumes "tunnel_holds P paired (A, B) q" "poll_read P room B = Some (r, B')"
  shows "(\<exists>bs q'. r = Ready (Inr bs) \<and> q = bs @ q' \<and> tunnel_holds P paired (A, B') q' \<and>
      (bs = [] \<and> 0 < room \<longrightarrow> q = [])) \<or>
    r = Pending \<and> tunnel_holds P paired (A, B') q \<and> (unsent A = [] \<longrightarrow> q = [])"
proof -
  from assms(1) have "records_ok P" "noise_ok P paired" "flow P paired (noise_send A) (unsent A) B q" "fin_ok (unsent A) (sk_fin (socket A)) B"
    by (simp_all add: tunnel_holds_def)
  from poll_read_flow [OF this assms(2)] assms(1) show ?thesis
    by (auto simp: tunnel_holds_def simp del: writeable.simps)
qed

interpretation snowy_pipe: byte_pipe "tunnel_step P" "tunnel_holds P paired" for P paired
proof unfold_locales
  fix c q bs c'
  assume h: "tunnel_holds P paired c q" and "tunnel_step P c (Wrote bs) c'"
  from this(2) show "tunnel_holds P paired c' (q @ bs)"
    by (elim tunnel_step_cases) (use h tunnel_write in fastforce)
next
  fix c q bs c'
  assume h: "tunnel_holds P paired c q" and "tunnel_step P c (WriteFailed bs) c'"
  from this(2) show "\<exists>k. tunnel_holds P paired c' (q @ take k bs)"
    by (elim tunnel_step_cases) (use h tunnel_write in blast)
next
  fix c q bs c'
  assume h: "tunnel_holds P paired c q" and "tunnel_step P c (Got bs) c'"
  from this(2) show "\<exists>q'. q = bs @ q' \<and> tunnel_holds P paired c' q'"
    by (elim tunnel_step_cases) (use h tunnel_read in fastforce)
next
  fix c q c'
  assume h: "tunnel_holds P paired c q"
  show "\<not> tunnel_step P c Broken c'"
  proof
    assume "tunnel_step P c Broken c'"
    then show False
      by (elim tunnel_step_cases) (use h tunnel_write tunnel_read in fastforce)+
  qed
next
  fix c q c'
  assume h: "tunnel_holds P paired c q" and "tunnel_step P c Internal c'"
  have cong: "tunnel_holds P paired (A', B') q"
    if "c = (A, B)" "writer_part A' = writer_part A" "reader_part B' = reader_part B" for A B A' B'
    using h that tunnel_holds_cong by blast
  from \<open>tunnel_step P c Internal c'\<close> show "tunnel_holds P paired c' q"
  proof (elim tunnel_step_cases)
    fix buf ans A A' B
    assume "c = (A, B)" "c' = (A', B)" "poll_write P buf (with_answers ans A) = Some (Pending, A')"
    with h tunnel_write [of P paired A B q buf ans Pending A'] show ?thesis by simp
  next
    fix ans A r A' B
    assume *: "c = (A, B)" "c' = (A', B)" "poll_flush (with_answers ans A) = Some (r, A')"
    from cong [OF *(1), of "with_answers ans A" B] have "tunnel_holds P paired (with_answers ans A, B) q"
      by (simp add: writer_part_def)
    with poll_flush_keeps [OF *(3)] *(2) show ?thesis by (auto intro: tunnel_flush)
  next
    fix ans A r A' B
    assume "c = (A, B)" "c' = (A', B)" "poll_shutdown (with_answers ans A) = Some (r, A')"
    with h tunnel_shutdown show ?thesis by blast
  next
    fix A xs ys B
    assume "c = (A, B)" "sk_out (socket A) = xs @ ys" "xs \<noteq> []"
      "c' = (A\<lparr>socket := socket A\<lparr>sk_out := ys\<rparr>\<rparr>, B\<lparr>socket := socket B\<lparr>sk_in := sk_in (socket B) @ [Arrives xs]\<rparr>\<rparr>)"
    with h tunnel_deliver show ?thesis by blast
  next
    fix A B
    assume "c = (A, B)" "sk_fin (socket A)" "sk_out (socket A) = []" "Fin \<notin> set (sk_in (socket B))"
      "c' = (A, B\<lparr>socket := socket B\<lparr>sk_in := sk_in (socket B) @ [Fin]\<rparr>\<rparr>)"
    with h tunnel_fin show ?thesis by blast
  next
    fix room B B' A
    assume "c = (A, B)" "c' = (A, B')" "poll_read P room B = Some (Pending, B')"
    with h tunnel_read [of P paired A B q room Pending B'] show ?thesis by simp
  next
    fix room A r A' B
    assume "c = (A, B)" "c' = (A', B)" "poll_read P room A = Some (r, A')"
    with cong poll_read_writer show ?thesis by blast
  next
    fix buf ans B w B' A
    assume "c = (A, B)" "c' = (A, B')" "poll_write P buf (with_answers ans B) = Some (w, B')"
    with poll_write_reader [of P buf _ w B'] cong [of A B A B'] show ?thesis by (simp add: reader_part_def)
  next
    fix ans B f B' A
    assume "c = (A, B)" "c' = (A, B')" "poll_flush (with_answers ans B) = Some (f, B')"
    with poll_flush_reader [of _ f B'] cong [of A B A B'] show ?thesis by (simp add: reader_part_def)
  next
    fix ans B f B' A
    assume "c = (A, B)" "c' = (A, B')" "poll_shutdown (with_answers ans B) = Some (f, B')"
    with poll_shutdown_reader [of _ f B'] cong [of A B A B'] show ?thesis by (simp add: reader_part_def)
  next
    fix A B sis os
    assume "c = (A, B)"
      "c' = (A\<lparr>socket := socket A\<lparr>sk_in := sis\<rparr>\<rparr>, B\<lparr>socket := socket B\<lparr>sk_out := os\<rparr>\<rparr>)"
    with cong show ?thesis by (simp add: writer_part_def reader_part_def)
  qed
qed

section \<open>Properties\<close>

lemma tunnel_new:
  assumes "records_ok P" "noise_ok P paired" "paired s r'" "sk_out ioA = []" "\<not> sk_fin ioA" "sk_in ioB = []"
  shows "tunnel_holds P paired (snowy_new P ioA s r, snowy_new P ioB s' r') []"
proof -
  have "pending (snowy_new P ioB s' r') @ [] @ unsent (snowy_new P ioA s r) = []"
    using assms(4) by (simp add: pending_def unsent_def snowy_new_def)
  then have "sealed P s [] (pending (snowy_new P ioB s' r') @ [] @ unsent (snowy_new P ioA s r)) s"
    by (simp only: sealed_Nil)
  then have "flow P paired s (unsent (snowy_new P ioA s r)) (snowy_new P ioB s' r') []"
    unfolding flow_def using assms(3,6)
    by (intro conjI exI [of _ s] exI [of _ "[]"])
      (simp_all add: reader_wf_def buffered_plaintext_def snowy_new_def uninit_bytes_def)
  then show ?thesis
    using assms by (simp add: tunnel_holds_def fin_ok_def) (simp add: snowy_new_def)
qed

text \<open>
  C1. The tunnel implements the byte-stream contract. In every run of two fresh streams, with calls of
  any sizes at both ends, any answers of the sockets and any division of the stream by TCP, no read
  fails, no call panics, and what the reader has got is a beginning of what the writer has written.
\<close>

theorem tunnel_refines_pipe:
  assumes "records_ok P" "noise_ok P paired" "paired s r'" "sk_out ioA = []" "\<not> sk_fin ioA" "sk_in ioB = []"
    and "pipe_run (tunnel_step P) (snowy_new P ioA s r, snowy_new P ioB s' r') es c"
  shows "Broken \<notin> set es \<and> (\<exists>sent q. sent \<in> sends es \<and> sent = received es @ q)"
  using snowy_pipe.run_delivers [OF assms(7) tunnel_new [OF assms(1-6)]] by auto

text \<open>
  C15. Nothing is held back. When everything the writer has handed over has left its buffer and arrived,
  the next \<open>poll_read\<close> returns, and gives at least one byte unless the reader has got everything.
\<close>

theorem tunnel_delivers:
  assumes "records_ok P" "noise_ok P paired" "paired s r'" "sk_out ioA = []" "\<not> sk_fin ioA" "sk_in ioB = []"
    and "pipe_run (tunnel_step P) (snowy_new P ioA s r, snowy_new P ioB s' r') es (A, B)"
    and "om_progress P" "sk_out (socket A) = []" "write_buffer A = []" "0 < room"
  shows "\<exists>sent q. sent \<in> sends es \<and> sent = received es @ q \<and>
    (q = [] \<or> (\<exists>bs q' B'. bs \<noteq> [] \<and> q = bs @ q' \<and> poll_read P room B = Some (Ready (Inr bs), B')))"
proof -
  from snowy_pipe.run_delivers [OF assms(7) tunnel_new [OF assms(1-6)]] obtain sent q where
    s: "sent \<in> sends es" "tunnel_holds P paired (A, B) q" "sent = received es @ q" by auto
  have u: "unsent A = []" using assms(9,10) by (simp add: unsent_def)
  obtain r B' where r: "poll_read P room B = Some (r, B')" using poll_read_returns [OF assms(8)] by fast
  from tunnel_read [OF s(2) r] u assms(11) r
  have "q = [] \<or> (\<exists>bs q' B'. bs \<noteq> [] \<and> q = bs @ q' \<and> poll_read P room B = Some (Ready (Inr bs), B'))"
    by auto
  with s show ?thesis by blast
qed

text \<open>A run of the sample tunnel: two bytes are written, delivered in two pieces and read.\<close>

lemma sample_records_ok: "records_ok sample_tunnel"
  by (simp add: records_ok_def sample_tunnel_def parse_record_whole parse_record_short)

lemma sample_noise_ok: "noise_ok sample_tunnel (=)"
  by (simp add: noise_ok_def sample_tunnel_def)

abbreviation (input) sample_end :: "(nat, nat) snowy" where
  "sample_end \<equiv> snowy_new sample_tunnel sample_socket 0 0"

definition sample_record :: bytes where
  "sample_record = tls_record ([1, 2] @ replicate 16 0)"

lemma sample_write:
  "poll_write sample_tunnel [1, 2] sample_end =
     Some (Ready (Inr 2), sample_end\<lparr>socket := sample_socket\<lparr>sk_out := sample_record\<rparr>, noise_send := 1\<rparr>)"
proof -
  let ?w = "write_round sample_tunnel [1, 2]"
  let ?s1 = "sample_end\<lparr>noise_send := 1, write_buffer := sample_record\<rparr>"
  let ?s2 = "?s1\<lparr>socket := sample_socket\<lparr>sk_out := sample_record\<rparr>, write_offset := length sample_record\<rparr>"
  have l: "length sample_record = 23" by (simp add: sample_record_def length_tls_record)
  have "?w (0, sample_end) = Inl (2, ?s1)"
    by (simp add: write_round_def snowy_new_def sample_record_def sample_tunnel_def)
  moreover have "?w (2, ?s1) = Inl (2, ?s2)"
    using l by (simp add: write_round_def snowy_new_def socket_poll_write_def sample_socket_def)
  moreover have "?w (2, ?s2) = Inr (Ready (Inr 2), sample_end\<lparr>socket := sample_socket\<lparr>sk_out := sample_record\<rparr>, noise_send := 1\<rparr>)"
    using l by (simp add: write_round_def snowy_new_def)
  ultimately show ?thesis
    by (simp add: poll_write_def run_loop_round) (simp add: snowy_new_def)
qed

abbreviation (input) sample_reader :: "(nat, nat) snowy" where
  "sample_reader \<equiv> sample_end\<lparr>socket := sample_socket\<lparr>sk_in := [Arrives sample_record]\<rparr>\<rparr>"

lemma sample_read: "\<exists>st. poll_read sample_tunnel 10 sample_reader = Some (Ready (Inr [1, 2]), st)"
proof -
  let ?r = "read_round sample_tunnel 10" and ?b = "uninit_bytes sample_tunnel 18437"
  let ?s1 = "sample_end\<lparr>pending_read_buffer := overwrite 0 sample_record ?b, pending_read_filled := 23\<rparr>"
  let ?s2 = "?s1\<lparr>pending_read_buffer := copy_down 23 23 (overwrite 0 sample_record ?b), pending_read_filled := 0,
    noise_recv := 1, read_buffer := [1, 2]\<rparr>"
  let ?s3 = "?s2\<lparr>read_buffer := []\<rparr>"
  have l: "length sample_record = 23" "sample_record \<noteq> []" by (simp_all add: sample_record_def tls_record_def)
  have om: "om_read sample_tunnel [] = TooShort" "om_read sample_tunnel sample_record = Opaque ([1, 2] @ replicate 16 0) 23"
    using parse_record_whole [of "[1, 2] @ replicate 16 0" "[]"]
    by (simp_all add: sample_tunnel_def parse_record_def [of "[]"] sample_record_def)
  have w: "om_max_wire sample_tunnel = 18437" "length ?b = 18437" by (simp_all add: sample_tunnel_def uninit_bytes_def)
  have nz: "nz_read sample_tunnel 0 ([1, 2] @ replicate 16 0) = (Inr [1, 2], 1)" by (simp add: sample_tunnel_def)
  have "?r ([], sample_reader) = Inl ([], ?s1)"
    using l om w by (simp add: read_round_def hand_out_def read_socket_def snowy_new_def sample_socket_def)
  moreover have "?r ([], ?s1) = Inl ([], ?s2)"
    using take_overwrite [of 0 ?b sample_record] l om nz
    by (simp add: read_round_def hand_out_def open_record_def snowy_new_def)
  moreover have "?r ([], ?s2) = Inr (Ready (Inr [1, 2]), ?s3)"
    using om by (simp add: read_round_def hand_out_def snowy_new_def)
  ultimately have "run_loop ?r ([], sample_reader) = Some (Ready (Inr [1, 2]), ?s3)"
    by (simp only: run_loop_round)
  then show ?thesis by (simp add: poll_read_def) (simp add: snowy_new_def)
qed

lemma sample_tunnel_run:
  "pipe_run (tunnel_step sample_tunnel) (sample_end, sample_end) [Wrote [1, 2], Internal]
     (sample_end\<lparr>noise_send := 1\<rparr>, sample_reader)"
proof -
  let ?A = "sample_end\<lparr>socket := sample_socket\<lparr>sk_out := sample_record\<rparr>, noise_send := 1\<rparr>"
  have sk: "sample_socket\<lparr>sk_answers := sconst (Takes 1000)\<rparr> = sample_socket"
    "sample_socket\<lparr>sk_out := []\<rparr> = sample_socket" "sk_in sample_socket = []" "socket sample_end = sample_socket"
    by (simp_all add: sample_socket_def snowy_new_def)
  have se: "sample_end\<lparr>socket := sample_socket\<rparr> = sample_end" by (simp add: snowy_new_def)
  have "tunnel_step sample_tunnel (sample_end, sample_end) (Wrote (take 2 [1, 2])) (?A, sample_end)"
    by (rule tun_write [of _ _ "sconst (Takes 1000)"]) (simp add: sk se sample_write)
  moreover have "tunnel_step sample_tunnel (?A, sample_end) Internal
      (?A\<lparr>socket := socket ?A\<lparr>sk_out := []\<rparr>\<rparr>, sample_end\<lparr>socket := socket sample_end\<lparr>sk_in := sk_in (socket sample_end) @ [Arrives sample_record]\<rparr>\<rparr>)"
    by (rule tun_deliver) (simp_all add: sample_record_def tls_record_def)
  then have "tunnel_step sample_tunnel (?A, sample_end) Internal (sample_end\<lparr>noise_send := 1\<rparr>, sample_reader)"
    by (simp add: sk) (simp add: snowy_new_def)
  ultimately show ?thesis by (auto intro: pipe_run.intros)
qed

theorem tunnel_refines_pipe_witness:
  "\<exists>c. pipe_run (tunnel_step sample_tunnel) (sample_end, sample_end) [Wrote [1, 2], Internal, Got [1, 2]] c \<and>
     (\<exists>sent q. sent \<in> sends [Wrote [1, 2], Internal, Got [1, 2]] \<and> sent = [1, 2] @ q)"
proof -
  obtain st where "poll_read sample_tunnel 10 sample_reader = Some (Ready (Inr [1, 2]), st)"
    using sample_read by blast
  then have g: "tunnel_step sample_tunnel (sample_end\<lparr>noise_send := 1\<rparr>, sample_reader) (Got [1, 2])
      (sample_end\<lparr>noise_send := 1\<rparr>, st)" by (rule tun_read)
  have "pipe_run (tunnel_step sample_tunnel) (sample_end, sample_end) [Wrote [1, 2], Internal, Got [1, 2]]
      (sample_end\<lparr>noise_send := 1\<rparr>, st)"
    using pipe_run_snoc [OF sample_tunnel_run g] by simp
  with tunnel_refines_pipe [OF sample_records_ok sample_noise_ok _ _ _ _ this] show ?thesis
    by (auto simp: sample_socket_def)
qed

theorem tunnel_delivers_witness:
  "\<exists>bs B'. bs \<noteq> [] \<and> poll_read sample_tunnel 1 sample_reader = Some (Ready (Inr bs), B')"
  using tunnel_delivers [OF sample_records_ok sample_noise_ok _ _ _ _ sample_tunnel_run sample_progress, of 1]
  by (auto simp: sample_socket_def snowy_new_def)

end
