(* ===== verification/SnowyWf.thy ===== *)
theory SnowyWf
  imports Snowy
begin

text \<open>
  Well-formedness of the encrypted stream of \<open>tunnel/src/common.rs\<close>: the cursors into its three buffers stay
  in range, so that the slices \<open>[..filled]\<close>, \<open>[filled..]\<close> and \<open>[offset..]\<close> that the code takes exist, whatever the
  peer sends and however the socket behaves.
\<close>

section \<open>Well-formed streams\<close>

definition snowy_wf :: "('s, 'r) tunnel_params \<Rightarrow> ('s, 'r) snowy \<Rightarrow> bool" where
  "snowy_wf P st \<longleftrightarrow>
     length (pending_read_buffer st) = om_max_wire P \<and> pending_read_filled st \<le> om_max_wire P \<and>
     (read_offset st < length (read_buffer st) \<or> read_offset st = 0) \<and> write_offset st \<le> length (write_buffer st)"

lemma snowy_wf_new: "snowy_wf P (snowy_new P io s r)"
  by (simp add: snowy_wf_def snowy_new_def uninit_bytes_def)

lemma snowy_wf_socket [simp]: "snowy_wf P (st\<lparr>socket := sk\<rparr>) = snowy_wf P st"
  and snowy_wf_state [simp]: "snowy_wf P (st\<lparr>state := x\<rparr>) = snowy_wf P st"
  by (simp_all add: snowy_wf_def)

lemma hand_out_wf:
  assumes "hand_out room got st = (got', st')" "snowy_wf P st" "length got \<le> room"
  shows "snowy_wf P st' \<and> length got' \<le> room"
  using assms by (auto simp: hand_out_def snowy_wf_def Let_def split: if_splits)

lemma socket_poll_read_bound:
  "socket_poll_read cap xs = (Ready (Inr bs), xs') \<Longrightarrow> length bs \<le> cap"
  by (cases "(cap, xs)" rule: socket_poll_read.cases) (auto split: if_splits)

lemma socket_poll_write_bound:
  "socket_poll_write bs sk = (Ready (Inr n), sk') \<Longrightarrow> n \<le> length bs"
  by (auto simp: socket_poll_write_def Let_def split: sock_answer.splits)

lemma read_socket_wf:
  assumes "snowy_wf P st"
  shows "(case read_socket got st of Inl (got', st') \<Rightarrow> got' = got \<and> snowy_wf P st'
     | Inr (r, st') \<Rightarrow> snowy_wf P st' \<and> (\<forall>bs. r = Ready (Inr bs) \<longrightarrow> bs = got))"
proof -
  obtain res xs where q: "socket_poll_read (length (pending_read_buffer st) - pending_read_filled st) (sk_in (socket st)) = (res, xs)"
    by (metis surj_pair)
  show ?thesis
  proof (cases "\<exists>bs. res = Ready (Inr bs)")
    case True
    then obtain bs where bs: "res = Ready (Inr bs)" by blast
    with socket_poll_read_bound q have "length bs \<le> length (pending_read_buffer st) - pending_read_filled st" by metis
    with q bs assms show ?thesis
      by (auto simp: read_socket_def snowy_wf_def length_overwrite Let_def)
  next
    case False
    with q assms show ?thesis by (auto simp: read_socket_def Let_def split: outcome.splits sum.splits)
  qed
qed

lemma open_record_wf:
  assumes "snowy_wf P st" "n \<le> pending_read_filled st" "read_offset st = 0"
  shows "(case open_record P got payload n st of Inl (got', st') \<Rightarrow> got' = got \<and> snowy_wf P st'
     | Inr (r, st') \<Rightarrow> snowy_wf P st' \<and> (\<forall>bs. r \<noteq> Ready (Inr bs)))"
  using assms
  by (auto simp: open_record_def snowy_wf_def length_copy_down Let_def split: prod.splits sum.splits)

lemma read_round_wf:
  assumes "om_progress P" "snowy_wf P (snd s)" "length (fst s) \<le> room"
  shows "(case read_round P room s of Inl s' \<Rightarrow> snowy_wf P (snd s') \<and> length (fst s') \<le> room
     | Inr (r, st') \<Rightarrow> snowy_wf P st' \<and> (\<forall>bs. r = Ready (Inr bs) \<longrightarrow> length bs \<le> room))"
proof -
  obtain got st where h: "hand_out room (fst s) (snd s) = (got, st)" by (metis surj_pair)
  from hand_out_wf [OF this assms(2,3)] have w: "snowy_wf P st" "length got \<le> room" by simp_all
  show ?thesis
  proof (cases "read_offset st < length (read_buffer st)")
    case True
    with h w show ?thesis by (simp add: read_round_def)
  next
    case False
    with w(1) have z: "read_offset st = 0" by (simp add: snowy_wf_def)
    show ?thesis
    proof (cases "om_read P (take (pending_read_filled st) (pending_read_buffer st))")
      case (Opaque pl n)
      with assms(1) w(1) have "n \<le> pending_read_filled st" by (force simp: om_progress_def snowy_wf_def)
      from open_record_wf [OF w(1) this z, of got pl] h False Opaque w(2) show ?thesis
        by (auto simp: read_round_def split: sum.splits prod.splits)
    next
      case TooShort
      with read_socket_wf [OF w(1), of got] h False w show ?thesis
        by (auto simp: read_round_def split: sum.splits prod.splits)
    next
      case BadFrame
      with h False w show ?thesis by (simp add: read_round_def)
    qed
  qed
qed

lemma poll_read_wf:
  assumes "om_progress P" "snowy_wf P st" "poll_read P room st = Some (r, st')"
  shows "snowy_wf P st' \<and> (\<forall>bs. r = Ready (Inr bs) \<longrightarrow> length bs \<le> room)"
proof (cases "readable (state st)")
  case True
  let ?I = "\<lambda>s. snowy_wf P (snd s) \<and> length (fst s) \<le> room"
  have "run_loop (read_round P room) ([], st) = Some (r, st')" using True assms(3) by (simp add: poll_read_def)
  then obtain s where s: "?I s" "read_round P room s = Inr (r, st')"
  proof (rule run_loop_invariant [where I = ?I, THEN exE])
    show "?I s2" if "?I s1" "read_round P room s1 = Inl s2" for s1 s2
      using read_round_wf [OF assms(1), of s1 room] that by simp
  qed (use assms(2) in auto)
  with read_round_wf [OF assms(1), of s room] show ?thesis by simp
qed (use assms in \<open>auto simp: poll_read_def\<close>)

lemma write_round_wf:
  assumes "snowy_wf P (snd s)" "fst s \<le> length buf"
  shows "(case write_round P buf s of Inl s' \<Rightarrow> snowy_wf P (snd s') \<and> fst s' \<le> length buf
     | Inr (r, st') \<Rightarrow> snowy_wf P st' \<and> (\<forall>n. r = Ready (Inr n) \<longrightarrow> n \<le> length buf))"
proof -
  obtain off st where s: "s = (off, st)" by (cases s)
  show ?thesis
  proof (cases "write_offset st < length (write_buffer st)")
    case True
    obtain res sk where q: "socket_poll_write (drop (write_offset st) (write_buffer st)) (socket st) = (res, sk)"
      by (metis surj_pair)
    show ?thesis
    proof (cases "\<exists>n. res = Ready (Inr n)")
      case True
      then obtain n where n: "res = Ready (Inr n)" by blast
      with socket_poll_write_bound q have "n \<le> length (drop (write_offset st) (write_buffer st))" by metis
      with q n s assms \<open>write_offset st < length (write_buffer st)\<close> show ?thesis
        by (auto simp: write_round_def snowy_wf_def Let_def)
    next
      case False
      with q s assms \<open>write_offset st < length (write_buffer st)\<close> show ?thesis
        by (auto simp: write_round_def Let_def split: outcome.splits sum.splits)
    qed
  next
    case False
    with s assms show ?thesis
      by (auto simp: write_round_def snowy_wf_def Let_def split: option.splits)
  qed
qed

lemma poll_write_wf:
  assumes "snowy_wf P st" "poll_write P buf st = Some (r, st')"
  shows "snowy_wf P st' \<and> (\<forall>n. r = Ready (Inr n) \<longrightarrow> n \<le> length buf)"
proof (cases "writeable (state st)")
  case True
  let ?I = "\<lambda>s. snowy_wf P (snd s) \<and> fst s \<le> length buf"
  have "run_loop (write_round P buf) (0, st) = Some (r, st')" using True assms(2) by (simp add: poll_write_def)
  then obtain s where s: "?I s" "write_round P buf s = Inr (r, st')"
  proof (rule run_loop_invariant [where I = ?I, THEN exE])
    show "?I s2" if "?I s1" "write_round P buf s1 = Inl s2" for s1 s2
      using write_round_wf [of P s1 buf] that by simp
  qed (use assms(1) in auto)
  with write_round_wf [of P s buf] show ?thesis by simp
qed (use assms in \<open>auto simp: poll_write_def\<close>)

lemma flush_round_wf:
  assumes "snowy_wf P st"
  shows "(case flush_round st of Inl st' \<Rightarrow> snowy_wf P st' | Inr (r, st') \<Rightarrow> snowy_wf P st')"
proof -
  obtain res sk where q: "socket_poll_write (drop (write_offset st) (write_buffer st)) (socket st) = (res, sk)"
    by (metis surj_pair)
  show ?thesis
  proof (cases "\<exists>n. res = Ready (Inr n)")
    case True
    then obtain n where n: "res = Ready (Inr n)" by blast
    with socket_poll_write_bound q have "n \<le> length (drop (write_offset st) (write_buffer st))" by metis
    with q n assms show ?thesis by (auto simp: flush_round_def snowy_wf_def Let_def)
  next
    case False
    with q assms show ?thesis
      by (auto simp: flush_round_def Let_def snowy_wf_def split: outcome.splits sum.splits)
  qed
qed

lemma poll_flush_wf:
  assumes "snowy_wf P st" "poll_flush st = Some (r, st')"
  shows "snowy_wf P st'"
proof -
  have "run_loop flush_round st = Some (r, st')" using assms(2) by (simp add: poll_flush_def)
  then obtain s where s: "snowy_wf P s" "flush_round s = Inr (r, st')"
  proof (rule run_loop_invariant [where I = "snowy_wf P", THEN exE])
    show "snowy_wf P s2" if "snowy_wf P s1" "flush_round s1 = Inl s2" for s1 s2
      using flush_round_wf [of P s1] that by simp
  qed (use assms(1) in auto)
  with flush_round_wf [of P s] show ?thesis by simp
qed

lemma poll_shutdown_wf:
  assumes "snowy_wf P st" "poll_shutdown st = Some (r, st')"
  shows "snowy_wf P st'"
proof -
  let ?st = "if writeable (state st) then st\<lparr>state := shutdown_write (state st)\<rparr> else st"
  have w: "snowy_wf P ?st" using assms(1) by simp
  from assms(2) obtain q st1 where f: "poll_flush ?st = Some (q, st1)"
    by (auto simp: poll_shutdown_def Let_def split: option.splits)
  from poll_flush_wf [OF w f] have "snowy_wf P st1" .
  moreover from assms(2) f have "st' = st1 \<or> (\<exists>sk. st' = st1\<lparr>socket := sk\<rparr>)"
    unfolding poll_shutdown_def Let_def by (auto split: outcome.splits sum.splits prod.splits)
  ultimately show ?thesis by auto
qed

section \<open>Properties\<close>

text \<open>
  The streams that come about from a new one by any polls, between which anything may happen to the
  socket.
\<close>

inductive snowy_reach :: "('s, 'r) tunnel_params \<Rightarrow> ('s, 'r) snowy \<Rightarrow> bool" for P where
  new: "snowy_reach P (snowy_new P io s r)"
| network: "snowy_reach P st \<Longrightarrow> snowy_reach P (st\<lparr>socket := sk\<rparr>)"
| reads: "snowy_reach P st \<Longrightarrow> poll_read P room st = Some (q, st') \<Longrightarrow> snowy_reach P st'"
| writes: "snowy_reach P st \<Longrightarrow> poll_write P buf st = Some (q', st') \<Longrightarrow> snowy_reach P st'"
| flushes: "snowy_reach P st \<Longrightarrow> poll_flush st = Some (u, st') \<Longrightarrow> snowy_reach P st'"
| shuts: "snowy_reach P st \<Longrightarrow> poll_shutdown st = Some (u, st') \<Longrightarrow> snowy_reach P st'"

lemma snowy_reach_wf:
  assumes "snowy_reach P st" "om_progress P"
  shows "snowy_wf P st"
  using assms(1)
  by induction (auto intro: snowy_wf_new dest: poll_read_wf [OF assms(2)] poll_write_wf poll_flush_wf poll_shutdown_wf)

text \<open>
  C14. The encrypted stream stays well formed. Whatever the peer sends, whatever fails and however the socket
  behaves, after any sequence of polls the cursors lie within their buffers and the buffer for records keeps its
  size, so that no slice the code takes is out of range; and a poll never puts more into the caller's buffer than fits,
  nor reports more bytes written than it was given.
\<close>

theorem snowy_well_formed:
  assumes "om_progress P" "snowy_reach P st"
  shows "pending_read_filled st \<le> length (pending_read_buffer st) \<and> length (pending_read_buffer st) = om_max_wire P \<and>
    read_offset st \<le> length (read_buffer st) \<and> write_offset st \<le> length (write_buffer st) \<and>
    (\<forall>room bs st'. poll_read P room st = Some (Ready (Inr bs), st') \<longrightarrow> length bs \<le> room) \<and>
    (\<forall>buf n st'. poll_write P buf st = Some (Ready (Inr n), st') \<longrightarrow> n \<le> length buf)"
proof -
  from snowy_reach_wf [OF assms(2,1)] have w: "snowy_wf P st" .
  then show ?thesis
    using poll_read_wf [OF assms(1) w] poll_write_wf [OF w] by (auto simp: snowy_wf_def)
qed

text \<open>The first two bytes of a record have arrived, and the stream waits for more.\<close>

abbreviation (input) half_read :: "(nat, nat) snowy" where
  "half_read \<equiv> snowy_new sample_tunnel (sample_socket\<lparr>sk_in := [Arrives [0x17, 0x03]]\<rparr>) 0 0"

lemma half_read_waits:
  "\<exists>st. poll_read sample_tunnel 10 half_read = Some (Pending, st) \<and> pending_read_filled st = 2"
proof -
  let ?b = "uninit_bytes sample_tunnel 18437"
  let ?s1 = "half_read\<lparr>socket := sample_socket, pending_read_buffer := overwrite 0 [0x17, 0x03] ?b, pending_read_filled := 2\<rparr>"
  have w: "om_max_wire sample_tunnel = 18437" "length ?b = 18437" by (simp_all add: sample_tunnel_def uninit_bytes_def)
  have om: "om_read sample_tunnel [] = TooShort" "om_read sample_tunnel [0x17, 0x03] = TooShort"
    by (simp_all add: sample_tunnel_def parse_record_def)
  have t: "take 2 (overwrite 0 [0x17, 0x03] ?b) = [0x17, 0x03]" by (simp add: overwrite_def)
  have "read_round sample_tunnel 10 ([], half_read) = Inl ([], ?s1)"
    using om w by (simp add: read_round_def hand_out_def read_socket_def snowy_new_def sample_socket_def)
  moreover have "read_round sample_tunnel 10 ([], ?s1) = Inr (Pending, ?s1)"
    using om t by (simp add: read_round_def hand_out_def read_socket_def snowy_new_def sample_socket_def)
  ultimately have "run_loop (read_round sample_tunnel 10) ([], half_read) = Some (Pending, ?s1)"
    by (simp only: run_loop_round)
  then show ?thesis by (simp add: poll_read_def) (simp add: snowy_new_def)
qed

theorem snowy_well_formed_witness:
  "\<exists>st. poll_read sample_tunnel 10 half_read = Some (Pending, st) \<and> pending_read_filled st = 2 \<and>
     pending_read_filled st \<le> length (pending_read_buffer st) \<and> length (pending_read_buffer st) = 18437"
proof -
  from half_read_waits obtain st where
    st: "poll_read sample_tunnel 10 half_read = Some (Pending, st)" "pending_read_filled st = 2" by blast
  have "snowy_reach sample_tunnel st" by (rule snowy_reach.reads [OF snowy_reach.new st(1)])
  from snowy_well_formed [OF sample_progress this]
  have "pending_read_filled st \<le> length (pending_read_buffer st)" "length (pending_read_buffer st) = om_max_wire sample_tunnel"
    by blast+
  moreover have "om_max_wire sample_tunnel = 18437" by (simp add: sample_tunnel_def)
  ultimately show ?thesis using st by metis
qed

end
