(* ===== verification/SessionLoop.thy ===== *)
theory SessionLoop
  imports ServerRelay Lifecycle Opt
begin

text \<open>
  \<open>shuttle/src/server/session_loop.rs\<close>: the loop of one reusable session on the server. The operations
  of \<open>SessionLoop\<close> are actions on \<open>SessionContext\<close>. What comes from outside (which branch of a
  \<open>select!\<close> wins, the clock, the shutdown flag, the target of a request) is a list of events, one per
  iteration, so the theorems hold for every schedule.
\<close>

section \<open>The session\<close>

text \<open>\<open>aux_relayed\<close> is auxiliary, the code has no such field: it records the requests that were handed to the relay.\<close>

record session_context =
  ctx_stream :: conn
  ctx_state :: session_state
  request_count :: nat
  ctx_created_at :: instant
  last_activity :: instant
  aux_relayed :: "(byte \<times> byte \<times> bytes \<times> u16) list"

fun close_reason_code :: "close_reason \<Rightarrow> byte" where
  "close_reason_code ClientClose = 0x01"
| "close_reason_code ClientInitiated = 0x01"
| "close_reason_code ServerClose = 0x02"
| "close_reason_code ServerError = 0x02"
| "close_reason_code IdleTimeout = 0x03"
| "close_reason_code MaxAgeExceeded = 0x04"
| "close_reason_code MaxRequestsExceeded = 0x05"
| "close_reason_code MaxRequestsReached = 0x05"
| "close_reason_code KeepaliveTimeout = 0x06"
| "close_reason_code ProtocolError = 0x07"
| "close_reason_code VersionMismatch = 0x08"
| "close_reason_code ShutdownDrain = 0x09"
| "close_reason_code close_reason.CheckoutFailed = 0x0a"
| "close_reason_code close_reason.Poisoned = 0x0b"

definition elapsed_at_least :: "instant \<Rightarrow> instant \<Rightarrow> duration \<Rightarrow> bool" where
  "elapsed_at_least now past d = (if now \<ge> past then now - past \<ge> d else False)"

definition expired_limit :: "reuse_config \<Rightarrow> session_context \<Rightarrow> instant \<Rightarrow> close_reason option" where
  "expired_limit cfg ctx now =
     (if request_count ctx \<ge> max_requests cfg then Some MaxRequestsReached
      else if elapsed_at_least now (ctx_created_at ctx) (max_age cfg) then Some MaxAgeExceeded
      else if elapsed_at_least now (last_activity ctx) (idle_timeout cfg) then Some IdleTimeout
      else None)"

definition on_stream :: "(conn, 'e, 'a) action \<Rightarrow> (session_context, 'e, 'a) action" where
  "on_stream = zoom ctx_stream (\<lambda>c ctx. ctx\<lparr>ctx_stream := c\<rparr>) id"

definition set_state :: "session_state \<Rightarrow> (session_context, 'e, unit) action" where
  "set_state st ctx = (Ready (Inr ()), ctx\<lparr>ctx_state := st\<rparr>)"

definition send :: "frame \<Rightarrow> (session_context, anyhow, unit) action" where
  "send f = io_map_err FrameErr (on_stream (write_frame f))"

definition close :: "close_reason \<Rightarrow> (session_context, anyhow, unit) action" where
  "close reason =
     io_bind (set_state Closing) (\<lambda>_.
     io_bind (send (Close (close_reason_code reason))) (\<lambda>_.
     set_state Closed))"

definition reset :: "close_reason \<Rightarrow> (session_context, anyhow, unit) action" where
  "reset reason =
     io_bind (set_state session_state.Poisoned) (\<lambda>_. send (Reset (close_reason_code reason)))"

definition protocol_error :: "frame_error \<Rightarrow> (session_context, anyhow, unit) action" where
  "protocol_error e = reset ProtocolError"

text \<open>The \<open>timeout\<close> around \<open>close\<close> ends a write that waits for ever.\<close>

definition graceful_shutdown :: "(session_context, anyhow, unit) action" where
  "graceful_shutdown ctx =
     (case ctx_state ctx of
        Active \<Rightarrow>
          (case close ShutdownDrain (ctx\<lparr>ctx_state := Draining\<rparr>) of
             (Pending, ctx') \<Rightarrow> reset ShutdownDrain ctx'
           | (Ready r, ctx') \<Rightarrow> (Ready r, ctx')
           | (Panics msg, ctx') \<Rightarrow> (Panics msg, ctx'))
      | Closed \<Rightarrow> (Ready (Inr ()), ctx)
      | session_state.Poisoned \<Rightarrow> (Ready (Inr ()), ctx)
      | _ \<Rightarrow> close ShutdownDrain ctx)"

section \<open>Negotiation\<close>

definition negotiate_frame :: "instant \<Rightarrow> frame_error + frame \<Rightarrow> (session_context, anyhow, unit) action" where
  "negotiate_frame now r ctx =
     (case r of
        Inr (ClientHello v caps) \<Rightarrow>
          (if v = PROTOCOL_VERSION
           then (Ready (Inr ()), ctx\<lparr>ctx_state := Idle, last_activity := now\<rparr>)
           else close close_reason.VersionMismatch ctx)
      | Inr f \<Rightarrow> reset ProtocolError ctx
      | Inl e \<Rightarrow> protocol_error e ctx)"

text \<open>
  The \<open>select!\<close> of \<open>negotiate\<close>: a frame arrives, or the shutdown flag changes to the given value
  after the dropped \<open>read_frame\<close> has consumed some bytes.
\<close>

datatype nego_event = NegoFrame | NegoShutdown bool nat

definition negotiate :: "nego_event \<Rightarrow> instant \<Rightarrow> (session_context, anyhow, unit) action" where
  "negotiate ev now ctx =
     (let read = (\<lambda>ctx. (case read_frame (ctx_stream ctx) of
              (Ready r, c) \<Rightarrow> negotiate_frame now r (ctx\<lparr>ctx_stream := c\<rparr>)
            | (Pending, c) \<Rightarrow> (Pending, ctx\<lparr>ctx_stream := c\<rparr>)
            | (Panics msg, c) \<Rightarrow> (Panics msg, ctx\<lparr>ctx_stream := c\<rparr>))) in
      case ev of
        NegoFrame \<Rightarrow> read ctx
      | NegoShutdown flag n \<Rightarrow>
          (let ctx = ctx\<lparr>ctx_stream := interrupted n (ctx_stream ctx)\<rparr> in
           if flag then close ShutdownDrain ctx else read ctx))"

section \<open>Serving\<close>

text \<open>
  What \<open>handle_frame\<close> meets while it relays a request: how connecting ends, the events of the relay,
  the shutdown flag before and after it, and the time after it.
\<close>

record relay_world =
  rw_connect :: "trojan_addr \<Rightarrow> io_error + conn"
  rw_events :: "relay_event list"
  rw_shutdown_before :: bool
  rw_shutdown_after :: bool
  rw_now :: instant

fun handle_frame :: "reuse_config \<Rightarrow> relay_world \<Rightarrow> frame \<Rightarrow> (session_context, anyhow, bool) action" where
  "handle_frame cfg w (OpenRequest c a ad p) ctx0 =
     (let ctx = ctx0\<lparr>ctx_state := Active, request_count := request_count ctx0 + 1\<rparr> in
      case on_stream (relay_open_request (rw_connect w) (rw_events w) c a ad p (rw_shutdown_before w))
          (ctx\<lparr>aux_relayed := aux_relayed ctx @ [(c, a, ad, p)]\<rparr>) of
        (Ready (Inr _), ctx) \<Rightarrow>
          (let ctx = ctx\<lparr>ctx_state := Idle\<rparr> in
           if rw_shutdown_after w then io_bind (close ShutdownDrain) (\<lambda>_. io_return False) ctx
           else (case expired_limit cfg ctx (rw_now w) of
                   Some reason \<Rightarrow> io_bind (close reason) (\<lambda>_. io_return False) ctx
                 | None \<Rightarrow> (Ready (Inr True), ctx)))
      | (Ready (Inl _), ctx) \<Rightarrow> io_bind (reset ServerError) (\<lambda>_. io_return False) ctx
      | (Pending, ctx) \<Rightarrow> (Pending, ctx)
      | (Panics msg, ctx) \<Rightarrow> (Panics msg, ctx))"
| "handle_frame cfg w (Ping t) ctx = io_bind (send (Pong t)) (\<lambda>_. io_return True) ctx"
| "handle_frame cfg w (Close r) ctx = io_bind (close ClientInitiated) (\<lambda>_. io_return False) ctx"
| "handle_frame cfg w f ctx = io_bind (reset ProtocolError) (\<lambda>_. io_return False) ctx"

text \<open>
  One iteration of \<open>serve_loop\<close>: the shutdown flag and the time at its top, and the branch of its
  \<open>select!\<close> that wins.
\<close>

datatype serve_branch =
    GotFrame instant relay_world
  | ShutdownChanged bool nat
  | IdleElapsed nat

record serve_event =
  top_shutdown :: bool
  top_now :: instant
  branch :: serve_branch

fun serve_loop :: "reuse_config \<Rightarrow> serve_event list \<Rightarrow> (session_context, anyhow, unit) action" where
  "serve_loop cfg [] ctx = (Pending, ctx)"
| "serve_loop cfg (ev # evs) ctx =
     (if top_shutdown ev then graceful_shutdown ctx
      else
        (case expired_limit cfg ctx (top_now ev) of
           Some reason \<Rightarrow> close reason ctx
         | None \<Rightarrow>
             (case branch ev of
                GotFrame now w \<Rightarrow>
                  (case read_frame (ctx_stream ctx) of
                     (Ready (Inr f), c) \<Rightarrow>
                       io_bind (handle_frame cfg w f)
                         (\<lambda>go ctx. if go then serve_loop cfg evs ctx else (Ready (Inr ()), ctx))
                         (ctx\<lparr>ctx_stream := c, last_activity := now\<rparr>)
                   | (Ready (Inl e), c) \<Rightarrow> protocol_error e (ctx\<lparr>ctx_stream := c\<rparr>)
                   | (Pending, c) \<Rightarrow> (Pending, ctx\<lparr>ctx_stream := c\<rparr>)
                   | (Panics msg, c) \<Rightarrow> (Panics msg, ctx\<lparr>ctx_stream := c\<rparr>))
              | ShutdownChanged flag n \<Rightarrow>
                  (let ctx = ctx\<lparr>ctx_stream := interrupted n (ctx_stream ctx)\<rparr> in
                   if flag then graceful_shutdown ctx else serve_loop cfg evs ctx)
              | IdleElapsed n \<Rightarrow>
                  close IdleTimeout (ctx\<lparr>ctx_stream := interrupted n (ctx_stream ctx)\<rparr>))))"

definition context_new :: "instant \<Rightarrow> conn \<Rightarrow> session_context" where
  "context_new now c = \<lparr>ctx_stream = c, ctx_state = Handshaking, request_count = 0,
     ctx_created_at = now, last_activity = now, aux_relayed = []\<rparr>"

text \<open>The check at the top of \<open>serve_loop\<close> is before its loop.\<close>

definition serve :: "reuse_config \<Rightarrow> serve_event list \<Rightarrow> (session_context, anyhow, unit) action" where
  "serve cfg evs ctx =
     (if ctx_state ctx = Closed \<or> ctx_state ctx = session_state.Poisoned then (Ready (Inr ()), ctx)
      else serve_loop cfg evs ctx)"

definition run_with_stream_and_first_frame :: "reuse_config \<Rightarrow> instant \<Rightarrow> instant \<Rightarrow> frame option \<Rightarrow>
    nego_event \<Rightarrow> serve_event list \<Rightarrow> conn \<Rightarrow> (anyhow + unit) outcome \<times> session_context" where
  "run_with_stream_and_first_frame cfg now now' first nev evs c =
     io_bind (case first of Some f \<Rightarrow> negotiate_frame now' (Inr f) | None \<Rightarrow> negotiate nev now')
       (\<lambda>_. serve cfg evs) (context_new now c)"

text \<open>\<open>run\<close>, for a stream of which nothing has been read yet.\<close>

definition run_with_stream :: "reuse_config \<Rightarrow> instant \<Rightarrow> instant \<Rightarrow> nego_event \<Rightarrow> serve_event list \<Rightarrow> conn \<Rightarrow>
    (anyhow + unit) outcome \<times> session_context" where
  "run_with_stream cfg now now' nev evs c = run_with_stream_and_first_frame cfg now now' None nev evs c"

section \<open>What the operations do to the session\<close>

lemma set_state_apply [simp]: "set_state st ctx = (Ready (Inr ()), ctx\<lparr>ctx_state := st\<rparr>)"
  by (simp add: set_state_def)

lemma io_map_err_Inr:
  "io_map_err g m s = (Ready (Inr a), s') \<longleftrightarrow> m s = (Ready (Inr a), s')"
  by (auto simp: io_map_err_def split: prod.splits outcome.splits sum.splits)

lemma send_Inr:
  "send f ctx = (Ready (Inr u), ctx') \<Longrightarrow>
     \<exists>c. ctx' = ctx\<lparr>ctx_stream := c\<rparr> \<and> out c = out (ctx_stream ctx) @ frame_wire f \<and> inp c = inp (ctx_stream ctx)"
  by (auto simp: send_def on_stream_def io_map_err_Inr zoom_Ready_Inr dest: write_frame_Inr)

lemma send_unbounded:
  "encodable f \<Longrightarrow> wr_room (ctx_stream ctx) = None \<Longrightarrow>
     send f ctx = (Ready (Inr ()), ctx\<lparr>ctx_stream := (ctx_stream ctx)\<lparr>out := out (ctx_stream ctx) @ frame_wire f\<rparr>\<rparr>)"
  by (simp add: send_def on_stream_def frames.send_wire)

lemma close_Inr:
  "close r ctx = (Ready (Inr u), ctx') \<Longrightarrow>
     ctx_state ctx' = Closed \<and>
     out (ctx_stream ctx') = out (ctx_stream ctx) @ frame_wire (Close (close_reason_code r))"
  by (auto simp: close_def io_bind_Ready_Inr dest!: send_Inr)

lemma reset_Inr:
  "reset r ctx = (Ready (Inr u), ctx') \<Longrightarrow>
     ctx_state ctx' = session_state.Poisoned \<and>
     out (ctx_stream ctx') = out (ctx_stream ctx) @ frame_wire (Reset (close_reason_code r))"
  by (auto simp: reset_def dest!: send_Inr)

lemma reset_unbounded:
  "wr_room (ctx_stream ctx) = None \<Longrightarrow>
     reset r ctx = (Ready (Inr ()), ctx\<lparr>ctx_state := session_state.Poisoned, ctx_stream := (ctx_stream ctx)
       \<lparr>out := out (ctx_stream ctx) @ frame_wire (Reset (close_reason_code r))\<rparr>\<rparr>)"
  by (simp add: reset_def io_bind_def send_unbounded encodable_def)

lemma unexpected_frame:
  "wr_room (ctx_stream ctx) = None \<Longrightarrow>
   (case f of OpenRequest _ _ _ _ \<Rightarrow> False | Ping _ \<Rightarrow> False | Close _ \<Rightarrow> False | _ \<Rightarrow> True) \<Longrightarrow>
     handle_frame cfg w f ctx = (Ready (Inr False), snd (reset ProtocolError ctx))"
  by (cases f) (simp_all add: io_bind_def reset_unbounded)

text \<open>The session ended by telling its peer why.\<close>

definition ended_with_notice :: "session_context \<Rightarrow> bool" where
  "ended_with_notice ctx \<longleftrightarrow>
     (\<exists>pre r. ctx_state ctx = Closed \<and> out (ctx_stream ctx) = pre @ frame_wire (Close (close_reason_code r)) \<or>
        ctx_state ctx = session_state.Poisoned \<and>
        out (ctx_stream ctx) = pre @ frame_wire (Reset (close_reason_code r)))"

lemma close_notice: "close r ctx = (Ready (Inr u), ctx') \<Longrightarrow> ended_with_notice ctx'"
  unfolding ended_with_notice_def by (metis close_Inr)

lemma reset_notice: "reset r ctx = (Ready (Inr u), ctx') \<Longrightarrow> ended_with_notice ctx'"
  unfolding ended_with_notice_def by (metis reset_Inr)

lemma graceful_shutdown_notice:
  "graceful_shutdown ctx = (Ready (Inr u), ctx') \<Longrightarrow> \<not> terminated (ctx_state ctx) \<Longrightarrow> ended_with_notice ctx'"
  by (cases "ctx_state ctx")
     (auto simp: graceful_shutdown_def terminated_def split: prod.splits outcome.splits
       intro: close_notice reset_notice)

lemma handle_frame_Inr:
  assumes "handle_frame cfg w f ctx = (Ready (Inr go), ctx')"
  shows "if go then ctx_state ctx' = Idle \<or> ctx_state ctx' = ctx_state ctx else ended_with_notice ctx'"
proof (cases f)
  case (OpenRequest c a ad p)
  with assms show ?thesis
    by (auto simp: Let_def io_bind_Ready_Inr split: prod.splits outcome.splits sum.splits if_splits option.splits
        intro: close_notice reset_notice)
next
  case (Ping t)
  with assms show ?thesis by (auto simp: io_bind_Ready_Inr dest!: send_Inr)
qed (use assms in \<open>auto simp: io_bind_Ready_Inr intro: close_notice reset_notice\<close>)

lemma serve_loop_notice:
  "serve_loop cfg evs ctx = (Ready (Inr u), ctx') \<Longrightarrow> ctx_state ctx = Idle \<Longrightarrow> ended_with_notice ctx'"
proof (induction evs arbitrary: ctx)
  case Nil
  then show ?case by simp
next
  case (Cons ev evs)
  have live: "\<not> terminated (ctx_state c)" if "ctx_state c = Idle" for c
    using that by (simp add: terminated_def)
  show ?case
  proof (cases "top_shutdown ev \<or> expired_limit cfg ctx (top_now ev) \<noteq> None")
    case True
    with Cons.prems live [of ctx] show ?thesis
      by (auto split: if_splits option.splits intro: close_notice graceful_shutdown_notice)
  next
    case False
    show ?thesis
    proof (cases "branch ev")
      case (GotFrame now w)
      with Cons.prems False show ?thesis
        using Cons.IH
        by (auto simp: io_bind_Ready_Inr protocol_error_def split: prod.splits outcome.splits sum.splits if_splits
            intro: reset_notice dest!: handle_frame_Inr)
    next
      case (ShutdownChanged flag n)
      with Cons.prems False show ?thesis
        using Cons.IH
        by (auto simp: Let_def terminated_def split: if_splits dest!: graceful_shutdown_notice)
    next
      case (IdleElapsed n)
      with Cons.prems False show ?thesis by (auto intro: close_notice)
    qed
  qed
qed

text \<open>Only \<open>handle_frame\<close> counts requests, and it counts each one that it relays.\<close>

lemma snd_io_bind_keeps:
  "g (snd (m ctx)) = g ctx \<Longrightarrow> (\<And>a ctx. g (snd (k a ctx)) = g ctx) \<Longrightarrow> g (snd (io_bind m k ctx)) = g ctx"
  by (cases "m ctx") (auto simp: io_bind_def split: outcome.splits sum.splits)

lemmas snd_io_bind_count = snd_io_bind_keeps [where g = request_count] snd_io_bind_keeps [where g = aux_relayed]

lemma send_count [simp]:
  "request_count (snd (send f ctx)) = request_count ctx" "aux_relayed (snd (send f ctx)) = aux_relayed ctx"
  by (auto simp: send_def on_stream_def io_map_err_def zoom_def split: prod.splits outcome.splits sum.splits)

lemma close_count [simp]:
  "request_count (snd (close r ctx)) = request_count ctx" "aux_relayed (snd (close r ctx)) = aux_relayed ctx"
  unfolding close_def by (simp_all add: snd_io_bind_count)

lemma reset_count [simp]:
  "request_count (snd (reset r ctx)) = request_count ctx" "aux_relayed (snd (reset r ctx)) = aux_relayed ctx"
  unfolding reset_def by (simp_all add: snd_io_bind_count)

lemma graceful_shutdown_count [simp]:
  "request_count (snd (graceful_shutdown ctx)) = request_count ctx"
  "aux_relayed (snd (graceful_shutdown ctx)) = aux_relayed ctx"
proof -
  obtain r ctx' where c: "close ShutdownDrain (ctx\<lparr>ctx_state := Draining\<rparr>) = (r, ctx')"
    by (metis surj_pair)
  then have "request_count ctx' = request_count ctx" "aux_relayed ctx' = aux_relayed ctx"
    using close_count [of ShutdownDrain "ctx\<lparr>ctx_state := Draining\<rparr>"] by simp_all
  with c show "request_count (snd (graceful_shutdown ctx)) = request_count ctx"
    "aux_relayed (snd (graceful_shutdown ctx)) = aux_relayed ctx"
    by (cases "ctx_state ctx"; cases r; simp add: graceful_shutdown_def)+
qed

lemma negotiate_frame_count [simp]:
  "request_count (snd (negotiate_frame now r ctx)) = request_count ctx"
  "aux_relayed (snd (negotiate_frame now r ctx)) = aux_relayed ctx"
  by (auto simp: negotiate_frame_def protocol_error_def split: sum.splits frame.splits)

definition counted :: "session_context \<Rightarrow> bool" where
  "counted ctx \<longleftrightarrow> request_count ctx = length (aux_relayed ctx)"

lemma handle_frame_count:
  assumes "counted ctx"
  shows "counted (snd (handle_frame cfg w f ctx)) \<and>
    length (aux_relayed (snd (handle_frame cfg w f ctx))) \<le> length (aux_relayed ctx) + 1"
proof (cases f)
  case (OpenRequest c a ad p)
  let ?m = "relay_open_request (rw_connect w) (rw_events w) c a ad p (rw_shutdown_before w)"
  let ?ctx = "ctx\<lparr>ctx_state := Active, request_count := request_count ctx + 1, aux_relayed := aux_relayed ctx @ [(c, a, ad, p)]\<rparr>"
  obtain r ctx' where m: "on_stream ?m ?ctx = (r, ctx')" by (metis surj_pair)
  then have c: "request_count ctx' = request_count ctx + 1" "aux_relayed ctx' = aux_relayed ctx @ [(c, a, ad, p)]"
    by (auto simp: on_stream_def zoom_def split: prod.splits outcome.splits sum.splits)
  from OpenRequest m c assms show ?thesis
    by (simp add: counted_def Let_def snd_io_bind_count split: outcome.splits sum.splits option.splits)
qed (use assms in \<open>simp_all add: counted_def snd_io_bind_count\<close>)

lemma serve_loop_count:
  "counted ctx \<Longrightarrow> length (aux_relayed ctx) \<le> max_requests cfg \<Longrightarrow>
     length (aux_relayed (snd (serve_loop cfg evs ctx))) \<le> max_requests cfg"
proof (induction evs arbitrary: ctx)
  case Nil
  then show ?case by simp
next
  case (Cons ev evs)
  show ?case
  proof (cases "top_shutdown ev \<or> expired_limit cfg ctx (top_now ev) \<noteq> None")
    case True
    with Cons.prems show ?thesis by auto
  next
    case False
    then have lt: "length (aux_relayed ctx) < max_requests cfg"
      using Cons.prems(1) by (auto simp: expired_limit_def counted_def split: if_splits)
    show ?thesis
    proof (cases "branch ev")
      case (GotFrame now w)
      obtain r c where r: "read_frame (ctx_stream ctx) = (r, c)" by (metis surj_pair)
      show ?thesis
      proof (cases "\<exists>f. r = Ready (Inr f)")
        case True
        then obtain f where f: "r = Ready (Inr f)" by blast
        let ?ctx = "ctx\<lparr>ctx_stream := c, last_activity := now\<rparr>"
        obtain h ctx1 where h: "handle_frame cfg w f ?ctx = (h, ctx1)" by (metis surj_pair)
        have "counted ?ctx" using Cons.prems(1) by (simp add: counted_def)
        from handle_frame_count [OF this, of cfg w f] h lt
        have "counted ctx1" "length (aux_relayed ctx1) \<le> max_requests cfg" by simp_all
        with h f r GotFrame False Cons.IH [of ctx1] show ?thesis
          by (simp add: io_bind_def split: outcome.splits sum.splits)
      next
        case no: False
        with r GotFrame False Cons.prems show ?thesis
          by (auto simp: protocol_error_def split: outcome.splits sum.splits)
      qed
    next
      case (ShutdownChanged flag n)
      with Cons False show ?thesis by (simp add: Let_def counted_def)
    next
      case (IdleElapsed n)
      with Cons.prems False show ?thesis by simp
    qed
  qed
qed

section \<open>Properties\<close>

lemma negotiate_frame_Inr:
  "negotiate_frame now r ctx = (Ready (Inr u), ctx') \<Longrightarrow> ctx_state ctx' = Idle \<or> ended_with_notice ctx'"
  by (auto simp: negotiate_frame_def protocol_error_def split: sum.splits frame.splits if_splits
      intro: close_notice reset_notice)

lemma negotiate_Inr:
  "negotiate ev now ctx = (Ready (Inr u), ctx') \<Longrightarrow> ctx_state ctx' = Idle \<or> ended_with_notice ctx'"
  by (auto simp: negotiate_def Let_def split: nego_event.splits prod.splits outcome.splits if_splits
      dest: negotiate_frame_Inr intro: close_notice)

lemma negotiate_count [simp]:
  "request_count (snd (negotiate ev now ctx)) = request_count ctx" "aux_relayed (snd (negotiate ev now ctx)) = aux_relayed ctx"
  by (auto simp: negotiate_def Let_def split: nego_event.splits prod.splits outcome.splits)

lemma ended_with_notice_terminated: "ended_with_notice ctx \<Longrightarrow> terminated (ctx_state ctx)"
  by (auto simp: ended_with_notice_def terminated_def)

text \<open>
  C19. A reusable session never ends silently: whenever the server's loop returns without an I/O
  error, on any input and any schedule, the session is \<open>Closed\<close> and the last frame written is a
  \<open>Close\<close> with the code of a close reason, or it is \<open>Poisoned\<close> and the last frame written is a
  \<open>Reset\<close> with such a code.
\<close>

theorem session_ends_with_notice:
  assumes "run_with_stream_and_first_frame cfg now now' first nev evs c = (Ready (Inr u), ctx)"
  shows "\<exists>pre r.
      ctx_state ctx = Closed \<and> out (ctx_stream ctx) = pre @ frame_wire (Close (close_reason_code r)) \<or>
      ctx_state ctx = session_state.Poisoned \<and>
        out (ctx_stream ctx) = pre @ frame_wire (Reset (close_reason_code r))"
proof -
  from assms obtain v ctx1 where
    n: "(case first of Some f \<Rightarrow> negotiate_frame now' (Inr f) | None \<Rightarrow> negotiate nev now') (context_new now c)
      = (Ready (Inr v), ctx1)" and s: "serve cfg evs ctx1 = (Ready (Inr u), ctx)"
    by (auto simp: run_with_stream_and_first_frame_def io_bind_Ready_Inr)
  from n have "ctx_state ctx1 = Idle \<or> ended_with_notice ctx1"
    by (auto split: option.splits dest: negotiate_frame_Inr negotiate_Inr)
  with s have "ended_with_notice ctx"
    by (auto simp: serve_def terminated_def split: if_splits
        dest: serve_loop_notice ended_with_notice_terminated)
  then show ?thesis unfolding ended_with_notice_def .
qed

definition sample_world :: relay_world where
  "sample_world = \<lparr>rw_connect = (\<lambda>a. Inl (IoError Other ''refused'')), rw_events = [],
     rw_shutdown_before = False, rw_shutdown_after = False, rw_now = 0\<rparr>"

definition sample_cfg :: reuse_config where
  "sample_cfg = \<lparr>max_idle = 1, max_requests = 2, max_age = 100, idle_timeout = 50,
     keepalive_interval = 10, keepalive_timeout = 5, jitter_percent = 0\<rparr>"

definition at_frame :: "instant \<Rightarrow> instant \<Rightarrow> relay_world \<Rightarrow> serve_event" where
  "at_frame t0 now w = \<lparr>top_shutdown = False, top_now = t0, branch = GotFrame now w\<rparr>"

theorem session_ends_with_notice_witness:
  "\<exists>u ctx. run_with_stream_and_first_frame sample_cfg 0 0 (Some (ClientHello 1 1)) NegoFrame
      [at_frame 1 1 sample_world] (fresh_conn\<lparr>inp := frame_wire (Pong 3)\<rparr>) = (Ready (Inr u), ctx) \<and>
    (\<exists>pre r. ctx_state ctx = Closed \<and> out (ctx_stream ctx) = pre @ frame_wire (Close (close_reason_code r)) \<or>
      ctx_state ctx = session_state.Poisoned \<and>
        out (ctx_stream ctx) = pre @ frame_wire (Reset (close_reason_code r)))"
proof -
  let ?c = "fresh_conn\<lparr>inp := frame_wire (Pong 3)\<rparr>"
  have e: "encodable (Pong 3)" by (simp add: encodable_def)
  have r: "read_frame ?c = (Ready (Inr (Pong 3)), ?c\<lparr>inp := []\<rparr>)"
    by (rule read_frame_wire [OF e]) simp
  have "\<exists>ctx. run_with_stream_and_first_frame sample_cfg 0 0 (Some (ClientHello 1 1)) NegoFrame
      [at_frame 1 1 sample_world] ?c = (Ready (Inr ()), ctx)"
    using r
    by (simp add: run_with_stream_and_first_frame_def negotiate_frame_def context_new_def serve_def
        at_frame_def expired_limit_def sample_cfg_def elapsed_at_least_def reset_unbounded
        fresh_conn_def io_bind_def)
  then obtain ctx where run: "run_with_stream_and_first_frame sample_cfg 0 0 (Some (ClientHello 1 1))
      NegoFrame [at_frame 1 1 sample_world] ?c = (Ready (Inr ()), ctx)" by blast
  from session_ends_with_notice [OF run] run show ?thesis by blast
qed

text \<open>
  C18. However the session goes and however it ends, waits or fails, the server has relayed at most
  \<open>max_requests\<close> requests on it.
\<close>

theorem requests_bounded:
  "length (aux_relayed (snd (run_with_stream_and_first_frame cfg now now' first nev evs c))) \<le> max_requests cfg"
proof -
  let ?n = "case first of Some f \<Rightarrow> negotiate_frame now' (Inr f) | None \<Rightarrow> negotiate nev now'"
  obtain r ctx where n: "?n (context_new now c) = (r, ctx)" by (metis surj_pair)
  have "request_count (snd (?n (context_new now c))) = 0" "aux_relayed (snd (?n (context_new now c))) = []"
    by (simp_all add: context_new_def split: option.splits)
  with n have "counted ctx" "aux_relayed ctx = []" by (simp_all add: counted_def)
  with n show ?thesis
    using serve_loop_count [of ctx cfg evs]
    by (auto simp: run_with_stream_and_first_frame_def io_bind_def serve_def split: outcome.splits sum.splits)
qed

text \<open>
  Frames that have no meaning between requests (a second hello, data, the end of a request, a
  reset, a pong) poison the session: it answers with a \<open>Reset\<close> carrying the protocol-error code,
  reads nothing more and returns.
\<close>

lemma unexpected_frame_resets:
  assumes "encodable f" "inp (ctx_stream ctx) = frame_wire f @ rest" "wr_room (ctx_stream ctx) = None"
    and "expired_limit cfg ctx t0 = None"
    and "case f of OpenRequest _ _ _ _ \<Rightarrow> False | Ping _ \<Rightarrow> False | Close _ \<Rightarrow> False | _ \<Rightarrow> True"
  shows "serve_loop cfg (at_frame t0 now w # evs) ctx =
    (Ready (Inr ()), ctx\<lparr>ctx_stream := (ctx_stream ctx)\<lparr>inp := rest,
        out := out (ctx_stream ctx) @ frame_wire (Reset 0x07)\<rparr>,
      ctx_state := session_state.Poisoned, last_activity := now\<rparr>)"
proof -
  have r: "read_frame (ctx_stream ctx) = (Ready (Inr f), (ctx_stream ctx)\<lparr>inp := rest\<rparr>)"
    using assms(1,2) by (rule read_frame_wire)
  let ?ctx = "ctx\<lparr>ctx_stream := (ctx_stream ctx)\<lparr>inp := rest\<rparr>, last_activity := now\<rparr>"
  have "handle_frame cfg w f ?ctx = (Ready (Inr False), snd (reset ProtocolError ?ctx))"
    using assms(3,5) by (intro unexpected_frame) simp_all
  with assms(3,4) r show ?thesis
    by (simp add: at_frame_def reset_unbounded io_bind_def)
qed

text \<open>Pings with the time at the top of their iteration and the time of their arrival.\<close>

fun live_pings :: "reuse_config \<Rightarrow> instant \<Rightarrow> instant \<Rightarrow> (instant \<times> instant \<times> u32) list \<Rightarrow> bool" where
  "live_pings cfg created past [] \<longleftrightarrow> True"
| "live_pings cfg created past ((t0, t, k) # xs) \<longleftrightarrow>
     \<not> elapsed_at_least t0 created (max_age cfg) \<and> \<not> elapsed_at_least t0 past (idle_timeout cfg) \<and>
     live_pings cfg created t xs"

definition tokens :: "(instant \<times> instant \<times> u32) list \<Rightarrow> u32 list" where
  "tokens = map (\<lambda>(t0, t, k). k)"

lemma serve_loop_ping:
  assumes "inp (ctx_stream ctx) = frame_wire (Ping k) @ rest" "wr_room (ctx_stream ctx) = None"
    and "expired_limit cfg ctx t0 = None"
  shows "serve_loop cfg (at_frame t0 t w # evs) ctx =
    serve_loop cfg evs (ctx\<lparr>ctx_stream := (ctx_stream ctx)\<lparr>inp := rest,
        out := out (ctx_stream ctx) @ frame_wire (Pong k)\<rparr>, last_activity := t\<rparr>)"
proof -
  have "read_frame (ctx_stream ctx) = (Ready (Inr (Ping k)), (ctx_stream ctx)\<lparr>inp := rest\<rparr>)"
    by (rule read_frame_wire [OF _ assms(1)]) (simp add: encodable_def)
  moreover have "encodable (Pong k)" by (simp add: encodable_def)
  ultimately show ?thesis
    using assms(2,3) by (cases ctx) (simp add: at_frame_def io_bind_def send_unbounded)
qed

text \<open>
  C32. Pings keep a session open: as long as each one comes before the idle timeout is over, counted
  from the one before it, and before the maximal age, the session answers every ping with its pong,
  in order, stays in its state and goes on waiting for the next frame.
\<close>

theorem pings_keep_session_open:
  assumes "live_pings cfg (ctx_created_at ctx) (last_activity ctx) xs"
    and "inp (ctx_stream ctx) = wires (map Ping (tokens xs)) @ rest" "wr_room (ctx_stream ctx) = None"
    and "request_count ctx < max_requests cfg"
  shows "\<exists>ctx'. serve_loop cfg (map (\<lambda>(t0, t, k). at_frame t0 t w) xs) ctx = (Pending, ctx') \<and>
    out (ctx_stream ctx') = out (ctx_stream ctx) @ wires (map Pong (tokens xs)) \<and>
    inp (ctx_stream ctx') = rest \<and> ctx_state ctx' = ctx_state ctx \<and>
    request_count ctx' = request_count ctx"
  using assms
proof (induction xs arbitrary: ctx)
  case Nil
  then show ?case by (simp add: tokens_def)
next
  case (Cons x xs)
  obtain t0 t k where x: "x = (t0, t, k)" by (metis prod_cases3)
  have i: "inp (ctx_stream ctx) = frame_wire (Ping k) @ wires (map Ping (tokens xs)) @ rest"
    using Cons.prems(2) x by (simp add: tokens_def wires_def)
  have e: "expired_limit cfg ctx t0 = None"
    using Cons.prems(1,4) x by (simp add: expired_limit_def)
  let ?ctx = "ctx\<lparr>ctx_stream := (ctx_stream ctx)\<lparr>inp := wires (map Ping (tokens xs)) @ rest,
        out := out (ctx_stream ctx) @ frame_wire (Pong k)\<rparr>, last_activity := t\<rparr>"
  have "\<exists>ctx'. serve_loop cfg (map (\<lambda>(t0, t, k). at_frame t0 t w) xs) ?ctx = (Pending, ctx') \<and>
    out (ctx_stream ctx') = out (ctx_stream ?ctx) @ wires (map Pong (tokens xs)) \<and>
    inp (ctx_stream ctx') = rest \<and> ctx_state ctx' = ctx_state ?ctx \<and>
    request_count ctx' = request_count ?ctx"
    by (rule Cons.IH) (use Cons.prems x in simp_all)
  then show ?case
    using serve_loop_ping [OF i Cons.prems(3) e] x by (simp add: tokens_def wires_def)
qed

theorem pings_keep_session_open_witness:
  "let xs = [(40, 40, 5), (80, 80, 6)];
       ctx = (context_new 0 (fresh_conn\<lparr>inp := wires (map Ping (tokens xs)) @ []\<rparr>))\<lparr>ctx_state := Idle\<rparr>
   in \<exists>ctx'. serve_loop sample_cfg (map (\<lambda>(t0, t, k). at_frame t0 t sample_world) xs) ctx = (Pending, ctx') \<and>
        out (ctx_stream ctx') = wires [Pong 5, Pong 6]"
proof -
  let ?xs = "[(40, 40, 5), (80, 80, 6)]"
  let ?ctx = "(context_new 0 (fresh_conn\<lparr>inp := wires (map Ping (tokens ?xs)) @ []\<rparr>))\<lparr>ctx_state := Idle\<rparr>"
  have "live_pings sample_cfg (ctx_created_at ?ctx) (last_activity ?ctx) ?xs"
    "inp (ctx_stream ?ctx) = wires (map Ping (tokens ?xs)) @ []" "wr_room (ctx_stream ?ctx) = None"
    "request_count ?ctx < max_requests sample_cfg"
    by (simp_all add: context_new_def fresh_conn_def sample_cfg_def elapsed_at_least_def)
  from pings_keep_session_open [OF this, of sample_world] show ?thesis
    by (simp add: context_new_def fresh_conn_def Let_def) (auto simp: tokens_def)
qed

text \<open>
  The idle timer is not restarted by a request: it counts from the arrival of the \<open>OpenRequest\<close>.
  A request that is relayed successfully but takes as long as the idle timeout therefore ends the
  session with the idle-timeout code instead of leaving it open for the next request.
\<close>

lemma long_request_closes_session:
  assumes "relay_open_request (rw_connect w) (rw_events w) c a ad p (rw_shutdown_before w) (ctx_stream ctx)
      = (Ready (Inr tr), s)"
    and "wr_room s = None" "\<not> rw_shutdown_after w"
    and "request_count ctx + 1 < max_requests cfg"
    and "rw_now w < ctx_created_at ctx + max_age cfg"
    and "last_activity ctx + idle_timeout cfg \<le> rw_now w"
  shows "\<exists>ctx'. handle_frame cfg w (OpenRequest c a ad p) ctx = (Ready (Inr False), ctx') \<and>
    ctx_state ctx' = Closed \<and> out (ctx_stream ctx') = out s @ frame_wire (Close 0x03)"
proof -
  let ?ctx = "ctx\<lparr>request_count := request_count ctx + 1, aux_relayed := aux_relayed ctx @ [(c, a, ad, p)],
    ctx_stream := s, ctx_state := Idle\<rparr>"
  have e: "expired_limit cfg ?ctx (rw_now w) = Some IdleTimeout"
    using assms(4-6) by (auto simp: expired_limit_def elapsed_at_least_def)
  have "encodable (Close 0x03)" by (simp add: encodable_def)
  with assms(1-3) e show ?thesis
    by (simp add: on_stream_def zoom_def Let_def close_def io_bind_def send_unbounded)
qed

definition slow_world :: relay_world where
  "slow_world = \<lparr>rw_connect = (\<lambda>a. Inr sample_t), rw_events = sample_es,
     rw_shutdown_before = False, rw_shutdown_after = False, rw_now = 60\<rparr>"

end
