(* ===== verification/Fp.thy ===== *)
theory Fp
  imports Prelude "HOL-Library.Stream"
begin

text \<open>
  \<open>tunnel/src/fp.rs\<close>: rewriting a ClientHello so that it has the fingerprint of another TLS client. The
  messages are those of \<open>rustls\<close> and a JA3 is one of \<open>ja3_rustls\<close>: the type number of an extension, the
  encoding of a hello, the GREASE predicate and the random GREASE values are parameters.
\<close>

section \<open>Data\<close>

record ja3 =
  ja3_version :: u16
  ja3_ciphers :: "u16 list"
  ja3_extensions :: "u16 list"
  ja3_curves :: "u16 list"
  ja3_point_formats :: bytes

record fingerprint_spec =
  fp_ja3 :: "ja3 option"
  fp_alpn :: "bytes list option"
  fp_signature_algos :: "u16 list option"
  fp_supported_versions :: "u16 list option"
  fp_keyshare_curves :: "u16 list option"

definition fp_new :: fingerprint_spec where
  "fp_new = \<lparr>fp_ja3 = None, fp_alpn = None, fp_signature_algos = None, fp_supported_versions = None,
     fp_keyshare_curves = None\<rparr>"

definition fp_is_empty :: "fingerprint_spec \<Rightarrow> bool" where
  "fp_is_empty fp \<longleftrightarrow> fp_ja3 fp = None \<and> fp_alpn fp = None \<and> fp_signature_algos fp = None
     \<and> fp_supported_versions fp = None \<and> fp_keyshare_curves fp = None"

text \<open>
  The extensions that the rewriting looks at; an extension of any other kind is \<open>OtherExt\<close>. An entry of
  a key share is a group with a key.
\<close>

datatype client_extension =
    NamedGroups "u16 list"
  | ECPointFormats bytes
  | Protocols "bytes list"
  | SupportedVersions "u16 list"
  | SignatureAlgorithms "u16 list"
  | KeyShare "(u16 \<times> bytes) list"
  | UnknownExt u16 bytes
  | OtherExt u16 bytes

record 'r client_hello =
  ch_client_version :: u16
  ch_cipher_suites :: "u16 list"
  ch_extensions :: "client_extension list"
  ch_rest :: 'r

datatype ('r, 'o) parsed_payload = ParsedHello "'r client_hello" | ParsedOther 'o

datatype ('r, 'o) message_payload = Handshake "('r, 'o) parsed_payload" bytes | NoHandshake 'o

record ('r, 'o) message =
  msg_version :: u16
  msg_payload :: "('r, 'o) message_payload"

abbreviation (input) ALProtocolNegotiation :: u16 where "ALProtocolNegotiation \<equiv> 0x0010"
abbreviation (input) Padding :: u16 where "Padding \<equiv> 0x0015"
abbreviation (input) RenegotiationInfo :: u16 where "RenegotiationInfo \<equiv> 0xff01"
abbreviation (input) RFC7685_PADDING_TARGET :: nat where "RFC7685_PADDING_TARGET \<equiv> 512"

text \<open>
  \<open>regrease d v\<close> is \<open>try_regrease_u16_be v\<close> when the random value drawn for it is \<open>d\<close>; \<open>into_values\<close>
  is the order in which a hash map gives out its values.
\<close>

record ('r, 'o) fp_env =
  get_type :: "client_extension \<Rightarrow> u16"
  get_encoding :: "('r, 'o) parsed_payload \<Rightarrow> bytes"
  is_grease :: "u16 \<Rightarrow> bool"
  regrease :: "u16 \<Rightarrow> u16 \<Rightarrow> u16"
  into_values :: "(u16 \<rightharpoonup> client_extension) \<Rightarrow> client_extension list"

section \<open>The order of the extensions\<close>

text \<open>The payload of an extension that the JA3 lists and the hello does not have.\<close>

definition dummy_payload :: "u16 \<Rightarrow> bytes outcome" where
  "dummy_payload exttyp =
     (if exttyp = ALProtocolNegotiation
      then Panics ''Expect ALPN present in original message if it is listed in JA3''
      else if exttyp = RenegotiationInfo then Ready [0x00]
      else if exttyp = 0x4469 then Ready [0x00, 0x03, 0x02, 0x68, 0x32]
      else if exttyp = Padding then Ready []
      else if exttyp = 0x001b then Ready [0x02, 0x00, 0x02]
      else Ready [])"

text \<open>
  The loop over the extensions of the JA3. The state is the map of extensions not yet placed, the new
  extensions, and whether padding is wanted.
\<close>

fun place_extensions :: "bool \<Rightarrow> u16 list \<Rightarrow> (u16 \<rightharpoonup> client_extension) \<Rightarrow> client_extension list \<Rightarrow> bool \<Rightarrow>
    (client_extension list \<times> (u16 \<rightharpoonup> client_extension) \<times> bool) outcome" where
  "place_extensions add [] oldextmap new pad = Ready (new, oldextmap, pad)"
| "place_extensions add (exttyp # ts) oldextmap new pad =
     (case oldextmap exttyp of
        Some extension \<Rightarrow> place_extensions add ts (oldextmap(exttyp := None)) (new @ [extension]) pad
      | None \<Rightarrow>
          (if \<not> add then place_extensions add ts oldextmap new pad
           else
             (case dummy_payload exttyp of
                Ready extpld \<Rightarrow>
                  place_extensions add ts oldextmap (new @ [UnknownExt exttyp extpld]) (pad \<or> exttyp = Padding)
              | Pending \<Rightarrow> Pending
              | Panics msg \<Rightarrow> Panics msg)))"

text \<open>\<open>collect\<close> into a hash map keeps the last of several extensions of one type.\<close>

definition oldextmap_of :: "('r, 'o) fp_env \<Rightarrow> client_extension list \<Rightarrow> (u16 \<rightharpoonup> client_extension)" where
  "oldextmap_of env exts = map_of (rev (map (\<lambda>e. (get_type env e, e)) exts))"

definition reorder_extensions :: "('r, 'o) fp_env \<Rightarrow> u16 stream \<Rightarrow> bool \<Rightarrow> bool \<Rightarrow> ja3 \<Rightarrow> client_extension list \<Rightarrow>
    (client_extension list \<times> bool) outcome" where
  "reorder_extensions env draws add drop_others ja3 exts =
     (case place_extensions add (map2 (regrease env) (stake (length (ja3_extensions ja3)) draws) (ja3_extensions ja3))
         (oldextmap_of env exts) [] False of
        Ready (new, oldextmap, pad) \<Rightarrow>
          Ready (if drop_others then new else new @ into_values env oldextmap, pad)
      | Pending \<Rightarrow> Pending
      | Panics msg \<Rightarrow> Panics msg)"

section \<open>The values of the extensions\<close>

text \<open>The state of the second loop: the GREASE curves chosen so far, the random values left, and padding.\<close>

record rewrite_state =
  rw_grease :: "u16 list"
  rw_draws :: "u16 stream"
  rw_pad :: bool

text \<open>
  A curve of the JA3: a GREASE curve is drawn and remembered when \<open>fresh\<close>, otherwise it is taken back
  from the remembered ones, the last one first, and drawn when there is none left.
\<close>

definition grease_curve :: "('r, 'o) fp_env \<Rightarrow> bool \<Rightarrow> u16 \<Rightarrow> rewrite_state \<Rightarrow> u16 \<times> rewrite_state" where
  "grease_curve env fresh curve st =
     (if is_grease env curve then
        (if fresh then
           (shd (rw_draws st), st\<lparr>rw_grease := rw_grease st @ [shd (rw_draws st)], rw_draws := stl (rw_draws st)\<rparr>)
         else if rw_grease st = [] then (shd (rw_draws st), st\<lparr>rw_draws := stl (rw_draws st)\<rparr>)
         else (last (rw_grease st), st\<lparr>rw_grease := butlast (rw_grease st)\<rparr>))
      else (curve, st))"

fun grease_curves :: "('r, 'o) fp_env \<Rightarrow> bool \<Rightarrow> u16 list \<Rightarrow> rewrite_state \<Rightarrow> u16 list \<times> rewrite_state" where
  "grease_curves env fresh [] st = ([], st)"
| "grease_curves env fresh (c # cs) st =
     (let (c', st1) = grease_curve env fresh c st; (cs', st2) = grease_curves env fresh cs st1 in (c' # cs', st2))"

text \<open>The entries of a key share, for the curves of the fingerprint.\<close>

fun key_shares :: "('r, 'o) fp_env \<Rightarrow> bool \<Rightarrow> u16 list \<Rightarrow> (u16 \<rightharpoonup> u16 \<times> bytes) \<Rightarrow> rewrite_state \<Rightarrow>
    (u16 \<times> bytes) list \<times> rewrite_state" where
  "key_shares env fresh [] oldentmap st = ([], st)"
| "key_shares env fresh (c # cs) oldentmap st =
     (case oldentmap c of
        Some entry \<Rightarrow>
          (let (es, st1) = key_shares env fresh cs (oldentmap(c := None)) st in (entry # es, st1))
      | None \<Rightarrow>
          (let (c', st1) = grease_curve env fresh c st; (es, st2) = key_shares env fresh cs oldentmap st1
           in ((c', [0x00]) # es, st2)))"

fun regrease_all :: "('r, 'o) fp_env \<Rightarrow> u16 list \<Rightarrow> rewrite_state \<Rightarrow> u16 list \<times> rewrite_state" where
  "regrease_all env [] st = ([], st)"
| "regrease_all env (v # vs) st =
     (let (vs', st1) = regrease_all env vs (st\<lparr>rw_draws := stl (rw_draws st)\<rparr>)
      in (regrease env (shd (rw_draws st)) v # vs', st1))"

fun rewrite_extension :: "('r, 'o) fp_env \<Rightarrow> fingerprint_spec \<Rightarrow> client_extension \<Rightarrow> rewrite_state \<Rightarrow>
    client_extension \<times> rewrite_state" where
  "rewrite_extension env fp (NamedGroups groups) st =
     (case fp_ja3 fp of
        None \<Rightarrow> (NamedGroups groups, st)
      | Some ja3 \<Rightarrow> apfst NamedGroups (grease_curves env (rw_grease st = []) (ja3_curves ja3) st))"
| "rewrite_extension env fp (ECPointFormats formats) st =
     (case fp_ja3 fp of
        None \<Rightarrow> (ECPointFormats formats, st)
      | Some ja3 \<Rightarrow> (ECPointFormats (ja3_point_formats ja3), st))"
| "rewrite_extension env fp (Protocols alpn) st =
     (case fp_alpn fp of None \<Rightarrow> (Protocols alpn, st) | Some a \<Rightarrow> (Protocols a, st))"
| "rewrite_extension env fp (SupportedVersions vers) st =
     (case fp_supported_versions fp of
        None \<Rightarrow> (SupportedVersions vers, st)
      | Some vs \<Rightarrow> apfst SupportedVersions (regrease_all env vs st))"
| "rewrite_extension env fp (SignatureAlgorithms algos) st =
     (case fp_signature_algos fp of
        None \<Rightarrow> (SignatureAlgorithms algos, st)
      | Some vs \<Rightarrow> apfst SignatureAlgorithms (regrease_all env vs st))"
| "rewrite_extension env fp (KeyShare entries) st =
     (case fp_keyshare_curves fp of
        None \<Rightarrow> (KeyShare entries, st)
      | Some fpcurves \<Rightarrow>
          apfst KeyShare (key_shares env (rw_grease st = []) fpcurves
            (map_of (rev (map (\<lambda>e. (fst e, e)) entries))) st))"
| "rewrite_extension env fp (UnknownExt t p) st =
     (if t = Padding then (UnknownExt t [], st\<lparr>rw_pad := True\<rparr>) else (UnknownExt t p, st))"
| "rewrite_extension env fp (OtherExt t p) st = (OtherExt t p, st)"

fun rewrite_extensions :: "('r, 'o) fp_env \<Rightarrow> fingerprint_spec \<Rightarrow> client_extension list \<Rightarrow> rewrite_state \<Rightarrow>
    client_extension list \<times> rewrite_state" where
  "rewrite_extensions env fp [] st = ([], st)"
| "rewrite_extensions env fp (e # es) st =
     (let (e', st1) = rewrite_extension env fp e st; (es', st2) = rewrite_extensions env fp es st1
      in (e' # es', st2))"

section \<open>Padding\<close>

fun resize_padding :: "nat \<Rightarrow> client_extension list \<Rightarrow> client_extension list" where
  "resize_padding padlen [] = []"
| "resize_padding padlen (UnknownExt t p # es) =
     (if t = Padding then UnknownExt t (take padlen p @ replicate (padlen - length p) 0) # es
      else UnknownExt t p # resize_padding padlen es)"
| "resize_padding padlen (e # es) = e # resize_padding padlen es"

definition pad_hello :: "('r, 'o) fp_env \<Rightarrow> 'r client_hello \<Rightarrow> 'r client_hello" where
  "pad_hello env chp =
     (let pldlen = length (get_encoding env (ParsedHello chp)); padlen = RFC7685_PADDING_TARGET - pldlen in
      if padlen \<noteq> 0 then chp\<lparr>ch_extensions := resize_padding padlen (ch_extensions chp)\<rparr> else chp)"

section \<open>The whole rewriting\<close>

definition overwrite_hello :: "('r, 'o) fp_env \<Rightarrow> u16 stream \<Rightarrow> u16 stream \<Rightarrow> fingerprint_spec \<Rightarrow> bool \<Rightarrow> bool \<Rightarrow>
    'r client_hello \<Rightarrow> 'r client_hello outcome" where
  "overwrite_hello env draws draws' fp add drop_others chp0 =
     (let chp = (case fp_ja3 fp of None \<Rightarrow> chp0 | Some ja3 \<Rightarrow> chp0\<lparr>ch_cipher_suites := ja3_ciphers ja3\<rparr>) in
      case (case fp_ja3 fp of
              None \<Rightarrow> Ready (ch_extensions chp, False)
            | Some ja3 \<Rightarrow> reorder_extensions env draws add drop_others ja3 (ch_extensions chp)) of
        Ready (exts, pad) \<Rightarrow>
          (case rewrite_extensions env fp exts \<lparr>rw_grease = [], rw_draws = draws', rw_pad = pad\<rparr> of
             (exts', st) \<Rightarrow>
               (let chp' = chp\<lparr>ch_extensions := exts'\<rparr> in
                Ready (if rw_pad st then pad_hello env chp' else chp')))
      | Pending \<Rightarrow> Pending
      | Panics msg \<Rightarrow> Panics msg)"

definition overwrite_client_hello :: "('r, 'o) fp_env \<Rightarrow> u16 stream \<Rightarrow> u16 stream \<Rightarrow> fingerprint_spec \<Rightarrow> bool \<Rightarrow> bool \<Rightarrow>
    ('r, 'o) message \<Rightarrow> (u16 list \<times> ('r, 'o) message) outcome" where
  "overwrite_client_hello env draws draws' fp add drop_others msg0 =
     (let msg = (case fp_ja3 fp of None \<Rightarrow> msg0 | Some ja3 \<Rightarrow> msg0\<lparr>msg_version := ja3_version ja3\<rparr>) in
      case msg_payload msg of
        NoHandshake x \<Rightarrow> Ready ([RenegotiationInfo], msg)
      | Handshake (ParsedOther x) encd \<Rightarrow>
          Ready ([RenegotiationInfo], msg\<lparr>msg_payload := Handshake (ParsedOther x) (get_encoding env (ParsedOther x))\<rparr>)
      | Handshake (ParsedHello chp0) encd \<Rightarrow>
          (case overwrite_hello env draws draws' fp add drop_others chp0 of
             Ready chp \<Rightarrow>
               Ready ([RenegotiationInfo],
                 msg\<lparr>msg_payload := Handshake (ParsedHello chp) (get_encoding env (ParsedHello chp))\<rparr>)
           | Pending \<Rightarrow> Pending
           | Panics m \<Rightarrow> Panics m))"

definition get_client_hello_overwriter :: "('r, 'o) fp_env \<Rightarrow> u16 stream \<Rightarrow> u16 stream \<Rightarrow> fingerprint_spec \<Rightarrow> bool \<Rightarrow> bool \<Rightarrow>
    (('r, 'o) message \<Rightarrow> (u16 list \<times> ('r, 'o) message) outcome) option" where
  "get_client_hello_overwriter env draws draws' fp add drop_others =
     (if fp_is_empty fp then None else Some (overwrite_client_hello env draws draws' fp add drop_others))"

section \<open>What the parameters promise\<close>

text \<open>
  The type of an extension depends on its kind only, and is the given number for an unknown one;
  regreasing changes GREASE values into GREASE values and nothing else.
\<close>

abbreviation (input) EllipticCurves :: u16 where "EllipticCurves \<equiv> 0x000a"
abbreviation (input) ECPointFormatsType :: u16 where "ECPointFormatsType \<equiv> 0x000b"

fun is_groups :: "client_extension \<Rightarrow> bool" where
  "is_groups (NamedGroups _) \<longleftrightarrow> True"
| "is_groups _ \<longleftrightarrow> False"

fun is_formats :: "client_extension \<Rightarrow> bool" where
  "is_formats (ECPointFormats _) \<longleftrightarrow> True"
| "is_formats _ \<longleftrightarrow> False"

fun kind :: "client_extension \<Rightarrow> nat \<times> u16" where
  "kind (NamedGroups _) = (0, 0)"
| "kind (ECPointFormats _) = (1, 0)"
| "kind (Protocols _) = (2, 0)"
| "kind (SupportedVersions _) = (3, 0)"
| "kind (SignatureAlgorithms _) = (4, 0)"
| "kind (KeyShare _) = (5, 0)"
| "kind (UnknownExt t _) = (6, t)"
| "kind (OtherExt t _) = (7, t)"

definition fp_env_ok :: "('r, 'o) fp_env \<Rightarrow> bool" where
  "fp_env_ok env \<longleftrightarrow>
     (\<forall>e e'. kind e = kind e' \<longrightarrow> get_type env e = get_type env e') \<and>
     (\<forall>t p. get_type env (UnknownExt t p) = t) \<and>
     (\<forall>g. get_type env (NamedGroups g) = EllipticCurves) \<and>
     (\<forall>f. get_type env (ECPointFormats f) = ECPointFormatsType) \<and>
     (\<forall>d v. is_grease env d \<longrightarrow> is_grease env (regrease env d v) = is_grease env v) \<and>
     (\<forall>d v. \<not> is_grease env v \<longrightarrow> regrease env d v = v) \<and>
     (\<forall>t \<in> {EllipticCurves, ECPointFormatsType, ALProtocolNegotiation}. \<not> is_grease env t)"

section \<open>Lemmas\<close>

text \<open>The extensions in the order of the JA3, the missing ones made up.\<close>

definition made_up :: "u16 \<Rightarrow> client_extension" where
  "made_up t = UnknownExt t (case dummy_payload t of Ready p \<Rightarrow> p | _ \<Rightarrow> [])"

fun placed :: "(u16 \<rightharpoonup> client_extension) \<Rightarrow> u16 list \<Rightarrow> client_extension list" where
  "placed m [] = []"
| "placed m (t # ts) = (case m t of Some e \<Rightarrow> e | None \<Rightarrow> made_up t) # placed (m(t := None)) ts"

lemma dummy_payload_Ready: "t \<noteq> ALProtocolNegotiation \<Longrightarrow> \<exists>p. dummy_payload t = Ready p"
  by (auto simp: dummy_payload_def)

lemma place_extensions_placed:
  assumes "ALProtocolNegotiation \<in> set ts \<Longrightarrow> m ALProtocolNegotiation \<noteq> None"
    and "count_list ts ALProtocolNegotiation \<le> 1"
  shows "\<exists>m' pad'. place_extensions True ts m new pad = Ready (new @ placed m ts, m', pad')"
  using assms
proof (induction ts arbitrary: m new pad)
  case Nil
  then show ?case by simp
next
  case (Cons t ts)
  let ?A = "ALProtocolNegotiation"
  have step: "\<exists>m' pad'. place_extensions True ts m1 new1 pad1 = Ready (new1 @ placed m1 ts, m', pad')"
    if "?A \<in> set ts \<longrightarrow> m1 ?A \<noteq> None" for m1 new1 pad1
    using Cons.prems(2) that by (intro Cons.IH) (auto split: if_splits)
  show ?case
  proof (cases "m t")
    case (Some e)
    have "?A \<in> set ts \<longrightarrow> (m(t := None)) ?A \<noteq> None"
      using Cons.prems by (auto split: if_splits simp: count_list_0_iff)
    from step [of "m(t := None)" "new @ [e]" pad, OF this] Some show ?thesis by simp
  next
    case None
    then have "t \<noteq> ?A" using Cons.prems(1) by auto
    then obtain p where p: "dummy_payload t = Ready p" using dummy_payload_Ready by blast
    have e: "m(t := None) = m" using None by auto
    have "?A \<in> set ts \<longrightarrow> m ?A \<noteq> None" using Cons.prems(1) by simp
    from step [of m "new @ [UnknownExt t p]" "pad \<or> t = Padding", OF this] None p e show ?thesis
      by (simp add: made_up_def)
  qed
qed

lemma placed_types:
  assumes "\<And>t e. m t = Some e \<Longrightarrow> ty e = t" "\<And>t p. ty (UnknownExt t p) = t"
  shows "map ty (placed m ts) = ts"
  using assms(1)
proof (induction ts arbitrary: m)
  case (Cons t ts)
  have "map ty (placed (m(t := None)) ts) = ts"
    by (rule Cons.IH) (auto split: if_splits intro: Cons.prems)
  with Cons.prems [of t] show ?case by (auto simp: made_up_def assms(2) split: option.splits)
qed simp

lemma placed_filter:
  assumes "\<And>t e. m t = Some e \<Longrightarrow> P e \<longleftrightarrow> t = T" "\<And>t. \<not> P (made_up t)"
  shows "filter P (placed m ts) = (if T \<in> set ts then (case m T of Some e \<Rightarrow> [e] | None \<Rightarrow> []) else [])"
  using assms(1)
proof (induction ts arbitrary: m)
  case (Cons t ts)
  have "filter P (placed (m(t := None)) ts) =
      (if T \<in> set ts then (case (m(t := None)) T of Some e \<Rightarrow> [e] | None \<Rightarrow> []) else [])"
    by (rule Cons.IH) (auto split: if_splits simp: Cons.prems)
  with Cons.prems [of t] show ?case
    by (cases "m t") (auto simp: assms(2) split: option.splits)
qed simp

lemma oldextmap_of_type: "oldextmap_of env exts t = Some e \<Longrightarrow> get_type env e = t \<and> e \<in> set exts"
  by (auto simp: oldextmap_of_def dest!: map_of_SomeD)

text \<open>Rewriting changes no kind; after it the extensions with curves and formats are those of the JA3.\<close>

definition degrease :: "('r, 'o) fp_env \<Rightarrow> u16 list \<Rightarrow> u16 list" where
  "degrease env vs = filter (\<lambda>v. \<not> is_grease env v) vs"

fun group_list :: "client_extension \<Rightarrow> u16 list" where
  "group_list (NamedGroups g) = g"
| "group_list _ = []"

fun format_list :: "client_extension \<Rightarrow> bytes" where
  "format_list (ECPointFormats f) = f"
| "format_list _ = []"

definition greasy :: "('r, 'o) fp_env \<Rightarrow> rewrite_state \<Rightarrow> bool" where
  "greasy env st \<longleftrightarrow> (\<forall>g \<in> set (rw_grease st) \<union> sset (rw_draws st). is_grease env g)"

lemma greasy_stl: "greasy env st \<Longrightarrow> greasy env (st\<lparr>rw_draws := stl (rw_draws st)\<rparr>)"
  by (auto simp: greasy_def dest: stl_sset)

lemma grease_curve_greasy:
  assumes "grease_curve env fresh c st = (c', st')" "greasy env st"
  shows "greasy env st' \<and> is_grease env c' = is_grease env c \<and> (is_grease env c \<or> c' = c)"
  using assms
  by (auto simp: grease_curve_def greasy_def ball_Un shd_sset split: if_splits dest!: stl_sset in_set_butlastD)

lemma grease_curves_greasy:
  assumes "grease_curves env fresh cs st = (cs', st')" "greasy env st"
  shows "greasy env st' \<and> degrease env cs' = degrease env cs"
  using assms
proof (induction cs arbitrary: st cs' st')
  case (Cons c cs)
  obtain c1 st1 where 1: "grease_curve env fresh c st = (c1, st1)" by (metis surj_pair)
  obtain cs2 st2 where 2: "grease_curves env fresh cs st1 = (cs2, st2)" by (metis surj_pair)
  from grease_curve_greasy [OF 1 Cons.prems(2)] Cons.IH [OF 2] 1 2 Cons.prems(1)
  show ?case by (auto simp: degrease_def)
qed (simp add: degrease_def)

lemma key_shares_greasy:
  "key_shares env fresh cs m st = (es, st') \<Longrightarrow> greasy env st \<Longrightarrow> greasy env st'"
proof (induction cs arbitrary: st m es st')
  case (Cons c cs)
  show ?case
  proof (cases "m c")
    case (Some e)
    with Cons show ?thesis by (auto split: prod.splits)
  next
    case None
    obtain c1 st1 where 1: "grease_curve env fresh c st = (c1, st1)" by (metis surj_pair)
    obtain cs2 st2 where 2: "key_shares env fresh cs m st1 = (cs2, st2)" by (metis surj_pair)
    from grease_curve_greasy [OF 1 Cons.prems(2)] Cons.IH [OF 2] 1 2 Cons.prems(1) None
    show ?thesis by auto
  qed
qed simp

lemma regrease_all_greasy:
  "regrease_all env vs st = (vs', st') \<Longrightarrow> greasy env st \<Longrightarrow> greasy env st'"
proof (induction vs arbitrary: st vs' st')
  case (Cons v vs)
  obtain vs2 st2 where 2: "regrease_all env vs (st\<lparr>rw_draws := stl (rw_draws st)\<rparr>) = (vs2, st2)"
    by (metis surj_pair)
  from Cons.IH [OF 2 greasy_stl [OF Cons.prems(2)]] 2 Cons.prems(1) show ?case by simp
qed simp

lemma rewrite_extension_result:
  assumes "rewrite_extension env fp e st = (e', st')" "greasy env st" "fp_ja3 fp = Some ja3"
  shows "greasy env st' \<and> kind e' = kind e \<and>
    degrease env (group_list e') = (if is_groups e then degrease env (ja3_curves ja3) else []) \<and>
    format_list e' = (if is_formats e then ja3_point_formats ja3 else [])"
proof (cases e)
  case (NamedGroups g)
  obtain cs st1 where "grease_curves env (rw_grease st = []) (ja3_curves ja3) st = (cs, st1)" by (metis surj_pair)
  with grease_curves_greasy [OF this assms(2)] NamedGroups assms show ?thesis by auto
next
  case (SupportedVersions vs)
  then show ?thesis
    using assms regrease_all_greasy [of env "the (fp_supported_versions fp)" st]
    by (cases "fp_supported_versions fp"; cases "regrease_all env (the (fp_supported_versions fp)) st")
      (auto simp: degrease_def)
next
  case (SignatureAlgorithms vs)
  then show ?thesis
    using assms regrease_all_greasy [of env "the (fp_signature_algos fp)" st]
    by (cases "fp_signature_algos fp"; cases "regrease_all env (the (fp_signature_algos fp)) st")
      (auto simp: degrease_def)
next
  case (KeyShare es)
  let ?m = "map_of (rev (map (\<lambda>e. (fst e, e)) es))"
  show ?thesis
    using assms KeyShare key_shares_greasy [of env "rw_grease st = []" "the (fp_keyshare_curves fp)" ?m st]
    by (cases "fp_keyshare_curves fp";
        cases "key_shares env (rw_grease st = []) (the (fp_keyshare_curves fp)) ?m st")
      (auto simp: degrease_def)
qed (use assms in \<open>auto simp: degrease_def greasy_def split: option.splits if_splits\<close>)

lemma rewrite_extensions_result:
  assumes "rewrite_extensions env fp es st = (es', st')" "greasy env st" "fp_ja3 fp = Some ja3"
  shows "map kind es' = map kind es \<and>
    degrease env (concat (map group_list es')) = concat (map (\<lambda>_. degrease env (ja3_curves ja3)) (filter is_groups es)) \<and>
    concat (map format_list es') = concat (map (\<lambda>_. ja3_point_formats ja3) (filter is_formats es))"
  using assms(1,2)
proof (induction es arbitrary: st es' st')
  case (Cons e es)
  obtain e1 st1 where 1: "rewrite_extension env fp e st = (e1, st1)" by (metis surj_pair)
  obtain es2 st2 where 2: "rewrite_extensions env fp es st1 = (es2, st2)" by (metis surj_pair)
  from rewrite_extension_result [OF 1 Cons.prems(2) assms(3)] Cons.IH [OF 2] 1 2 Cons.prems(1)
  show ?case by (auto simp: degrease_def)
qed (simp add: degrease_def)

lemma resize_padding_keeps:
  "map kind (resize_padding n es) = map kind es" "map group_list (resize_padding n es) = map group_list es"
  "map format_list (resize_padding n es) = map format_list es"
  by (induction n es rule: resize_padding.induct) simp_all

lemma fp_env_okD:
  assumes "fp_env_ok env"
  shows "kind e = kind e' \<Longrightarrow> get_type env e = get_type env e'"
    "get_type env (UnknownExt t p) = t" "get_type env (NamedGroups g) = EllipticCurves"
    "get_type env (ECPointFormats f) = ECPointFormatsType"
    "is_grease env d \<Longrightarrow> is_grease env (regrease env d v) = is_grease env v"
    "\<not> is_grease env v \<Longrightarrow> regrease env d v = v"
    "\<not> is_grease env EllipticCurves" "\<not> is_grease env ECPointFormatsType" "\<not> is_grease env ALProtocolNegotiation"
proof -
  note laws = assms [unfolded fp_env_ok_def]
  show "kind e = kind e' \<Longrightarrow> get_type env e = get_type env e'"
    using laws [THEN conjunct1] by blast
  note laws = laws [THEN conjunct2]
  show "get_type env (UnknownExt t p) = t" using laws [THEN conjunct1] by simp
  note laws = laws [THEN conjunct2]
  show "get_type env (NamedGroups g) = EllipticCurves" using laws [THEN conjunct1] by simp
  note laws = laws [THEN conjunct2]
  show "get_type env (ECPointFormats f) = ECPointFormatsType" using laws [THEN conjunct1] by simp
  note laws = laws [THEN conjunct2]
  show "is_grease env d \<Longrightarrow> is_grease env (regrease env d v) = is_grease env v"
    using laws [THEN conjunct1] by simp
  note laws = laws [THEN conjunct2]
  show "\<not> is_grease env v \<Longrightarrow> regrease env d v = v" using laws [THEN conjunct1] by simp
  show "\<not> is_grease env EllipticCurves" "\<not> is_grease env ECPointFormatsType" "\<not> is_grease env ALProtocolNegotiation"
    using laws [THEN conjunct2] by simp_all
qed

lemma kind_types: "fp_env_ok env \<Longrightarrow> map kind es' = map kind es \<Longrightarrow> map (get_type env) es' = map (get_type env) es"
proof (induction es' arbitrary: es)
  case (Cons e' es')
  then obtain e es1 where "es = e # es1" "kind e' = kind e" "map kind es' = map kind es1" by auto
  with Cons.IH [OF Cons.prems(1)] fp_env_okD(1) [OF Cons.prems(1), of e' e] show ?case by simp
qed simp

lemma degrease_regreased:
  assumes "fp_env_ok env" "\<forall>d \<in> set ds. is_grease env d" "length ds = length ts"
  shows "degrease env (map2 (regrease env) ds ts) = degrease env ts"
  using assms(2,3)
proof (induction ts arbitrary: ds)
  case (Cons t ts)
  then obtain d ds1 where "ds = d # ds1" by (cases ds) auto
  with Cons fp_env_okD(5,6) [OF assms(1), of d] fp_env_okD(6) [OF assms(1), of t d] show ?case
    by (auto simp: degrease_def)
qed (simp add: degrease_def)

lemma stake_sset: "d \<in> set (stake n s) \<Longrightarrow> d \<in> sset s"
  by (induction n arbitrary: s) (auto simp: shd_sset dest: stl_sset)

lemma degrease_mem: "\<not> is_grease env t \<Longrightarrow> t \<in> set (degrease env ts) \<longleftrightarrow> t \<in> set ts"
  by (auto simp: degrease_def)

lemma degrease_count: "\<not> is_grease env t \<Longrightarrow> count_list (degrease env ts) t = count_list ts t"
  by (induction ts) (auto simp: degrease_def)

text \<open>
  The fingerprint that an observer takes of a hello, which leaves GREASE out and has the version of the
  hello itself, not that of the record around it; and the hellos that have the extensions the rewriting needs.
\<close>

definition fingerprint_of :: "('r, 'o) fp_env \<Rightarrow> 'r client_hello \<Rightarrow> ja3" where
  "fingerprint_of env chp =
     \<lparr>ja3_version = ch_client_version chp, ja3_ciphers = degrease env (ch_cipher_suites chp),
      ja3_extensions = degrease env (map (get_type env) (ch_extensions chp)),
      ja3_curves = degrease env (concat (map group_list (ch_extensions chp))),
      ja3_point_formats = concat (map format_list (ch_extensions chp))\<rparr>"

definition without_grease :: "('r, 'o) fp_env \<Rightarrow> ja3 \<Rightarrow> ja3" where
  "without_grease env j = j\<lparr>ja3_ciphers := degrease env (ja3_ciphers j), ja3_extensions := degrease env (ja3_extensions j),
     ja3_curves := degrease env (ja3_curves j)\<rparr>"

definition hello_complete :: "('r, 'o) fp_env \<Rightarrow> client_extension list \<Rightarrow> bool" where
  "hello_complete env exts \<longleftrightarrow>
     list_ex is_groups exts \<and> list_ex is_formats exts \<and>
     list_all (\<lambda>e. (get_type env e = EllipticCurves \<longrightarrow> is_groups e) \<and>
       (get_type env e = ECPointFormatsType \<longrightarrow> is_formats e)) exts"

lemma is_groups_type: "fp_env_ok env \<Longrightarrow> is_groups e \<Longrightarrow> get_type env e = EllipticCurves"
  by (cases e) (simp_all add: fp_env_okD(2-4))

lemma is_formats_type: "fp_env_ok env \<Longrightarrow> is_formats e \<Longrightarrow> get_type env e = ECPointFormatsType"
  by (cases e) (simp_all add: fp_env_okD(2-4))

lemma oldextmap_of_dom: "e \<in> set exts \<Longrightarrow> oldextmap_of env exts (get_type env e) \<noteq> None"
  by (simp add: oldextmap_of_def map_of_eq_None_iff image_image)

lemma placed_groups:
  assumes "fp_env_ok env" "hello_complete env exts" "EllipticCurves \<in> set ts"
  shows "\<exists>e. filter is_groups (placed (oldextmap_of env exts) ts) = [e]"
proof -
  have "filter is_groups (placed (oldextmap_of env exts) ts) =
    (if EllipticCurves \<in> set ts then (case oldextmap_of env exts EllipticCurves of Some e \<Rightarrow> [e] | None \<Rightarrow> []) else [])"
  proof (rule placed_filter)
    fix t e
    assume "oldextmap_of env exts t = Some e"
    from oldextmap_of_type [OF this] assms(2) is_groups_type [OF assms(1), of e]
    show "is_groups e \<longleftrightarrow> t = EllipticCurves" by (auto simp: hello_complete_def list_all_iff)
  qed (simp add: made_up_def)
  moreover obtain e where "e \<in> set exts" "get_type env e = EllipticCurves"
    using assms(2) is_groups_type [OF assms(1)] unfolding hello_complete_def list_ex_iff by blast
  ultimately show ?thesis using oldextmap_of_dom [of e exts env] assms(3) by auto
qed

lemma placed_formats:
  assumes "fp_env_ok env" "hello_complete env exts" "ECPointFormatsType \<in> set ts"
  shows "\<exists>e. filter is_formats (placed (oldextmap_of env exts) ts) = [e]"
proof -
  have "filter is_formats (placed (oldextmap_of env exts) ts) =
    (if ECPointFormatsType \<in> set ts then (case oldextmap_of env exts ECPointFormatsType of Some e \<Rightarrow> [e] | None \<Rightarrow> []) else [])"
  proof (rule placed_filter)
    fix t e
    assume "oldextmap_of env exts t = Some e"
    from oldextmap_of_type [OF this] assms(2) is_formats_type [OF assms(1), of e]
    show "is_formats e \<longleftrightarrow> t = ECPointFormatsType" by (auto simp: hello_complete_def list_all_iff)
  qed (simp add: made_up_def)
  moreover obtain e where "e \<in> set exts" "get_type env e = ECPointFormatsType"
    using assms(2) is_formats_type [OF assms(1)] unfolding hello_complete_def list_ex_iff by blast
  ultimately show ?thesis using oldextmap_of_dom [of e exts env] assms(3) by auto
qed

lemma pad_hello_fingerprint:
  assumes "fp_env_ok env"
  shows "fingerprint_of env (pad_hello env chp) = fingerprint_of env chp"
proof -
  have "map (get_type env) (resize_padding n es) = map (get_type env) es" for n es
    by (rule kind_types [OF assms resize_padding_keeps(1)])
  then show ?thesis by (simp add: pad_hello_def fingerprint_of_def resize_padding_keeps Let_def)
qed

lemma reorder_extensions_placed:
  assumes "fp_env_ok env" "\<forall>d \<in> sset draws. is_grease env d"
    and "ALProtocolNegotiation \<in> set (ja3_extensions j) \<Longrightarrow>
      list_ex (\<lambda>e. get_type env e = ALProtocolNegotiation) exts"
    and "count_list (ja3_extensions j) ALProtocolNegotiation \<le> 1"
  shows "\<exists>ts pad. reorder_extensions env draws True True j exts = Ready (placed (oldextmap_of env exts) ts, pad) \<and>
    degrease env ts = degrease env (ja3_extensions j)"
proof -
  let ?A = "ALProtocolNegotiation" and ?m = "oldextmap_of env exts"
  let ?ds = "stake (length (ja3_extensions j)) draws"
  let ?ts = "map2 (regrease env) ?ds (ja3_extensions j)"
  have d: "degrease env ?ts = degrease env (ja3_extensions j)"
    using assms(2) by (intro degrease_regreased assms(1)) (auto dest: stake_sset)
  have g: "\<not> is_grease env ?A" by (rule fp_env_okD(9) [OF assms(1)])
  have "?A \<in> set ?ts \<Longrightarrow> ?m ?A \<noteq> None"
  proof -
    assume "?A \<in> set ?ts"
    then have "?A \<in> set (ja3_extensions j)"
      using d degrease_mem [OF g, of ?ts] degrease_mem [OF g, of "ja3_extensions j"] by simp
    from assms(3) [OF this] obtain e where "e \<in> set exts" "get_type env e = ?A" by (auto simp: list_ex_iff)
    with oldextmap_of_dom [of e exts env] show ?thesis by simp
  qed
  moreover have "count_list ?ts ?A \<le> 1"
    using assms(4) d degrease_count [OF g, of ?ts] degrease_count [OF g, of "ja3_extensions j"] by simp
  ultimately obtain m' pad where "place_extensions True ?ts ?m [] False = Ready (placed ?m ?ts, m', pad)"
    using place_extensions_placed [of ?ts ?m "[]" False] by auto
  with d show ?thesis by (auto simp: reorder_extensions_def)
qed

lemma overwrite_hello_fingerprint:
  assumes "fp_env_ok env" "hello_complete env (ch_extensions chp)" "fp_ja3 fp = Some j"
    and "EllipticCurves \<in> set (ja3_extensions j)" "ECPointFormatsType \<in> set (ja3_extensions j)"
    and "ALProtocolNegotiation \<in> set (ja3_extensions j) \<Longrightarrow>
      list_ex (\<lambda>e. get_type env e = ALProtocolNegotiation) (ch_extensions chp)"
    and "count_list (ja3_extensions j) ALProtocolNegotiation \<le> 1"
    and "\<forall>d \<in> sset draws. is_grease env d" "\<forall>d \<in> sset draws'. is_grease env d"
  shows "\<exists>chp'. overwrite_hello env draws draws' fp True True chp = Ready chp' \<and>
    fingerprint_of env chp' = (without_grease env j)\<lparr>ja3_version := ch_client_version chp\<rparr>"
proof -
  let ?m = "oldextmap_of env (ch_extensions chp)"
  from reorder_extensions_placed [OF assms(1,8,6,7)] obtain ts pad where
    r: "reorder_extensions env draws True True j (ch_extensions chp) = Ready (placed ?m ts, pad)"
    and d: "degrease env ts = degrease env (ja3_extensions j)" by blast
  let ?st = "\<lparr>rw_grease = [], rw_draws = draws', rw_pad = pad\<rparr>"
  obtain es st where e: "rewrite_extensions env fp (placed ?m ts) ?st = (es, st)" by (metis surj_pair)
  have "greasy env ?st" using assms(9) by (simp add: greasy_def)
  note es = rewrite_extensions_result [OF e this assms(3)]
  have in_ts: "t \<in> set ts" if "\<not> is_grease env t" "t \<in> set (ja3_extensions j)" for t
    using that d degrease_mem [of env t ts] degrease_mem [of env t "ja3_extensions j"] by simp
  from placed_groups [OF assms(1,2) in_ts [OF fp_env_okD(7) [OF assms(1)] assms(4)]]
  obtain x where x: "filter is_groups (placed ?m ts) = [x]" by blast
  from placed_formats [OF assms(1,2) in_ts [OF fp_env_okD(8) [OF assms(1)] assms(5)]]
  obtain y where y: "filter is_formats (placed ?m ts) = [y]" by blast
  have "map (get_type env) es = map (get_type env) (placed ?m ts)"
    by (rule kind_types [OF assms(1) es [THEN conjunct1]])
  also have "\<dots> = ts"
    by (rule placed_types) (simp_all add: oldextmap_of_type fp_env_okD(2) [OF assms(1)])
  finally have t: "map (get_type env) es = ts" .
  let ?chp = "chp\<lparr>ch_cipher_suites := ja3_ciphers j, ch_extensions := es\<rparr>"
  have "fingerprint_of env ?chp = (without_grease env j)\<lparr>ja3_version := ch_client_version chp\<rparr>"
    using es x y t d by (simp add: fingerprint_of_def without_grease_def)
  with pad_hello_fingerprint [OF assms(1)] r e assms(3) show ?thesis
    by (auto simp: overwrite_hello_def Let_def)
qed

text \<open>Padding: after the rewriting every padding extension is empty, and padding is wanted if there is one.\<close>

fun is_padding :: "client_extension \<Rightarrow> bool" where
  "is_padding (UnknownExt t p) \<longleftrightarrow> t = Padding"
| "is_padding _ \<longleftrightarrow> False"

fun strip_padding :: "client_extension \<Rightarrow> client_extension" where
  "strip_padding (UnknownExt t p) = UnknownExt t (if t = Padding then [] else p)"
| "strip_padding e = e"

text \<open>Each byte of padding is one byte of the message.\<close>

definition encoding_ok :: "('r, 'o) fp_env \<Rightarrow> bool" where
  "encoding_ok env \<longleftrightarrow>
     (\<forall>chp xs p ys. length (get_encoding env (ParsedHello (chp\<lparr>ch_extensions := xs @ UnknownExt Padding p # ys\<rparr>)))
        = length (get_encoding env (ParsedHello (chp\<lparr>ch_extensions := xs @ UnknownExt Padding [] # ys\<rparr>))) + length p)"

lemma grease_pad:
  "rw_pad (snd (grease_curve env fresh c st)) = rw_pad st"
  "rw_pad (snd (grease_curves env fresh cs st)) = rw_pad st"
  "rw_pad (snd (regrease_all env cs st)) = rw_pad st"
proof -
  show c: "rw_pad (snd (grease_curve env fresh c st)) = rw_pad st" for c st
    by (simp add: grease_curve_def)
  show "rw_pad (snd (grease_curves env fresh cs st)) = rw_pad st"
  proof (induction cs arbitrary: st)
    case (Cons a cs)
    then show ?case using c [of a st] by (simp add: case_prod_unfold Let_def)
  qed simp
  show "rw_pad (snd (regrease_all env cs st)) = rw_pad st"
  proof (induction cs arbitrary: st)
    case (Cons a cs)
    from Cons [of "st\<lparr>rw_draws := stl (rw_draws st)\<rparr>"] show ?case by (simp add: case_prod_unfold Let_def)
  qed simp
qed

lemma key_shares_pad: "rw_pad (snd (key_shares env fresh cs m st)) = rw_pad st"
proof (induction cs arbitrary: m st)
  case (Cons c cs)
  show ?case
  proof (cases "m c")
    case None
    then show ?thesis
      using Cons [of m "snd (grease_curve env fresh c st)"] grease_pad(1) [of env fresh c st]
      by (simp add: case_prod_unfold Let_def)
  next
    case (Some e)
    then show ?thesis using Cons [of "m(c := None)" st] by (simp add: case_prod_unfold Let_def del: fun_upd_apply)
  qed
qed simp

lemma rewrite_extension_padding:
  assumes "rewrite_extension env fp e st = (e', st')"
  shows "is_padding e' = is_padding e \<and> strip_padding e' = e' \<and> rw_pad st' = (rw_pad st \<or> is_padding e)"
proof -
  have "is_padding (fst q) = is_padding e \<and> strip_padding (fst q) = fst q \<and> rw_pad (snd q) = (rw_pad st \<or> is_padding e)"
    if "q = rewrite_extension env fp e st" for q
    unfolding that by (cases e) (simp_all add: grease_pad key_shares_pad split: option.splits)
  from this [of "(e', st')"] assms show ?thesis by simp
qed

lemma rewrite_extensions_padding:
  assumes "rewrite_extensions env fp es st = (es', st')"
  shows "list_ex is_padding es' = list_ex is_padding es \<and> map strip_padding es' = es' \<and>
    rw_pad st' = (rw_pad st \<or> list_ex is_padding es)"
  using assms
proof (induction es arbitrary: st es' st')
  case (Cons e es)
  obtain e1 st1 where 1: "rewrite_extension env fp e st = (e1, st1)" by (metis surj_pair)
  obtain es2 st2 where 2: "rewrite_extensions env fp es st1 = (es2, st2)" by (metis surj_pair)
  from rewrite_extension_padding [OF 1] Cons.IH [OF 2] 1 2 Cons.prems show ?case by auto
qed simp

lemma resize_padding_split:
  assumes "list_ex is_padding es" "map strip_padding es = es"
  shows "\<exists>xs ys. es = xs @ UnknownExt Padding [] # ys \<and>
    resize_padding n es = xs @ UnknownExt Padding (replicate n 0) # ys"
  using assms
proof (induction n es rule: resize_padding.induct)
  case (2 n t p es)
  show ?case
  proof (cases "t = Padding")
    case True
    with 2(3) show ?thesis by (intro exI [of _ "[]"] exI [of _ es]) simp
  next
    case False
    with 2 obtain xs ys where "es = xs @ UnknownExt Padding [] # ys"
      "resize_padding n es = xs @ UnknownExt Padding (replicate n 0) # ys" by auto
    with False show ?thesis by (intro exI [of _ "UnknownExt t p # xs"] exI [of _ ys]) simp
  qed
qed (auto intro: exI [of _ "_ # _"], (metis append_Cons)+)

lemma pad_hello_length:
  assumes "encoding_ok env" "list_ex is_padding (ch_extensions chp)"
    "map strip_padding (ch_extensions chp) = ch_extensions chp"
  shows "length (get_encoding env (ParsedHello (pad_hello env chp)))
      = max RFC7685_PADDING_TARGET (length (get_encoding env (ParsedHello chp)))"
    "map strip_padding (ch_extensions (pad_hello env chp)) = ch_extensions chp"
proof -
  let ?n = "RFC7685_PADDING_TARGET - length (get_encoding env (ParsedHello chp))"
  from resize_padding_split [OF assms(2,3)] obtain xs ys where
    xs: "ch_extensions chp = xs @ UnknownExt Padding [] # ys"
    and r: "resize_padding ?n (ch_extensions chp) = xs @ UnknownExt Padding (replicate ?n 0) # ys" by blast
  have "chp = chp\<lparr>ch_extensions := xs @ UnknownExt Padding [] # ys\<rparr>" using xs by simp
  then have "length (get_encoding env (ParsedHello (chp\<lparr>ch_extensions := xs @ UnknownExt Padding (replicate ?n 0) # ys\<rparr>)))
      = length (get_encoding env (ParsedHello chp)) + ?n"
    using assms(1) unfolding encoding_ok_def by (metis length_replicate)
  with r show "length (get_encoding env (ParsedHello (pad_hello env chp)))
      = max RFC7685_PADDING_TARGET (length (get_encoding env (ParsedHello chp)))"
    by (auto simp: pad_hello_def Let_def)
  show "map strip_padding (ch_extensions (pad_hello env chp)) = ch_extensions chp"
    using xs r assms(3) by (simp add: pad_hello_def Let_def)
qed

section \<open>Properties\<close>

text \<open>
  C13. The rewritten ClientHello has the fingerprint that was asked for, except for the version. For a hello with the
  extensions for groups and point formats, and a JA3 that lists both and lists ALPN at most once and only where the hello
  has it, rewriting with made-up and without unlisted extensions does not panic, and the JA3 that an observer takes of the
  result, which leaves GREASE values out, has exactly the cipher suites, the extensions in their order, the curves and the
  point formats of the given one. The bytes sent are the encoding of that hello. The version that was asked for goes
  into the header of the record only: the version of the hello, which is the one a JA3 has, stays what it was.
\<close>

theorem fingerprint_applied:
  assumes "fp_env_ok env" "hello_complete env (ch_extensions chp)" "fp_ja3 fp = Some j"
    and "EllipticCurves \<in> set (ja3_extensions j)" "ECPointFormatsType \<in> set (ja3_extensions j)"
    and "ALProtocolNegotiation \<in> set (ja3_extensions j) \<Longrightarrow>
      list_ex (\<lambda>e. get_type env e = ALProtocolNegotiation) (ch_extensions chp)"
    and "count_list (ja3_extensions j) ALProtocolNegotiation \<le> 1"
    and "\<forall>d \<in> sset draws. is_grease env d" "\<forall>d \<in> sset draws'. is_grease env d"
    and "msg_payload msg = Handshake (ParsedHello chp) encd"
  shows "\<exists>overwriter msg' chp'.
    get_client_hello_overwriter env draws draws' fp True True = Some overwriter \<and>
    overwriter msg = Ready ([RenegotiationInfo], msg') \<and>
    msg_payload msg' = Handshake (ParsedHello chp') (get_encoding env (ParsedHello chp')) \<and>
    fingerprint_of env chp' = (without_grease env j)\<lparr>ja3_version := ch_client_version chp\<rparr> \<and>
    msg_version msg' = ja3_version j"
  using overwrite_hello_fingerprint [OF assms(1-9)] assms(3,10)
  by (auto simp: get_client_hello_overwriter_def fp_is_empty_def overwrite_client_hello_def)

text \<open>
  A hello with a key share, groups and formats, and a fingerprint that asks for another order, GREASE, the
  renegotiation extension and padding.
\<close>

fun sample_type :: "client_extension \<Rightarrow> u16" where
  "sample_type (NamedGroups _) = EllipticCurves"
| "sample_type (ECPointFormats _) = ECPointFormatsType"
| "sample_type (Protocols _) = ALProtocolNegotiation"
| "sample_type (SupportedVersions _) = 0x2b"
| "sample_type (SignatureAlgorithms _) = 0x0d"
| "sample_type (KeyShare _) = 0x33"
| "sample_type (UnknownExt t _) = t"
| "sample_type (OtherExt t _) = t"

fun sample_body :: "client_extension \<Rightarrow> bytes" where
  "sample_body (UnknownExt t p) = be16 t @ be16 (of_nat (length p)) @ p"
| "sample_body (OtherExt t p) = be16 t @ be16 (of_nat (length p)) @ p"
| "sample_body e = be16 (sample_type e)"

fun sample_encoding :: "(unit, unit) parsed_payload \<Rightarrow> bytes" where
  "sample_encoding (ParsedHello chp) = concat (map sample_body (ch_extensions chp))"
| "sample_encoding (ParsedOther _) = []"

definition sample_fp_env :: "(unit, unit) fp_env" where
  "sample_fp_env = \<lparr>get_type = sample_type, get_encoding = sample_encoding,
     is_grease = (\<lambda>v. v = 0x0a0a \<or> v = 0x1a1a), regrease = (\<lambda>d v. if v = 0x0a0a \<or> v = 0x1a1a then d else v),
     into_values = (\<lambda>_. [])\<rparr>"

definition sample_chp :: "unit client_hello" where
  "sample_chp = \<lparr>ch_client_version = 0x0303, ch_cipher_suites = [0x1301],
     ch_extensions = [KeyShare [(29, [7])], ECPointFormats [0], NamedGroups [29]], ch_rest = ()\<rparr>"

definition sample_ja3 :: ja3 where
  "sample_ja3 = \<lparr>ja3_version = 0x0301, ja3_ciphers = [0x1302, 0x1301],
     ja3_extensions = [0x0a0a, EllipticCurves, RenegotiationInfo, 0x33, ECPointFormatsType, Padding],
     ja3_curves = [0x0a0a, 29, 23], ja3_point_formats = [0]\<rparr>"

lemma kind_sample_type: "kind e = kind e' \<Longrightarrow> sample_type e = sample_type e'"
  by (cases e; cases e') simp_all

lemma sample_fp_env_ok: "fp_env_ok sample_fp_env"
  unfolding fp_env_ok_def
proof (intro conjI)
  show "\<forall>e e'. kind e = kind e' \<longrightarrow> get_type sample_fp_env e = get_type sample_fp_env e'"
  proof (intro allI impI)
    fix e e'
    assume "kind e = kind e'"
    from kind_sample_type [OF this] show "get_type sample_fp_env e = get_type sample_fp_env e'"
      by (simp add: sample_fp_env_def)
  qed
qed (simp_all add: sample_fp_env_def)

theorem fingerprint_applied_witness:
  "\<exists>overwriter msg' chp'.
     get_client_hello_overwriter sample_fp_env (sconst 0x1a1a) (sconst 0x1a1a) (fp_new\<lparr>fp_ja3 := Some sample_ja3\<rparr>) True True
       = Some overwriter \<and>
     overwriter \<lparr>msg_version = 0x0303, msg_payload = Handshake (ParsedHello sample_chp) []\<rparr>
       = Ready ([RenegotiationInfo], msg') \<and>
     msg_payload msg' = Handshake (ParsedHello chp') (get_encoding sample_fp_env (ParsedHello chp')) \<and>
     fingerprint_of sample_fp_env chp' = (without_grease sample_fp_env sample_ja3)\<lparr>ja3_version := 0x0303\<rparr> \<and>
     msg_version msg' = 0x0301"
proof -
  have "\<exists>overwriter msg' chp'.
     get_client_hello_overwriter sample_fp_env (sconst 0x1a1a) (sconst 0x1a1a) (fp_new\<lparr>fp_ja3 := Some sample_ja3\<rparr>) True True
       = Some overwriter \<and>
     overwriter \<lparr>msg_version = 0x0303, msg_payload = Handshake (ParsedHello sample_chp) []\<rparr>
       = Ready ([RenegotiationInfo], msg') \<and>
     msg_payload msg' = Handshake (ParsedHello chp') (get_encoding sample_fp_env (ParsedHello chp')) \<and>
     fingerprint_of sample_fp_env chp' = (without_grease sample_fp_env sample_ja3)\<lparr>ja3_version := ch_client_version sample_chp\<rparr> \<and>
     msg_version msg' = ja3_version sample_ja3"
    by (rule fingerprint_applied [OF sample_fp_env_ok, where chp = sample_chp and encd = "[]"])
      (simp_all add: sample_fp_env_def sample_chp_def sample_ja3_def hello_complete_def)
  then show ?thesis by (simp add: sample_chp_def sample_ja3_def)
qed

text \<open>
  C29. A rewritten hello with a padding extension is padded as RFC 7685 asks: whatever the fingerprint and
  the options, the message is exactly 512 bytes long when it would be shorter without padding, and has no
  padding bytes otherwise.
\<close>

theorem padded_hello_length:
  assumes "encoding_ok env" "overwrite_hello env draws draws' fp add drop_others chp = Ready chp'"
    and "list_ex is_padding (ch_extensions chp')"
    and "bare = chp'\<lparr>ch_extensions := map strip_padding (ch_extensions chp')\<rparr>"
  shows "length (get_encoding env (ParsedHello chp')) =
      max RFC7685_PADDING_TARGET (length (get_encoding env (ParsedHello bare)))"
proof -
  let ?c = "case fp_ja3 fp of None \<Rightarrow> chp | Some ja3 \<Rightarrow> chp\<lparr>ch_cipher_suites := ja3_ciphers ja3\<rparr>"
  from assms(2) obtain exts pad es st where
    e: "rewrite_extensions env fp exts \<lparr>rw_grease = [], rw_draws = draws', rw_pad = pad\<rparr> = (es, st)"
    and c': "chp' = (if rw_pad st then pad_hello env (?c\<lparr>ch_extensions := es\<rparr>) else ?c\<lparr>ch_extensions := es\<rparr>)"
    unfolding overwrite_hello_def Let_def by (auto split: outcome.splits prod.splits)
  define chp1 where "chp1 = ?c\<lparr>ch_extensions := es\<rparr>"
  with c' have c: "ch_extensions chp1 = es" "chp' = (if rw_pad st then pad_hello env chp1 else chp1)" by simp_all
  note p = rewrite_extensions_padding [OF e]
  have "map kind (ch_extensions chp') = map kind es"
    using c by (simp add: pad_hello_def Let_def resize_padding_keeps)
  moreover have "is_padding e \<longleftrightarrow> kind e = (6, Padding)" for e by (cases e) auto
  then have "list_ex is_padding us \<longleftrightarrow> (6, Padding) \<in> set (map kind us)" for us
    by (force simp: list_ex_iff image_iff)
  ultimately have i: "list_ex is_padding es" using assms(3) by metis
  with p c have "chp' = pad_hello env chp1" by simp
  moreover have "bare = chp1"
    using assms(4) pad_hello_length(2) [OF assms(1), of chp1] i p c by (auto simp: pad_hello_def Let_def)
  ultimately show ?thesis using pad_hello_length(1) [OF assms(1), of chp1] i p c(1) by simp
qed

theorem padded_hello_length_witness:
  "\<exists>chp'. overwrite_hello sample_fp_env (sconst 0x1a1a) (sconst 0x1a1a) (fp_new\<lparr>fp_ja3 := Some sample_ja3\<rparr>) True True
     sample_chp = Ready chp' \<and> length (sample_encoding (ParsedHello chp')) = 512"
proof -
  have ok: "encoding_ok sample_fp_env"
    by (simp add: encoding_ok_def sample_fp_env_def be16_def)
  let ?o = "overwrite_hello sample_fp_env (sconst 0x1a1a) (sconst 0x1a1a) (fp_new\<lparr>fp_ja3 := Some sample_ja3\<rparr>) True True
     sample_chp"
  let ?es = "[UnknownExt 0x1a1a [], NamedGroups [0x1a1a, 29, 23], UnknownExt RenegotiationInfo [0], KeyShare [(29, [7])],
     ECPointFormats [0]]"
  have "?o = Ready (pad_hello sample_fp_env (sample_chp\<lparr>ch_cipher_suites := [0x1302, 0x1301],
      ch_extensions := ?es @ [UnknownExt Padding []]\<rparr>))"
    by (simp add: overwrite_hello_def reorder_extensions_def fp_new_def sample_ja3_def sample_chp_def oldextmap_of_def
        sample_fp_env_def dummy_payload_def grease_curve_def Let_def)
  then obtain chp' where c: "?o = Ready chp'" "ch_extensions chp' = ?es @ [UnknownExt Padding (replicate 493 0)]"
    by (auto simp: pad_hello_def sample_fp_env_def be16_def Let_def)
  from padded_hello_length [OF ok c(1)] c show ?thesis
    by (simp add: sample_fp_env_def be16_def)
qed

end
