(* ===== verification/TlsRecord.thy ===== *)
theory TlsRecord
  imports Prelude
begin

text \<open>
  TLS records as the tunnel handles them: \<open>read_tls_message\<close> of \<open>tunnel/src/utils.rs\<close>, which reads one
  record into a buffer, and \<open>copy_until_tls12_handshake_finished\<close> of \<open>tunnel/src/server.rs\<close>, which
  forwards one direction of a TLS 1.2 handshake. Which content types and protocol versions the
  \<open>rustls\<close> crate knows is a parameter.
\<close>

section \<open>Reading one record\<close>

abbreviation (input) MAXIMUM_CIPHERTEXT_LENGTH :: nat where "MAXIMUM_CIPHERTEXT_LENGTH \<equiv> 16384"

record tls_params =
  unknown_type :: "byte \<Rightarrow> bool"
  unknown_version :: "u16 \<Rightarrow> bool"

datatype message_error = InvalidContentType | UnknownProtocolVersion | InvalidEmptyPayload | MessageTooLarge

text \<open>
  The two levels of \<open>Result\<close> are kept. On success the value is the new content of the caller's buffer;
  on a message error the buffer is left as it was. The five bytes of the header are off the connection
  in either case.
\<close>

definition read_tls_message :: "tls_params \<Rightarrow> (conn, io_error, message_error + bytes) action" where
  "read_tls_message P =
     io_bind (read_exact 5) (\<lambda>header.
       let version = of_be16 (header ! 1) (header ! 2);
           len = unat (of_be16 (header ! 3) (header ! 4)) in
       if unknown_type P (header ! 0) then io_return (Inl InvalidContentType)
       else if unknown_version P version \<and> version AND 0xff00 \<noteq> 0x0300
         then io_return (Inl UnknownProtocolVersion)
       else if header ! 0 \<noteq> 0x17 \<and> len = 0 then io_return (Inl InvalidEmptyPayload)
       else if len \<ge> MAXIMUM_CIPHERTEXT_LENGTH then io_return (Inl MessageTooLarge)
       else io_bind (read_exact len) (\<lambda>pl. io_return (Inr (header @ pl))))"

lemma read_tls_message_Inr:
  assumes "read_tls_message P c = (Ready (Inr (Inr buf)), c')"
  shows "inp c = buf @ inp c' \<and> out c' = out c \<and> c' = c\<lparr>inp := inp c'\<rparr> \<and>
    5 \<le> length buf \<and> length buf < 5 + MAXIMUM_CIPHERTEXT_LENGTH"
proof -
  from assms obtain h c1 pl where h: "read_exact 5 c = (Ready (Inr h), c1)"
    and pl: "read_exact (unat (of_be16 (h ! 3) (h ! 4))) c1 = (Ready (Inr pl), c')"
    and l: "unat (of_be16 (h ! 3) (h ! 4)) < MAXIMUM_CIPHERTEXT_LENGTH" and buf: "buf = h @ pl"
    by (auto simp: read_tls_message_def io_bind_Ready_Inr Let_def split: if_splits)
  note H = read_exact_result [OF h] and Q = read_exact_result [OF pl]
  have "c' = c\<lparr>inp := inp c'\<rparr>" unfolding Q(3) H(3) by simp
  moreover from this have "out c' = out c" by (metis conn.select_convs(3) conn.surjective conn.update_convs(1))
  ultimately show ?thesis using H(1,2) Q(1,2) l buf by simp
qed

lemma read_tls_message_Inl:
  assumes "read_tls_message P c = (Ready (Inr (Inl e)), c')"
  shows "5 \<le> length (inp c) \<and> inp c' = drop 5 (inp c) \<and> out c' = out c"
proof -
  from assms obtain h where h: "read_exact 5 c = (Ready (Inr h), c')"
    by (auto simp: read_tls_message_def io_bind_Ready_Inr Let_def split: if_splits)
  note H = read_exact_result [OF h]
  have "out c' = out c" unfolding H(3) by simp
  with H(1,2) show ?thesis by simp
qed

section \<open>Forwarding a handshake\<close>

abbreviation (input) HANDSHAKE :: byte where "HANDSHAKE \<equiv> 0x16"
abbreviation (input) CHANGE_CIPHER_SPEC :: byte where "CHANGE_CIPHER_SPEC \<equiv> 0x14"

text \<open>The state is the half that is read and the half that is written.\<close>

definition reading :: "(conn, io_error, 'a) action \<Rightarrow> (conn \<times> conn, io_error, 'a) action" where
  "reading m p = (case m (fst p) of (r, c) \<Rightarrow> (r, (c, snd p)))"

definition writing :: "(conn, io_error, 'a) action \<Rightarrow> (conn \<times> conn, io_error, 'a) action" where
  "writing m p = (case m (snd p) of (r, c) \<Rightarrow> (r, (fst p, c)))"

text \<open>One record: header and data are read and written on; the value is the content type.\<close>

definition copy_record :: "(conn \<times> conn, io_error, byte) action" where
  "copy_record =
     io_bind (reading (read_exact 5)) (\<lambda>header_buf.
     let data_size = unat (of_be16 (header_buf ! 3) (header_buf ! 4)) in
     io_bind (writing (write_all header_buf)) (\<lambda>_.
     io_bind (reading (read_exact data_size)) (\<lambda>dat.
     io_bind (writing (write_all dat)) (\<lambda>_.
     io_return (header_buf ! 0)))))"

lemma reading_Ready_Inr:
  "reading m p = (Ready (Inr a), q) \<longleftrightarrow> (\<exists>c. m (fst p) = (Ready (Inr a), c) \<and> q = (c, snd p))"
  by (auto simp: reading_def split: prod.splits)

lemma writing_Ready_Inr:
  "writing m p = (Ready (Inr a), q) \<longleftrightarrow> (\<exists>c. m (snd p) = (Ready (Inr a), c) \<and> q = (fst p, c))"
  by (auto simp: writing_def split: prod.splits)

lemma copy_record_Inr:
  assumes "copy_record (r, w) = (Ready (Inr t), (r', w'))"
  shows "\<exists>bs. inp r = bs @ inp r' \<and> out w' = out w @ bs \<and> 5 \<le> length bs \<and> bs ! 0 = t"
proof -
  from assms obtain h r1 w1 d where h: "read_exact 5 r = (Ready (Inr h), r1)"
    and wh: "write_all h w = (Ready (Inr ()), w1)"
    and d: "read_exact (unat (of_be16 (h ! 3) (h ! 4))) r1 = (Ready (Inr d), r')"
    and wd: "write_all d w1 = (Ready (Inr ()), w')" and t: "t = h ! 0"
    by (auto simp: copy_record_def io_bind_Ready_Inr reading_Ready_Inr writing_Ready_Inr Let_def)
  note H = read_exact_result [OF h] and D = read_exact_result [OF d]
  have "inp r = (h @ d) @ inp r'" using H(1) D(1) by simp
  moreover have "out w' = out w @ (h @ d)"
    using write_all_result(1) [OF wh] write_all_result(1) [OF wd] by simp
  moreover have "(h @ d) ! 0 = t" "5 \<le> length (h @ d)" using H(2) t by (simp_all add: nth_append)
  ultimately show ?thesis by blast
qed

lemma copy_record_shrinks:
  assumes "copy_record p = (Ready (Inr t), p')"
  shows "length (inp (fst p')) < length (inp (fst p))"
proof -
  have "copy_record (fst p, snd p) = (Ready (Inr t), (fst p', snd p'))" using assms by simp
  from copy_record_Inr [OF this] show ?thesis by auto
qed

function copy_until_tls12_handshake_finished :: "bool \<Rightarrow> (conn \<times> conn, io_error, unit) action" where
  "copy_until_tls12_handshake_finished has_seen_change_cipher_spec p =
     (case copy_record p of
        (Ready (Inr t), p') \<Rightarrow>
          (if t \<noteq> HANDSHAKE \<and> t \<noteq> CHANGE_CIPHER_SPEC
           then (Ready (Inl (IoError InvalidData ''Invalid TLS state'')), p')
           else if t \<noteq> HANDSHAKE \<and> \<not> has_seen_change_cipher_spec
             then copy_until_tls12_handshake_finished True p'
           else if has_seen_change_cipher_spec then (Ready (Inr ()), p')
           else copy_until_tls12_handshake_finished has_seen_change_cipher_spec p')
      | (Ready (Inl e), p') \<Rightarrow> (Ready (Inl e), p')
      | (Pending, p') \<Rightarrow> (Pending, p')
      | (Panics msg, p') \<Rightarrow> (Panics msg, p'))"
  by pat_completeness auto

termination
  by (relation "measure (\<lambda>(seen, p). length (inp (fst p)))") (auto dest!: sym [of _ "copy_record _"] dest: copy_record_shrinks)

declare copy_until_tls12_handshake_finished.simps [simp del]

text \<open>
  The two directions between \<open>inbound\<close> and \<open>outbound\<close> run at the same time on different halves; both
  must end before the errors are looked at.
\<close>

definition relay_until_tls12_handshake_finished :: "(conn \<times> conn, io_error, unit) action" where
  "relay_until_tls12_handshake_finished p =
     (case copy_until_tls12_handshake_finished False p of
        (a, inb, outb) \<Rightarrow>
          (case copy_until_tls12_handshake_finished False (outb, inb) of
             (b, outb', inb') \<Rightarrow>
               ((case (a, b) of
                   (Panics msg, _) \<Rightarrow> Panics msg
                 | (_, Panics msg) \<Rightarrow> Panics msg
                 | (Pending, _) \<Rightarrow> Pending
                 | (_, Pending) \<Rightarrow> Pending
                 | (Ready (Inl e), _) \<Rightarrow> Ready (Inl e)
                 | (Ready (Inr _), Ready r) \<Rightarrow> Ready r), (inb', outb'))))"

lemma copy_until_forwards:
  "copy_until_tls12_handshake_finished seen p = (Ready (Inr u), q) \<Longrightarrow>
     \<exists>bs. inp (fst p) = bs @ inp (fst q) \<and> out (snd q) = out (snd p) @ bs"
proof (induction seen p rule: copy_until_tls12_handshake_finished.induct)
  case (1 seen p)
  from "1.prems" obtain t p' where c: "copy_record p = (Ready (Inr t), p')"
    by (auto simp: copy_until_tls12_handshake_finished.simps [of seen p] split: prod.splits outcome.splits sum.splits)
  obtain bs where bs: "inp (fst p) = bs @ inp (fst p')" "out (snd p') = out (snd p) @ bs"
    using copy_record_Inr [of "fst p" "snd p" t "fst p'" "snd p'"] c by auto
  consider (again) s where "copy_until_tls12_handshake_finished s p' = (Ready (Inr u), q)"
      "t = CHANGE_CIPHER_SPEC \<and> \<not> seen \<and> s \<or> \<not> seen \<and> \<not> s \<and> t = HANDSHAKE"
    | (stop) "q = p'"
    using "1.prems" c
    by (auto simp: copy_until_tls12_handshake_finished.simps [of seen p] split: if_splits)
  then show ?case
  proof cases
    case again
    have "\<exists>cs. inp (fst p') = cs @ inp (fst q) \<and> out (snd q) = out (snd p') @ cs"
      using again c "1.prems" "1.IH"
      by (cases s) (auto simp: copy_until_tls12_handshake_finished.simps [of seen p] split: if_splits)
    then obtain cs where "inp (fst p') = cs @ inp (fst q)" "out (snd q) = out (snd p') @ cs" by blast
    with bs show ?thesis by (intro exI [of _ "bs @ cs"]) simp
  next
    case stop
    with bs show ?thesis by auto
  qed
qed

section \<open>Properties\<close>

type_synonym tls_rec = "byte \<times> u16 \<times> bytes"

definition tls_wire :: "tls_rec \<Rightarrow> bytes" where
  "tls_wire x = (case x of (t, v, d) \<Rightarrow> [t] @ be16 v @ be16 (of_nat (length d)) @ d)"

definition tls_fits :: "tls_rec \<Rightarrow> bool" where
  "tls_fits x \<longleftrightarrow> length (snd (snd x)) < 65536"

lemma copy_record_wire:
  assumes "inp r = tls_wire (t, v, d) @ rest" "tls_fits (t, v, d)" "wr_room w = None"
  shows "copy_record (r, w) = (Ready (Inr t), (r\<lparr>inp := rest\<rparr>, w\<lparr>out := out w @ tls_wire (t, v, d)\<rparr>))"
proof -
  obtain a b where v: "be16 v = [a, b]" by (simp add: be16_def)
  obtain h l where n: "be16 (of_nat (length d)) = [h, l]" by (simp add: be16_def)
  then have len: "unat (of_be16 h l) = length d"
    using assms(2) by (simp add: of_be16_be16 tls_fits_def unat_of_nat take_bit_nat_eq_self)
  have i: "inp r = [t, a, b, h, l] @ d @ rest" using assms(1) v n by (simp add: tls_wire_def)
  then have "read_exact 5 r = (Ready (Inr [t, a, b, h, l]), r\<lparr>inp := d @ rest\<rparr>)"
    by (rule read_exact_append) simp
  moreover have "read_exact (length d) (r\<lparr>inp := d @ rest\<rparr>) = (Ready (Inr d), r\<lparr>inp := rest\<rparr>)"
    by (simp add: read_exact_def)
  ultimately show ?thesis
    using len assms(3) v n
    by (simp add: copy_record_def io_bind_def reading_def writing_def write_all_unbounded tls_wire_def)
qed

lemma copy_until_records:
  "list_all (\<lambda>x. fst x = HANDSHAKE \<and> tls_fits x) xs \<Longrightarrow> inp r = concat (map tls_wire xs) @ rest \<Longrightarrow>
   wr_room w = None \<Longrightarrow>
     copy_until_tls12_handshake_finished False (r, w) =
       copy_until_tls12_handshake_finished False
         (r\<lparr>inp := rest\<rparr>, w\<lparr>out := out w @ concat (map tls_wire xs)\<rparr>)"
proof (induction xs arbitrary: r w)
  case Nil
  then have "r\<lparr>inp := rest\<rparr> = r" "w\<lparr>out := out w @ concat (map tls_wire [])\<rparr> = w" by simp_all
  then show ?case by (simp only:)
next
  case (Cons x xs)
  obtain v d where x: "x = (HANDSHAKE, v, d)" using Cons.prems(1) by (cases x) auto
  have "copy_record (r, w) = (Ready (Inr HANDSHAKE), (r\<lparr>inp := concat (map tls_wire xs) @ rest\<rparr>, w\<lparr>out := out w @ tls_wire x\<rparr>))"
    using Cons.prems x by (simp add: copy_record_wire)
  then have "copy_until_tls12_handshake_finished False (r, w) = copy_until_tls12_handshake_finished False
      (r\<lparr>inp := concat (map tls_wire xs) @ rest\<rparr>, w\<lparr>out := out w @ tls_wire x\<rparr>)"
    by (simp add: copy_until_tls12_handshake_finished.simps [of False "(r, w)"])
  then show ?case
    using Cons.IH [of "r\<lparr>inp := concat (map tls_wire xs) @ rest\<rparr>" "w\<lparr>out := out w @ tls_wire x\<rparr>"] Cons.prems
    by simp
qed

text \<open>
  One direction of a TLS 1.2 handshake is forwarded exactly: any number of handshake records, the
  ChangeCipherSpec record and the one record after it go through byte for byte, and then the loop
  ends without touching what follows, which is no longer the handshake's.
\<close>

lemma tls12_handshake_forwarded:
  assumes "list_all (\<lambda>x. fst x = HANDSHAKE \<and> tls_fits x) xs"
    and "ccs = (CHANGE_CIPHER_SPEC, v1, d1)" "fin = (t2, v2, d2)" "t2 = HANDSHAKE \<or> t2 = CHANGE_CIPHER_SPEC"
    and "tls_fits ccs" "tls_fits fin"
    and "inp r = concat (map tls_wire (xs @ [ccs, fin])) @ rest" "wr_room w = None"
  shows "copy_until_tls12_handshake_finished False (r, w) =
    (Ready (Inr ()), (r\<lparr>inp := rest\<rparr>, w\<lparr>out := out w @ concat (map tls_wire (xs @ [ccs, fin]))\<rparr>))"
proof -
  let ?w = "w\<lparr>out := out w @ concat (map tls_wire xs)\<rparr>" and ?r = "r\<lparr>inp := tls_wire ccs @ tls_wire fin @ rest\<rparr>"
  have "copy_until_tls12_handshake_finished False (r, w) = copy_until_tls12_handshake_finished False (?r, ?w)"
    using assms(1,7,8) by (intro copy_until_records) simp_all
  also have "copy_record (?r, ?w) =
      (Ready (Inr CHANGE_CIPHER_SPEC), (r\<lparr>inp := tls_wire fin @ rest\<rparr>, ?w\<lparr>out := out ?w @ tls_wire ccs\<rparr>))"
    using assms(2,5,8) by (simp add: copy_record_wire)
  then have "copy_until_tls12_handshake_finished False (?r, ?w) = copy_until_tls12_handshake_finished True
      (r\<lparr>inp := tls_wire fin @ rest\<rparr>, ?w\<lparr>out := out ?w @ tls_wire ccs\<rparr>)"
    by (simp add: copy_until_tls12_handshake_finished.simps [of False "(?r, ?w)"])
  also have "copy_record (r\<lparr>inp := tls_wire fin @ rest\<rparr>, ?w\<lparr>out := out ?w @ tls_wire ccs\<rparr>) =
      (Ready (Inr t2), (r\<lparr>inp := rest\<rparr>, w\<lparr>out := out w @ concat (map tls_wire (xs @ [ccs, fin]))\<rparr>))"
    using assms(3,6,8) by (simp add: copy_record_wire)
  then have "copy_until_tls12_handshake_finished True
      (r\<lparr>inp := tls_wire fin @ rest\<rparr>, ?w\<lparr>out := out ?w @ tls_wire ccs\<rparr>) =
      (Ready (Inr ()), (r\<lparr>inp := rest\<rparr>, w\<lparr>out := out w @ concat (map tls_wire (xs @ [ccs, fin]))\<rparr>))"
    using assms(4) by (subst copy_until_tls12_handshake_finished.simps) auto
  finally show ?thesis .
qed

end
