(* ===== verification/Hello.thy ===== *)
theory Hello
  imports Fp TlsRecord
begin

text \<open>
  The helpers of \<open>tunnel/src/utils.rs\<close> that look into TLS messages: \<open>parse_tls_plain_message\<close>, the
  trait \<open>TlsMessageExt\<close>, and the versions of TLS that a hello names. The two parsers of the \<open>rustls\<close> crate and its
  \<open>is_handshake_type\<close> are parameters.
\<close>

section \<open>Messages\<close>

text \<open>
  Of a ClientHello the tunnel reads its random and its session id besides what the fingerprint is made of;
  of a ServerHello its extensions. Every other message is only told apart from these.
\<close>

record hello_ids =
  ch_random :: bytes
  ch_session_id :: bytes

datatype server_extension = ServerSupportedVersions u16 | OtherServerExt u16 bytes

datatype parsed_other = ParsedServerHello "server_extension list" | ParsedElse byte bytes

type_synonym tls_message = "(hello_ids, parsed_other) message"

text \<open>An opaque message is a content type, a version and a payload.\<close>

record rustls_parsers =
  rp_opaque :: "bytes \<Rightarrow> (byte \<times> u16 \<times> bytes) option"
  rp_message :: "byte \<times> u16 \<times> bytes \<Rightarrow> string + tls_message"
  rp_is_handshake_type :: "tls_message \<Rightarrow> byte \<Rightarrow> bool"

definition parse_tls_plain_message :: "rustls_parsers \<Rightarrow> bytes \<Rightarrow> string + tls_message" where
  "parse_tls_plain_message rp buf =
     (case rp_opaque rp buf of None \<Rightarrow> Inl ''Invalid opaque message'' | Some om \<Rightarrow> rp_message rp om)"

definition into_client_hello_payload :: "tls_message \<Rightarrow> hello_ids client_hello option" where
  "into_client_hello_payload msg =
     (case msg_payload msg of Handshake (ParsedHello chp) _ \<Rightarrow> Some chp | _ \<Rightarrow> None)"

definition into_server_hello_payload :: "tls_message \<Rightarrow> server_extension list option" where
  "into_server_hello_payload msg =
     (case msg_payload msg of Handshake (ParsedOther (ParsedServerHello shp)) _ \<Rightarrow> Some shp | _ \<Rightarrow> None)"

fun get_server_tls_version :: "server_extension list \<Rightarrow> u16 option" where
  "get_server_tls_version [] = None"
| "get_server_tls_version (ServerSupportedVersions ver # exts) = Some ver"
| "get_server_tls_version (OtherServerExt _ _ # exts) = get_server_tls_version exts"

text \<open>The server logs whether the client supports TLS 1.3, from the first extension that names versions.\<close>

definition get_client_tls_versions :: "'r client_hello \<Rightarrow> u16 list option" where
  "get_client_tls_versions chp =
     (case filter (\<lambda>ext. case ext of SupportedVersions _ \<Rightarrow> True | _ \<Rightarrow> False) (ch_extensions chp) of
        SupportedVersions vers # _ \<Rightarrow> Some vers
      | _ \<Rightarrow> None)"

section \<open>The two hellos of the handshake\<close>

abbreviation (input) HELLO_CLIENT :: byte where "HELLO_CLIENT \<equiv> 1"
abbreviation (input) HELLO_SERVER :: byte where "HELLO_SERVER \<equiv> 2"
abbreviation (input) TLSv1_3 :: u16 where "TLSv1_3 \<equiv> 0x0304"

text \<open>
  The chain of \<open>and_then\<close> and \<open>filter\<close> with which \<open>accept\<close> and \<open>connect\<close> take a hello out of a record.
\<close>

definition typed_message :: "rustls_parsers \<Rightarrow> byte \<Rightarrow> bytes \<Rightarrow> tls_message option" where
  "typed_message rp typ buf =
     (case parse_tls_plain_message rp buf of
        Inl _ \<Rightarrow> None
      | Inr msg \<Rightarrow> (if rp_is_handshake_type rp msg typ then Some msg else None))"

text \<open>
  The random of a ClientHello, and its session id as the array of 32 bytes that it is turned into: a shorter
  one is filled up with zeros.
\<close>

definition client_hello_of :: "rustls_parsers \<Rightarrow> bytes \<Rightarrow> (bytes \<times> bytes) option" where
  "client_hello_of rp buf =
     (case typed_message rp HELLO_CLIENT buf of
        None \<Rightarrow> None
      | Some msg \<Rightarrow>
          map_option (\<lambda>chp. (ch_random (ch_rest chp), take 32 (ch_session_id (ch_rest chp) @ replicate 32 0)))
            (into_client_hello_payload msg))"

text \<open>Whether a ServerHello negotiates TLS 1.3.\<close>

definition server_hello_of :: "rustls_parsers \<Rightarrow> bytes \<Rightarrow> bool option" where
  "server_hello_of rp buf =
     (case typed_message rp HELLO_SERVER buf of
        None \<Rightarrow> None
      | Some msg \<Rightarrow>
          map_option (\<lambda>shp. get_server_tls_version shp = Some TLSv1_3) (into_server_hello_payload msg))"

section \<open>A parser for examples\<close>

text \<open>
  A toy format: the first byte behind the record header tells the hellos apart; a ClientHello is its random
  and its session id, a ServerHello names TLS 1.3.
\<close>

definition toy_parsers :: rustls_parsers where
  "toy_parsers = \<lparr>rp_opaque = (\<lambda>b. if length b < 6 then None else Some (b ! 0, of_be16 (b ! 1) (b ! 2), drop 5 b)),
     rp_message = (\<lambda>(_, v, p). Inr \<lparr>msg_version = v, msg_payload = Handshake
        (if p ! 0 = HELLO_CLIENT then ParsedHello \<lparr>ch_client_version = v, ch_cipher_suites = [], ch_extensions = [],
           ch_rest = \<lparr>ch_random = take 32 (drop 1 p), ch_session_id = take 32 (drop 33 p)\<rparr>\<rparr>
         else ParsedOther (ParsedServerHello [OtherServerExt 0x33 [], ServerSupportedVersions TLSv1_3])) []\<rparr>),
     rp_is_handshake_type = (\<lambda>msg t. case msg_payload msg of
        Handshake (ParsedHello _) _ \<Rightarrow> t = HELLO_CLIENT | Handshake (ParsedOther _) _ \<Rightarrow> t = HELLO_SERVER | _ \<Rightarrow> False)\<rparr>"

lemma toy_client_hello:
  assumes "length h = 5" "length r = 32" "length s = 32"
  shows "client_hello_of toy_parsers (h @ HELLO_CLIENT # r @ s) = Some (r, s)"
  using assms by (simp add: client_hello_of_def typed_message_def parse_tls_plain_message_def toy_parsers_def
      into_client_hello_payload_def)

lemma toy_server_hello:
  assumes "length h = 5" "b \<noteq> HELLO_CLIENT"
  shows "server_hello_of toy_parsers (h @ b # rest) = Some True"
  using assms by (simp add: server_hello_of_def typed_message_def parse_tls_plain_message_def toy_parsers_def
      into_server_hello_payload_def)

end
