(* ===== verification/Totp.thy ===== *)
theory Totp
  imports Prelude
begin

text \<open>
  \<open>tunnel/src/totp.rs\<close> and \<open>possibly_insecure_hash_with_key\<close> of \<open>tunnel/src/utils.rs\<close>: the time-based
  signature that a client adds to its first message. The hash function BLAKE2s-256 of the \<open>blake2\<close>
  crate is the parameter \<open>H\<close>. Arithmetic is that of \<open>u64\<close> and \<open>u8\<close> without overflow checks, as in a
  release build; the number \<open>n\<close> of bytes of a signature is the const parameter \<open>N\<close>.
\<close>

definition possibly_insecure_hash_with_key :: "(bytes \<Rightarrow> bytes) \<Rightarrow> bytes \<Rightarrow> bytes \<Rightarrow> bytes" where
  "possibly_insecure_hash_with_key H key msg = H (H key @ msg)"

definition ascii :: "string \<Rightarrow> bytes" where
  "ascii s = map of_char s"

record totp =
  totp_key :: bytes
  totp_step :: u64
  totp_skew :: byte

definition totp_new :: "(bytes \<Rightarrow> bytes) \<Rightarrow> bytes \<Rightarrow> u64 \<Rightarrow> byte \<Rightarrow> totp" where
  "totp_new H key step_in_secs skew =
     \<lparr>totp_key = possibly_insecure_hash_with_key H (ascii ''TOTP for the secure tunnel under snow'') key,
      totp_step = step_in_secs, totp_skew = skew\<rparr>"

definition generate :: "(bytes \<Rightarrow> bytes) \<Rightarrow> nat \<Rightarrow> totp \<Rightarrow> u64 \<Rightarrow> bytes" where
  "generate H n t time =
     take n (possibly_insecure_hash_with_key H (totp_key t) (be64 (time div totp_step t)))"

definition sign :: "(bytes \<Rightarrow> bytes) \<Rightarrow> nat \<Rightarrow> totp \<Rightarrow> u64 \<Rightarrow> bytes \<Rightarrow> bytes" where
  "sign H n t time nonce = take n (possibly_insecure_hash_with_key H (generate H n t time) nonce)"

text \<open>The times at which the loops over \<open>0..=self.skew * 2\<close> compute a token or a signature.\<close>

definition step_times :: "totp \<Rightarrow> u64 \<Rightarrow> u64 list" where
  "step_times t time =
     (let basestep = time div totp_step t - ucast (totp_skew t) in
      map (\<lambda>i. (basestep + of_nat i) * totp_step t) [0..<Suc (unat (totp_skew t * 2))])"

definition check :: "(bytes \<Rightarrow> bytes) \<Rightarrow> nat \<Rightarrow> totp \<Rightarrow> bytes \<Rightarrow> u64 \<Rightarrow> bool" where
  "check H n t token time = list_ex (\<lambda>st. generate H n t st = token) (step_times t time)"

definition verify :: "(bytes \<Rightarrow> bytes) \<Rightarrow> nat \<Rightarrow> totp \<Rightarrow> bytes \<Rightarrow> bytes \<Rightarrow> u64 \<Rightarrow> bool" where
  "verify H n t nonce sig time = list_ex (\<lambda>st. sign H n t st nonce = sig) (step_times t time)"

section \<open>The window\<close>

text \<open>The parameters and the time are such that no operation of the loop overflows.\<close>

definition no_overflow :: "totp \<Rightarrow> u64 \<Rightarrow> bool" where
  "no_overflow t time \<longleftrightarrow>
     0 < totp_step t \<and> totp_skew t < 128 \<and>
     unat (totp_skew t) \<le> unat time div unat (totp_step t) \<and>
     (unat time div unat (totp_step t) + unat (totp_skew t)) * unat (totp_step t) < 2 ^ 64"

text \<open>How many steps two times are apart.\<close>

definition steps_apart :: "totp \<Rightarrow> u64 \<Rightarrow> u64 \<Rightarrow> nat" where
  "steps_apart t a b =
     (let x = unat a div unat (totp_step t); y = unat b div unat (totp_step t) in max x y - min x y)"

lemma unat_of_nat_u64: "k < 2 ^ 64 \<Longrightarrow> unat (of_nat k :: u64) = k"
  by (simp add: unat_of_nat take_bit_nat_eq_self)

lemma step_time_div:
  assumes "k * unat s < 2 ^ 64" "0 < s"
  shows "(of_nat k * s :: u64) div s = of_nat k"
proof -
  have s: "0 < unat s" using assms(2) by (simp add: word_gt_0 unat_gt_0)
  then have "k < 2 ^ 64" using assms(1) by (metis le_less_trans mult.right_neutral mult_le_mono2 Suc_leI One_nat_def)
  then have "unat (of_nat k * s) = k * unat s"
    using assms(1) by (subst unat_mult_lem [THEN iffD1]) (simp_all add: unat_of_nat_u64)
  then have "unat ((of_nat k * s) div s) = k" using s by (simp add: unat_div)
  then show ?thesis using \<open>k < 2 ^ 64\<close> by (metis unat_of_nat_u64 word_unat_eq_iff)
qed

lemma step_times_set:
  assumes "no_overflow t time"
  shows "set (step_times t time) =
    {of_nat k * totp_step t | k.
       unat time div unat (totp_step t) - unat (totp_skew t) \<le> k \<and>
       k \<le> unat time div unat (totp_step t) + unat (totp_skew t)}"
proof -
  let ?T = "unat time div unat (totp_step t)" and ?k = "unat (totp_skew t)"
  have T: "time div totp_step t = of_nat ?T"
    by (metis of_nat_unat ucast_id unat_div)
  have k: "(ucast (totp_skew t) :: u64) = of_nat ?k"
    by (simp add: unsigned_of_nat [symmetric])
  have le: "?k \<le> ?T" and "totp_skew t < 128" using assms by (simp_all add: no_overflow_def)
  then have "?k < 128" by (simp add: word_less_nat_alt)
  then have two: "unat (totp_skew t * 2) = 2 * ?k"
    by (subst unat_mult_lem [THEN iffD1]) simp_all
  have add: "(of_nat ?T - of_nat ?k + of_nat i :: u64) = of_nat (?T - ?k + i)" for i
    by (simp only: of_nat_diff [OF le] of_nat_add)
  have "step_times t time = map (\<lambda>i. of_nat (?T - ?k + i) * totp_step t) [0..<Suc (2 * ?k)]"
    by (simp only: step_times_def Let_def T k two add)
  then have "set (step_times t time) = (\<lambda>i. of_nat (?T - ?k + i) * totp_step t) ` {0..<Suc (2 * ?k)}"
    by (simp only: set_map set_upt)
  also have "\<dots> = {of_nat k * totp_step t | k. ?T - ?k \<le> k \<and> k \<le> ?T + ?k}"
  proof (intro set_eqI iffI)
    fix x
    assume "x \<in> (\<lambda>i. of_nat (?T - ?k + i) * totp_step t) ` {0..<Suc (2 * ?k)}"
    then obtain i where x: "x = of_nat (?T - ?k + i) * totp_step t" and "i \<in> {0..<Suc (2 * ?k)}" by blast
    then have "?T - ?k \<le> ?T - ?k + i" "?T - ?k + i \<le> ?T + ?k" using le by simp_all
    with x show "x \<in> {of_nat k * totp_step t | k. ?T - ?k \<le> k \<and> k \<le> ?T + ?k}" by blast
  next
    fix x
    assume "x \<in> {of_nat k * totp_step t | k. ?T - ?k \<le> k \<and> k \<le> ?T + ?k}"
    then obtain k where x: "x = of_nat k * totp_step t" and k: "?T - ?k \<le> k" "k \<le> ?T + ?k" by blast
    have i: "k - (?T - ?k) \<in> {0..<Suc (2 * ?k)}" using k le by auto
    have "?T - ?k + (k - (?T - ?k)) = k" using k(1) by simp
    with x i show "x \<in> (\<lambda>i. of_nat (?T - ?k + i) * totp_step t) ` {0..<Suc (2 * ?k)}"
      by (intro image_eqI [OF _ i]) (simp only:)
  qed
  finally show ?thesis .
qed

lemma sign_same_step:
  "a div totp_step t = b div totp_step t \<Longrightarrow> sign H n t a nonce = sign H n t b nonce"
  by (simp add: sign_def generate_def)

lemma verify_iff:
  assumes "no_overflow t time"
  shows "verify H n t nonce sig time \<longleftrightarrow>
    (\<exists>made. steps_apart t made time \<le> unat (totp_skew t) \<and> sig = sign H n t made nonce)"
proof -
  let ?s = "totp_step t"
  let ?T = "unat time div unat ?s" and ?k = "unat (totp_skew t)"
  have bound: "(?T + ?k) * unat ?s < 2 ^ 64" and pos: "0 < ?s" and le: "?k \<le> ?T"
    using assms by (simp_all add: no_overflow_def)
  have kb: "k * unat ?s < 2 ^ 64" if "k \<le> ?T + ?k" for k
    using that bound by (meson le_less_trans mult_le_mono1)
  show ?thesis
  proof
    assume "verify H n t nonce sig time"
    then obtain k where k: "?T - ?k \<le> k" "k \<le> ?T + ?k" and sig: "sig = sign H n t (of_nat k * ?s) nonce"
      unfolding verify_def list_ex_iff step_times_set [OF assms] by auto
    have "unat (of_nat k * ?s) div unat ?s = unat (of_nat k :: u64)"
      using step_time_div [OF kb [OF k(2)] pos] by (metis unat_div)
    also have "\<dots> = k"
      using kb [OF k(2)] pos
      by (intro unat_of_nat_u64) (metis le_less_trans mult.right_neutral mult_le_mono2 Suc_leI One_nat_def
          unat_gt_0 word_gt_0)
    finally have "steps_apart t (of_nat k * ?s) time \<le> ?k"
      using k le by (simp add: steps_apart_def Let_def max_def min_def) linarith
    with sig show "\<exists>made. steps_apart t made time \<le> ?k \<and> sig = sign H n t made nonce" by blast
  next
    assume "\<exists>made. steps_apart t made time \<le> ?k \<and> sig = sign H n t made nonce"
    then obtain made where a: "steps_apart t made time \<le> ?k" and sig: "sig = sign H n t made nonce" by blast
    let ?m = "unat made div unat ?s"
    have m: "?T - ?k \<le> ?m" "?m \<le> ?T + ?k"
      using a by (auto simp: steps_apart_def Let_def max_def min_def split: if_splits)
    have "(of_nat ?m * ?s) div ?s = of_nat ?m" by (rule step_time_div [OF kb [OF m(2)] pos])
    also have "\<dots> = made div ?s" by (metis of_nat_unat ucast_id unat_div)
    finally have "sign H n t (of_nat ?m * ?s) nonce = sign H n t made nonce" by (rule sign_same_step)
    moreover have "of_nat ?m * ?s \<in> set (step_times t time)"
      unfolding step_times_set [OF assms] using m by blast
    ultimately show "verify H n t nonce sig time"
      unfolding verify_def list_ex_iff using sig by metis
  qed
qed

text \<open>
  C20. A signature is accepted at some time exactly when it is the one made at a time that is at most
  \<open>skew\<close> steps away, in either direction; so a genuine client is accepted as long as the clocks are
  less far apart, and a signature is worthless afterwards. The hypothesis is that the loop does not
  overflow, which holds at any time from the \<open>skew\<close>-th step after 1970 on.
\<close>

theorem verify_window:
  assumes "no_overflow t time"
  shows "verify H n t nonce sig time \<longleftrightarrow>
    (\<exists>made. steps_apart t made time \<le> unat (totp_skew t) \<and> sig = sign H n t made nonce)"
  using assms by (rule verify_iff)

theorem verify_window_witness:
  "let t = totp_new rev [1, 2, 3] 60 2
   in verify rev 16 t [7] (sign rev 16 t 1000020 [7]) 1000199"
proof -
  let ?t = "totp_new rev [1, 2, 3] 60 2"
  have "no_overflow ?t 1000199" by (simp add: no_overflow_def totp_new_def)
  moreover have "steps_apart ?t 1000020 1000199 \<le> unat (totp_skew ?t)"
    by (simp add: steps_apart_def totp_new_def Let_def)
  ultimately show ?thesis
    using verify_window [of ?t 1000199 rev 16 "[7]"] unfolding Let_def by blast
qed

end
