(* ===== verification/Accept.thy ===== *)
theory Accept
  imports Hello Totp Lru
begin

text \<open>
  \<open>tunnel/src/server.rs\<close>: accepting a tunnel. \<open>accept\<close> reads the ClientHello, authenticates the
  challenge hidden in it, consults the replay filter, plays the handshake of the camouflage server and
  answers the challenge. The parsers of the \<open>rustls\<close> crate, the Noise handshake of the \<open>snow\<close> crate, the
  \<open>lru\<close> crate and the network are parameters; \<open>lru_ok\<close> states what is relied on of the cache. The replay
  filter is behind a mutex of the standard library, which a panic of its holder poisons.
\<close>

section \<open>Accepting\<close>

definition derive_psk :: "(bytes \<Rightarrow> bytes) \<Rightarrow> bytes \<Rightarrow> bytes" where
  "derive_psk H key = possibly_insecure_hash_with_key H (ascii ''the secure tunnel under snow'') key"

record server =
  srv_key :: bytes
  srv_totp :: totp

definition server_new :: "(bytes \<Rightarrow> bytes) \<Rightarrow> bytes \<Rightarrow> server" where
  "server_new H key = \<lparr>srv_key = derive_psk H key, srv_totp = totp_new H key 60 2\<rparr>"

text \<open>A \<open>Mutex\<close>: what it guards, and whether a task panicked while it held the lock.\<close>

record 'f mutex =
  guarded :: 'f
  poisoned :: bool

definition mutex_new :: "'f \<Rightarrow> 'f mutex" where
  "mutex_new f = \<lparr>guarded = f, poisoned = False\<rparr>"

text \<open>
  What an execution of \<open>accept\<close> meets: the parsers, whether the Noise responder accepts the first
  message, its answer and the random padding, the clock, and the connection to the camouflage server.
\<close>

record accept_env =
  ae_tls :: tls_params
  ae_hash :: "bytes \<Rightarrow> bytes"
  ae_rustls :: rustls_parsers
  ae_noise_read :: "bytes \<Rightarrow> bytes \<Rightarrow> bool"
  ae_noise_write :: bytes
  ae_padding :: bytes
  ae_time :: u64
  ae_connect :: "io_error + conn"

datatype 'p accept_error =
    AcceptIo io_error
  | Unauthenticated bytes conn
  | ReplayDetected bytes conn bytes 'p
  | ClientHelloInvalid bytes conn
  | ServerHelloInvalid bytes conn conn

text \<open>The first Noise message and the time signature, from the random and the session id.\<close>

definition psk_e_of :: "bytes \<times> bytes \<Rightarrow> bytes" where
  "psk_e_of chp = fst chp @ take 16 (snd chp)"

definition timesig_of :: "bytes \<times> bytes \<Rightarrow> bytes" where
  "timesig_of chp = take 16 (drop 16 (snd chp))"

definition nonce_of :: "bytes \<times> bytes \<Rightarrow> bytes" where
  "nonce_of chp = take 32 (psk_e_of chp)"

definition authentic :: "accept_env \<Rightarrow> server \<Rightarrow> bytes \<times> bytes \<Rightarrow> bool" where
  "authentic env srv chp \<longleftrightarrow>
     verify (ae_hash env) 16 (srv_totp srv) (nonce_of chp) (timesig_of chp) (ae_time env) \<and>
     ae_noise_read env (srv_key srv) (psk_e_of chp)"

text \<open>The part behind the replay filter. An I/O error drops both connections.\<close>

definition pong :: "accept_env \<Rightarrow> bytes" where
  "pong env = [0x17, 0x03, 0x03, 0x00, 0x30 + of_nat (length (ae_padding env))]
     @ ae_noise_write env @ ae_padding env"

definition answer :: "accept_env \<Rightarrow> bool \<Rightarrow> conn \<times> conn \<Rightarrow> ('p accept_error + conn) outcome" where
  "answer env tls1_3 p =
     (case (if tls1_3 then (Ready (Inr ()), p) else relay_until_tls12_handshake_finished p) of
        (Ready (Inl e), _) \<Rightarrow> Ready (Inl (AcceptIo e))
      | (Pending, _) \<Rightarrow> Pending
      | (Panics msg, _) \<Rightarrow> Panics msg
      | (Ready (Inr _), inbound, outbound) \<Rightarrow>
          (case write_all (pong env) inbound of
             (Ready (Inl e), _) \<Rightarrow> Ready (Inl (AcceptIo e))
           | (Pending, _) \<Rightarrow> Pending
           | (Panics msg, _) \<Rightarrow> Panics msg
           | (Ready (Inr _), inbound) \<Rightarrow> Ready (Inr inbound)))"

definition camouflage :: "accept_env \<Rightarrow> bytes \<Rightarrow> conn \<Rightarrow> ('p accept_error + conn) outcome" where
  "camouflage env buf inbound =
     (case ae_connect env of
        Inl e \<Rightarrow> Ready (Inl (AcceptIo e))
      | Inr outbound0 \<Rightarrow>
          (case io_bind (write_all buf) (\<lambda>_. read_tls_message (ae_tls env)) outbound0 of
             (Ready (Inl e), _) \<Rightarrow> Ready (Inl (AcceptIo e))
           | (Pending, _) \<Rightarrow> Pending
           | (Panics msg, _) \<Rightarrow> Panics msg
           | (Ready (Inr m), outbound) \<Rightarrow>
               (let buf = (case m of Inr b \<Rightarrow> b | Inl _ \<Rightarrow> buf) in
                case (case m of Inr b \<Rightarrow> server_hello_of (ae_rustls env) b | Inl _ \<Rightarrow> None) of
                  None \<Rightarrow> Ready (Inl (ServerHelloInvalid buf inbound outbound))
                | Some tls1_3 \<Rightarrow>
                    (case write_all buf inbound of
                       (Ready (Inl e), _) \<Rightarrow> Ready (Inl (AcceptIo e))
                     | (Pending, _) \<Rightarrow> Pending
                     | (Panics msg, _) \<Rightarrow> Panics msg
                     | (Ready (Inr _), inbound) \<Rightarrow> answer env tls1_3 (inbound, outbound)))))"

text \<open>The client hello of a record, if it is one.\<close>

definition hello_of :: "accept_env \<Rightarrow> message_error + bytes \<Rightarrow> (bytes \<times> bytes) option" where
  "hello_of env m = (case m of Inr b \<Rightarrow> client_hello_of (ae_rustls env) b | Inl _ \<Rightarrow> None)"

text \<open>
  \<open>peer\<close> is what \<open>inbound.peer_addr()\<close> gives: nothing when the client is gone by then. The code unwraps it
  while it holds the lock of the filter. (The log messages unwrap it too, where they are enabled.)
\<close>

definition consult_filter :: "('f, bytes, 'p) lru_ops \<Rightarrow> 'p option \<Rightarrow> bytes \<Rightarrow> bytes \<Rightarrow> conn \<Rightarrow> 'f mutex \<Rightarrow>
    ('p accept_error + unit) outcome \<times> 'f mutex" where
  "consult_filter ops peer e buf inbound rf =
     (if poisoned rf then (Panics ''called `Result::unwrap()` on an `Err` value: PoisonError'', rf)
      else
        (case lru_get ops (guarded rf) e of
           (Some first_from, f) \<Rightarrow> (Ready (Inl (ReplayDetected buf inbound e first_from)), rf\<lparr>guarded := f\<rparr>)
         | (None, f) \<Rightarrow>
             (case peer of
                None \<Rightarrow> (Panics ''called `Result::unwrap()` on an `Err` value'', rf\<lparr>guarded := f, poisoned := True\<rparr>)
              | Some p \<Rightarrow> (Ready (Inr ()), rf\<lparr>guarded := lru_put ops f e p\<rparr>))))"

definition accept :: "('f, bytes, 'p) lru_ops \<Rightarrow> accept_env \<Rightarrow> server \<Rightarrow> 'p option \<Rightarrow> conn \<Rightarrow> 'f mutex \<Rightarrow>
    ('p accept_error + conn) outcome \<times> 'f mutex" where
  "accept ops env srv peer inbound0 rf =
     (case read_tls_message (ae_tls env) inbound0 of
        (Ready (Inl e), _) \<Rightarrow> (Ready (Inl (AcceptIo e)), rf)
      | (Pending, _) \<Rightarrow> (Pending, rf)
      | (Panics msg, _) \<Rightarrow> (Panics msg, rf)
      | (Ready (Inr m), inbound) \<Rightarrow>
          (let buf = (case m of Inr b \<Rightarrow> b | Inl _ \<Rightarrow> []) in
           case hello_of env m of
             None \<Rightarrow> (Ready (Inl (ClientHelloInvalid buf inbound)), rf)
           | Some chp \<Rightarrow>
               (if \<not> authentic env srv chp then (Ready (Inl (Unauthenticated buf inbound)), rf)
                else
                  (case consult_filter ops peer (nonce_of chp) buf inbound rf of
                     (Ready (Inr _), rf) \<Rightarrow> (camouflage env buf inbound, rf)
                   | (Ready (Inl e), rf) \<Rightarrow> (Ready (Inl e), rf)
                   | (Pending, rf) \<Rightarrow> (Pending, rf)
                   | (Panics msg, rf) \<Rightarrow> (Panics msg, rf)))))"

section \<open>Properties\<close>

lemma accept_authentic:
  assumes "read_tls_message (ae_tls env) c = (Ready (Inr m), c')" "hello_of env m = Some chp" "authentic env srv chp"
    and "buf = (case m of Inr b \<Rightarrow> b | Inl _ \<Rightarrow> [])"
  shows "accept ops env srv peer c rf =
    (case consult_filter ops peer (nonce_of chp) buf c' rf of
       (Ready (Inr _), rf) \<Rightarrow> (camouflage env buf c', rf)
     | (Ready (Inl e), rf) \<Rightarrow> (Ready (Inl e), rf)
     | (Pending, rf) \<Rightarrow> (Pending, rf)
     | (Panics msg, rf) \<Rightarrow> (Panics msg, rf))"
  unfolding assms(4) using assms(1-3) by (simp add: accept_def Let_def)

text \<open>What \<open>accept\<close> leaves of the filter: either it did not look at it, or it consulted it.\<close>

lemma accept_filter:
  "snd (accept ops env srv peer c rf) = rf \<or>
   (\<exists>e buf c'. snd (accept ops env srv peer c rf) = snd (consult_filter ops peer e buf c' rf))"
proof (cases "\<exists>m c' chp. read_tls_message (ae_tls env) c = (Ready (Inr m), c') \<and> hello_of env m = Some chp \<and> authentic env srv chp")
  case True
  then obtain m c' chp where "read_tls_message (ae_tls env) c = (Ready (Inr m), c')" "hello_of env m = Some chp"
    "authentic env srv chp" by blast
  from accept_authentic [OF this refl, of ops peer rf] show ?thesis
    by (auto split: prod.splits outcome.splits sum.splits) (metis snd_conv)+
next
  case False
  then show ?thesis by (auto simp: accept_def Let_def split: prod.splits outcome.splits sum.splits option.splits)
qed

text \<open>Several connections, one after the other.\<close>

fun accept_all :: "('f, bytes, 'p) lru_ops \<Rightarrow> (accept_env \<times> server \<times> 'p option \<times> conn) list \<Rightarrow> 'f mutex \<Rightarrow> 'f mutex" where
  "accept_all ops [] rf = rf"
| "accept_all ops ((env, srv, peer, c) # xs) rf = accept_all ops xs (snd (accept ops env srv peer c rf))"

text \<open>An entry moves back by at most one place with each connection.\<close>

lemma consult_keeps:
  assumes "lru_ok ops cap" "map_of (take i (lru_iter ops (guarded rf))) e = Some p" "i < cap"
  shows "map_of (take (Suc i) (lru_iter ops (guarded (snd (consult_filter ops peer e' buf c rf))))) e = Some p"
proof -
  obtain q f where q: "lru_get ops (guarded rf) e' = (q, f)" by (metis surj_pair)
  show ?thesis
    using lru_get_keeps [OF assms(1,2) q] lru_put_keeps [OF assms, of e' f] map_of_take_Suc [OF assms(2)] q
    by (cases q; cases peer) (auto simp: consult_filter_def)
qed

lemma accept_keeps:
  assumes "lru_ok ops cap" "map_of (take i (lru_iter ops (guarded rf))) e = Some p" "i < cap"
  shows "map_of (take (Suc i) (lru_iter ops (guarded (snd (accept ops env srv peer c rf))))) e = Some p"
  using accept_filter [of ops env srv peer c rf] consult_keeps [OF assms] map_of_take_Suc [OF assms(2)] by auto

lemma accept_all_keeps:
  "lru_ok ops cap \<Longrightarrow> map_of (take i (lru_iter ops (guarded rf))) e = Some p \<Longrightarrow> i + length xs \<le> cap \<Longrightarrow>
     map_of (take (i + length xs) (lru_iter ops (guarded (accept_all ops xs rf)))) e = Some p"
proof (induction xs arbitrary: i rf)
  case Nil
  then show ?case by simp
next
  case (Cons x xs)
  obtain env srv peer c where x: "x = (env, srv, peer, c)" by (metis prod_cases4)
  have "map_of (take (Suc i) (lru_iter ops (guarded (snd (accept ops env srv peer c rf))))) e = Some p"
    using Cons.prems by (intro accept_keeps) auto
  from Cons.IH [OF Cons.prems(1) this] Cons.prems(3) x show ?case by simp
qed

lemma accept_records:
  assumes "lru_ok ops cap" "0 < cap" "read_tls_message (ae_tls env) c = (Ready (Inr m), c')"
    and "hello_of env m = Some chp" "authentic env srv chp" "\<not> poisoned rf"
  shows "map_of (take 1 (lru_iter ops (guarded (snd (accept ops env srv (Some peer) c rf))))) (nonce_of chp) =
    Some (case map_of (lru_iter ops (guarded rf)) (nonce_of chp) of None \<Rightarrow> peer | Some first_from \<Rightarrow> first_from)"
proof -
  let ?k = "nonce_of chp"
  obtain q f' where q: "lru_get ops (guarded rf) ?k = (q, f')" by (metis surj_pair)
  note g = lru_get_ok(1) [OF assms(1) q] lru_get_ok(2) [OF assms(1) q] and p = lru_put_ok [OF assms(1)]
  show ?thesis
    using accept_authentic [OF assms(3-5) refl, of ops "Some peer" rf] assms(2,6) q g p
    by (cases q) (simp_all add: consult_filter_def promote_def min_def)
qed

text \<open>A mutex stays poisoned.\<close>

lemma accept_all_poisoned: "poisoned rf \<Longrightarrow> poisoned (accept_all ops xs rf)"
proof (induction xs arbitrary: rf)
  case Nil
  then show ?case by simp
next
  case (Cons x xs)
  obtain env srv peer c where x: "x = (env, srv, peer, c)" by (metis prod_cases4)
  have "poisoned (snd (accept ops env srv peer c rf))"
    using accept_filter [of ops env srv peer c rf] Cons.prems by (auto simp: consult_filter_def)
  with Cons.IH x show ?case by simp
qed

lemma consult_healthy: "\<not> poisoned rf \<Longrightarrow> \<not> poisoned (snd (consult_filter ops (Some p) e buf c rf))"
  by (auto simp: consult_filter_def split: prod.splits option.splits)

lemma accept_all_healthy:
  "\<not> poisoned rf \<Longrightarrow> list_all (\<lambda>(_, _, peer, _). peer \<noteq> None) xs \<Longrightarrow> \<not> poisoned (accept_all ops xs rf)"
proof (induction xs arbitrary: rf)
  case Nil
  then show ?case by simp
next
  case (Cons x xs)
  obtain env srv p c where x: "x = (env, srv, Some p, c)" using Cons.prems(2) by (cases x) auto
  have "\<not> poisoned (snd (accept ops env srv (Some p) c rf))"
    using accept_filter [of ops env srv "Some p" c rf] consult_healthy [OF Cons.prems(1)] Cons.prems(1) by metis
  with Cons.IH Cons.prems(2) x show ?case by simp
qed

text \<open>
  C5. A hello that was accepted once is never accepted again while the replay filter remembers it.
  The nonce of an authentic hello is remembered over fewer connections than the filter has places,
  whatever they send; a later hello with the same nonce, on any connection and at any time, ends as
  \<open>ReplayDetected\<close> with the address that sent it first, or as \<open>Unauthenticated\<close>, or, when one of the connections
  in between has poisoned the lock, in a panic; the camouflage server is not contacted for it.
\<close>

theorem replayed_hello_rejected:
  assumes "lru_ok ops cap"
    and "read_tls_message (ae_tls env) c = (Ready (Inr m), c')"
    and "hello_of env m = Some chp" "authentic env srv chp" "\<not> poisoned rf"
    and "length others < cap"
    and "rf2 = accept_all ops others (snd (accept ops env srv (Some peer) c rf))"
    and "read_tls_message (ae_tls env2) c2 = (Ready (Inr (Inr buf2)), c2')"
    and "hello_of env2 (Inr buf2) = Some chp2" "nonce_of chp2 = nonce_of chp"
  shows "fst (accept ops env2 srv2 peer2 c2 rf2) =
    (if \<not> authentic env2 srv2 chp2 then Ready (Inl (Unauthenticated buf2 c2'))
     else if poisoned rf2 then Panics ''called `Result::unwrap()` on an `Err` value: PoisonError''
     else Ready (Inl (ReplayDetected buf2 c2' (nonce_of chp)
       (case map_of (lru_iter ops (guarded rf)) (nonce_of chp) of None \<Rightarrow> peer | Some first_from \<Rightarrow> first_from))))"
proof -
  let ?p = "case map_of (lru_iter ops (guarded rf)) (nonce_of chp) of None \<Rightarrow> peer | Some first_from \<Rightarrow> first_from"
  have "map_of (take (1 + length others) (lru_iter ops (guarded rf2))) (nonce_of chp) = Some ?p"
    unfolding assms(7) using assms(6)
    by (intro accept_all_keeps [OF assms(1)] accept_records [OF assms(1) _ assms(2-5)]) auto
  from map_of_take [OF this] have "fst (lru_get ops (guarded rf2) (nonce_of chp)) = Some ?p"
    using assms(1) by (simp add: lru_ok_def)
  then obtain f where "lru_get ops (guarded rf2) (nonce_of chp) = (Some ?p, f)" by (metis prod.collapse)
  then show ?thesis using assms(8-10) by (simp add: accept_def consult_filter_def Let_def)
qed

text \<open>
  C38. One client that disappears at the wrong moment disables the server for good. When the connection of an
  authentic client with a new nonce has lost its peer by the time the server records the nonce, the task panics with
  the lock of the replay filter held; from then on, whatever happens in between, every client that proves
  that it has the key makes its task panic as well, while clients without the key are treated as before.
\<close>

theorem lost_peer_disables_server:
  assumes "read_tls_message (ae_tls env) c = (Ready (Inr m), c')" "hello_of env m = Some chp" "authentic env srv chp"
    and "\<not> poisoned rf" "fst (lru_get ops (guarded rf) (nonce_of chp)) = None"
    and "rf2 = accept_all ops others (snd (accept ops env srv None c rf))"
    and "read_tls_message (ae_tls env2) c2 = (Ready (Inr m2), c2')" "hello_of env2 m2 = Some chp2"
  shows "fst (accept ops env2 srv2 peer2 c2 rf2) =
    (if authentic env2 srv2 chp2 then Panics ''called `Result::unwrap()` on an `Err` value: PoisonError''
     else Ready (Inl (Unauthenticated (case m2 of Inr b \<Rightarrow> b | Inl _ \<Rightarrow> []) c2')))"
proof -
  obtain f where "lru_get ops (guarded rf) (nonce_of chp) = (None, f)" using assms(5) by (metis prod.collapse)
  then have "poisoned (snd (accept ops env srv None c rf))"
    using accept_authentic [OF assms(1-3) refl, of ops None rf] assms(4) by (simp add: consult_filter_def)
  then have "poisoned rf2" unfolding assms(6) by (rule accept_all_poisoned)
  with assms(7,8) show ?thesis by (simp add: accept_def consult_filter_def Let_def)
qed

text \<open>A hello with its signature under a toy hash function.\<close>

definition sample_env :: "u64 \<Rightarrow> accept_env" where
  "sample_env time = \<lparr>ae_tls = \<lparr>unknown_type = (\<lambda>_. False), unknown_version = (\<lambda>_. False)\<rparr>, ae_hash = rev,
     ae_rustls = toy_parsers,
     ae_noise_read = (\<lambda>k m. length m = 48), ae_noise_write = replicate 48 1, ae_padding = [], ae_time = time,
     ae_connect = Inr fresh_conn\<rparr>"

definition hello_with :: "byte \<Rightarrow> bytes" where
  "hello_with b = [0x16, 3, 3, 0, 65, 1] @ replicate 32 b @ replicate 16 0 @ replicate 16 b"

abbreviation (input) sample_hello :: bytes where "sample_hello \<equiv> hello_with 7"

abbreviation (input) hello_conn :: conn where "hello_conn \<equiv> fresh_conn\<lparr>inp := sample_hello\<rparr>"

lemma sample_hello_read:
  "read_tls_message (ae_tls (sample_env time)) (fresh_conn\<lparr>inp := hello_with b\<rparr>) = (Ready (Inr (Inr (hello_with b))), fresh_conn)"
  by (simp add: read_tls_message_def sample_env_def hello_with_def fresh_conn_def io_bind_def read_exact_def
      io_return_def of_be16_def Let_def)

lemma sample_hello_parsed:
  "hello_of (sample_env time) (Inr (hello_with b)) = Some (replicate 32 b, replicate 16 0 @ replicate 16 b)"
  using toy_client_hello [of "[0x16, 3, 3, 0, 65]" "replicate 32 b" "replicate 16 0 @ replicate 16 b"]
  by (simp add: hello_of_def sample_env_def hello_with_def)

lemma sample_hello_nonce: "nonce_of (replicate 32 b, replicate 16 0 @ replicate 16 b) = replicate 32 b"
  by (simp add: nonce_of_def psk_e_of_def)

lemma sample_hello_authentic:
  assumes "no_overflow (srv_totp (server_new rev [1, 2, 3])) time"
  shows "authentic (sample_env time) (server_new rev [1, 2, 3])
    (replicate 32 b, replicate 16 0 @ replicate 16 b)"
proof -
  let ?t = "srv_totp (server_new rev [1, 2, 3])"
  have "replicate 16 b = sign rev 16 ?t time (replicate 32 b)"
    by (simp add: sign_def possibly_insecure_hash_with_key_def)
  moreover have "steps_apart ?t time time \<le> unat (totp_skew ?t)" by (simp add: steps_apart_def Let_def)
  ultimately have "verify rev 16 ?t (replicate 32 b) (replicate 16 b) time"
    using verify_iff [OF assms] by blast
  then show ?thesis
    by (simp add: authentic_def sample_hello_nonce timesig_of_def psk_e_of_def sample_env_def)
qed

theorem replayed_hello_rejected_witness:
  "let srv = server_new rev [1, 2, 3];
       rf1 = snd (accept (list_lru 2) (sample_env 1000020) srv (Some (5 :: nat)) hello_conn (mutex_new []));
       rf2 = accept_all (list_lru 2) [(sample_env 1000020, srv, Some 2, fresh_conn)] rf1
   in fst (accept (list_lru 2) (sample_env 1000150) srv (Some 9) hello_conn rf2) =
        Ready (Inl (ReplayDetected sample_hello fresh_conn (replicate 32 7) 5))"
proof -
  let ?srv = "server_new rev [1, 2, 3]" and ?chp = "(replicate 32 7, replicate 16 0 @ replicate 16 7) :: bytes \<times> bytes"
  let ?others = "[(sample_env 1000020, ?srv, Some (2 :: nat), fresh_conn)]"
  have o: "no_overflow (srv_totp ?srv) 1000020" "no_overflow (srv_totp ?srv) 1000150"
    by (simp_all add: no_overflow_def server_new_def totp_new_def)
  have p: "\<not> poisoned (mutex_new ([] :: (bytes \<times> nat) list))" by (simp add: mutex_new_def)
  let ?rf1 = "snd (accept (list_lru 2) (sample_env 1000020) ?srv (Some (5 :: nat)) hello_conn (mutex_new []))"
  have "\<not> poisoned (accept_all (list_lru 2) ((sample_env 1000020, ?srv, Some 5, hello_conn) # ?others) (mutex_new []))"
    using p by (rule accept_all_healthy) simp
  then have q: "\<not> poisoned (accept_all (list_lru 2) ?others ?rf1)" by simp
  have l: "length ?others < 2" by simp
  from replayed_hello_rejected [where peer = 5 and ?srv2.0 = ?srv and ?peer2.0 = "Some 9",
      OF list_lru_ok sample_hello_read sample_hello_parsed sample_hello_authentic [OF o(1)] p l refl
        sample_hello_read [of 1000150] sample_hello_parsed refl] sample_hello_authentic [OF o(2)] q
  have "fst (accept (list_lru 2) (sample_env 1000150) ?srv (Some 9) hello_conn (accept_all (list_lru 2) ?others ?rf1)) =
     Ready (Inl (ReplayDetected sample_hello fresh_conn (nonce_of ?chp)
       (case map_of (lru_iter (list_lru 2) (guarded (mutex_new []))) (nonce_of ?chp) of None \<Rightarrow> 5 | Some first_from \<Rightarrow> first_from)))"
    by (simp only: if_False not_not simp_thms)
  then show ?thesis by (simp add: Let_def sample_hello_nonce list_lru_def mutex_new_def)
qed

theorem lost_peer_disables_server_witness:
  "let srv = server_new rev [1, 2, 3];
       rf = snd (accept (list_lru 2) (sample_env 1000020) srv (None :: nat option) hello_conn (mutex_new []))
   in fst (accept (list_lru 2) (sample_env 1000150) srv (Some 9) hello_conn rf) =
        Panics ''called `Result::unwrap()` on an `Err` value: PoisonError''"
proof -
  let ?srv = "server_new rev [1, 2, 3]"
  have o: "no_overflow (srv_totp ?srv) 1000020" "no_overflow (srv_totp ?srv) 1000150"
    by (simp_all add: no_overflow_def server_new_def totp_new_def)
  have p: "\<not> poisoned (mutex_new [])" "fst (lru_get (list_lru 2) (guarded (mutex_new [])) k) = None" for k :: bytes
    by (simp_all add: mutex_new_def list_lru_def)
  from lost_peer_disables_server [where others = "[]" and ?srv2.0 = ?srv and ?peer2.0 = "Some (9 :: nat)",
      OF sample_hello_read sample_hello_parsed sample_hello_authentic [OF o(1)] p refl
        sample_hello_read [of 1000150] sample_hello_parsed] sample_hello_authentic [OF o(2)]
  show ?thesis by (simp add: Let_def)
qed

end
