(* ===== verification/Serve.thy ===== *)
theory Serve
  imports SessionLoop UdpRelay Accept
begin

text \<open>
  \<open>handle_connection\<close> of \<open>shuttle/src/server.rs\<close>: what the server does with one inbound connection. A
  client that was authenticated is served, one request per connection or a session of several; any other
  client is relayed to the camouflage server. The plaintext stream over an accepted connection is a
  parameter (theory Tunnel says what it does), as are connecting, binding and tokio's
  \<open>copy_bidirectional\<close>.
\<close>

section \<open>Model\<close>

definition default_server_reuse_config :: reuse_config where
  "default_server_reuse_config =
     \<lparr>max_idle = 4, max_requests = 100, max_age = from_secs 1800, idle_timeout = from_secs 300,
      keepalive_interval = from_secs 30, keepalive_timeout = from_secs 10, jitter_percent = 10\<rparr>"

text \<open>
  The times and events of a session are those of \<^const>\<open>run_with_stream_and_first_frame\<close>; a loop made by
  \<open>SessionLoop::new\<close> never sees a shutdown. \<open>sw_warn_peer\<close> is the error of asking for the address of the camouflage server
  in the warning about an invalid hello of it, if the warning is enabled and there is one.
\<close>

record 'f serve_world =
  sw_stream :: "conn \<Rightarrow> conn"
  sw_connect :: "trojan_addr \<Rightarrow> io_error + conn"
  sw_camouflage :: "io_error + conn"
  sw_warn_peer :: "io_error option"
  sw_copy :: "conn \<Rightarrow> conn \<Rightarrow> (io_error + nat \<times> nat) outcome"
  sw_udp_bind :: "io_error option"
  sw_udp_events :: "udp_event list"
  sw_udp_cache :: 'f
  sw_now :: instant
  sw_now' :: instant
  sw_events :: "serve_event list"

text \<open>What was done for the client: the relay that was started, with the streams it was started on.\<close>

datatype 'f served =
    CopyTcp conn conn
  | UdpAssociation "'f udp_relay"
  | Session session_context
  | CopyFallback conn conn

text \<open>The result of a relay is only logged.\<close>

definition logged :: "('e + 'a) outcome \<Rightarrow> (anyhow + unit) outcome" where
  "logged r = (case r of Ready _ \<Rightarrow> Ready (Inr ()) | Pending \<Rightarrow> Pending | Panics msg \<Rightarrow> Panics msg)"

definition run_with_first_frame :: "reuse_config \<Rightarrow> instant \<Rightarrow> instant \<Rightarrow> frame \<Rightarrow> serve_event list \<Rightarrow> conn \<Rightarrow>
    (anyhow + unit) outcome \<times> session_context" where
  "run_with_first_frame cfg now now' first evs c =
     run_with_stream_and_first_frame cfg now now' (Some first) NegoFrame evs c"

definition serve_tunnel :: "addr_codec \<Rightarrow> ('f, bytes \<times> u16, socket_addr) lru_ops \<Rightarrow> 'f serve_world \<Rightarrow> conn \<Rightarrow>
    (anyhow + unit) outcome \<times> 'f served list" where
  "serve_tunnel ac dns w snowys0 =
     (case read_trojan_like_request ac snowys0 of
        (Ready (Inr req), snowys) \<Rightarrow>
          (case req_cmd req of
             Connect \<Rightarrow>
               (case sw_connect w (dest_addr req) of
                  Inl e \<Rightarrow> (Ready (Inl (Context ''failed to connect to remote'' (IoErr e))), [])
                | Inr outbound \<Rightarrow> (logged (sw_copy w snowys outbound), [CopyTcp snowys outbound]))
           | UdpAssociate \<Rightarrow>
               (case sw_udp_bind w of
                  Some e \<Rightarrow> (Ready (Inl (IoErr e)), [])
                | None \<Rightarrow>
                    (case relay_udp ac dns (sw_udp_events w)
                       \<lparr>ur_inbound = snowys, ur_resolved = sw_udp_cache w, ur_sent = [], ur_tx = 0, ur_rx = 0\<rparr> of
                       (r, st) \<Rightarrow> (logged r, [UdpAssociation st]))))
      | (Ready (Inl e), snowys) \<Rightarrow>
          (if io_kind_of e = InvalidData then
             (case read_frame snowys of
                (Ready (Inr f), snowys) \<Rightarrow>
                  (case run_with_first_frame default_server_reuse_config (sw_now w) (sw_now' w) f (sw_events w) snowys of
                     (r, ctx) \<Rightarrow> (r, [Session ctx]))
              | (Ready (Inl fe), snowys) \<Rightarrow>
                  (Ready (Inl (Context ''failed to read reusable session hello'' (FrameErr fe))), [])
              | (Pending, snowys) \<Rightarrow> (Pending, [])
              | (Panics msg, snowys) \<Rightarrow> (Panics msg, []))
           else (Ready (Inl (Context ''failed to read request header'' (IoErr e))), []))
      | (Pending, snowys) \<Rightarrow> (Pending, [])
      | (Panics msg, snowys) \<Rightarrow> (Panics msg, []))"

text \<open>
  The relay to the camouflage server for a client that was not accepted: what was read of it is sent
  first. Errors of this part are only logged.
\<close>

definition fallback_relay :: "'f serve_world \<Rightarrow> bytes \<Rightarrow> conn \<Rightarrow> (anyhow + unit) outcome \<times> 'f served list" where
  "fallback_relay w buf io =
     (case sw_camouflage w of
        Inl e \<Rightarrow> (Ready (Inr ()), [])
      | Inr b0 \<Rightarrow>
          (case write_all buf b0 of
             (Ready (Inr _), b) \<Rightarrow> (logged (sw_copy w io b), [CopyFallback io b])
           | (Ready (Inl e), b) \<Rightarrow> (Ready (Inr ()), [])
           | (Pending, b) \<Rightarrow> (Pending, [])
           | (Panics msg, b) \<Rightarrow> (Panics msg, [])))"

fun serve_rejected :: "'f serve_world \<Rightarrow> 'p accept_error \<Rightarrow> (anyhow + unit) outcome \<times> 'f served list" where
  "serve_rejected w (AcceptIo e) = (Ready (Inl (Context ''failed to accept connection'' (IoErr e))), [])"
| "serve_rejected w (ServerHelloInvalid buf inbound0 outbound) =
     (case sw_warn_peer w of
        Some e \<Rightarrow> (Ready (Inr ()), [])
      | None \<Rightarrow>
          (case write_all buf inbound0 of
             (Ready (Inr _), inbound) \<Rightarrow> (logged (sw_copy w inbound outbound), [CopyFallback inbound outbound])
           | (Ready (Inl e), inbound) \<Rightarrow> (Ready (Inr ()), [])
           | (Pending, inbound) \<Rightarrow> (Pending, [])
           | (Panics msg, inbound) \<Rightarrow> (Panics msg, [])))"
| "serve_rejected w (ReplayDetected buf io nonce first_from) = fallback_relay w buf io"
| "serve_rejected w (Unauthenticated buf io) = fallback_relay w buf io"
| "serve_rejected w (ClientHelloInvalid buf io) = fallback_relay w buf io"

definition handle_connection :: "('g, bytes, 'p) lru_ops \<Rightarrow> accept_env \<Rightarrow> server \<Rightarrow> 'p option \<Rightarrow> addr_codec \<Rightarrow>
    ('f, bytes \<times> u16, socket_addr) lru_ops \<Rightarrow> 'f serve_world \<Rightarrow> conn \<Rightarrow> 'g mutex \<Rightarrow>
    ((anyhow + unit) outcome \<times> 'f served list) \<times> 'g mutex" where
  "handle_connection ops env srv peer ac dns w inbound rf =
     (case accept ops env srv peer inbound rf of
        (Ready (Inr io), rf) \<Rightarrow> (serve_tunnel ac dns w (sw_stream w io), rf)
      | (Ready (Inl e), rf) \<Rightarrow> (serve_rejected w e, rf)
      | (Pending, rf) \<Rightarrow> ((Pending, []), rf)
      | (Panics msg, rf) \<Rightarrow> ((Panics msg, []), rf))"

section \<open>Properties\<close>

text \<open>
  How \<open>accept\<close> turns a client away, unless with an I/O error: at its hello, with the record read from it; or with the
  first record of the camouflage server, which has got the client's.
\<close>

lemma camouflage_invalid:
  assumes "camouflage env buf c = Ready (Inl e)" "\<forall>x. e \<noteq> AcceptIo x"
  obtains cb m ob where "ae_connect env = Inr cb"
    "io_bind (write_all buf) (\<lambda>_. read_tls_message (ae_tls env)) cb = (Ready (Inr m), ob)"
    "e = ServerHelloInvalid (case m of Inr b \<Rightarrow> b | Inl _ \<Rightarrow> buf) c ob"
  using assms by (auto simp: camouflage_def answer_def Let_def split: sum.splits prod.splits outcome.splits option.splits if_splits)

lemma accept_turns_away:
  assumes "accept ops env srv peer inbound rf = (Ready (Inl e), rf')" "\<forall>x. e \<noteq> AcceptIo x"
  obtains m c where "read_tls_message (ae_tls env) inbound = (Ready (Inr m), c)"
    "\<And>w. (\<forall>buf io ob. e \<noteq> ServerHelloInvalid buf io ob) \<Longrightarrow>
       serve_rejected w e = fallback_relay w (case m of Inr b \<Rightarrow> b | Inl _ \<Rightarrow> []) c"
    "\<And>buf io ob. e = ServerHelloInvalid buf io ob \<Longrightarrow> \<exists>hello. m = Inr hello \<and> camouflage env hello c = Ready (Inl e)"
proof -
  from assms obtain m c where r: "read_tls_message (ae_tls env) inbound = (Ready (Inr m), c)"
    by (auto simp: accept_def split: prod.splits outcome.splits sum.splits)
  let ?buf = "case m of Inr b \<Rightarrow> b | Inl _ \<Rightarrow> []"
  from r assms(1) consider (refused) "e = ClientHelloInvalid ?buf c \<or> e = Unauthenticated ?buf c"
    | (known) chp where "hello_of env m = Some chp" "authentic env srv chp"
    by (auto simp: accept_def Let_def split: option.splits if_splits)
  then show thesis
  proof cases
    case refused
    with r show ?thesis by (intro that [of m c]) auto
  next
    case known
    obtain q rf1 where q: "consult_filter ops peer (nonce_of chp) ?buf c rf = (q, rf1)" by (metis surj_pair)
    obtain hello where m: "m = Inr hello" using known(1) by (auto simp: hello_of_def split: sum.splits)
    from accept_authentic [OF r known refl, of ops peer rf] q assms(1)
    consider "q = Ready (Inl e)" | "q = Ready (Inr ())" "camouflage env ?buf c = Ready (Inl e)"
      by (auto split: outcome.splits sum.splits)
    then show ?thesis
    proof cases
      case 1
      with q obtain p where "e = ReplayDetected ?buf c (nonce_of chp) p"
        by (auto simp: consult_filter_def split: if_splits prod.splits option.splits)
      with r show ?thesis by (intro that [of m c]) auto
    next
      case 2
      from 2(2) assms(2) obtain b ob where "e = ServerHelloInvalid b c ob" by (rule camouflage_invalid) blast
      with r m 2(2) show ?thesis by (intro that [of m c]) auto
    qed
  qed
qed

text \<open>
  C12. A client that is not accepted talks to the camouflage server. Whatever the reason, I/O errors apart, if the connections take what is
  written to them, it is relayed to a connection to the camouflage server, which has got exactly the bytes that the client sent
  from the first one on. There is one exception: of a record of the client whose header is rejected, the five bytes of the header are
  lost. Nothing was sent to a client whose hello was not a hello, carried no valid signature or challenge, or was a replay. A client with
  an authentic hello that is let down by the camouflage server, whose answer is no ServerHello, has got that answer; but when the header
  of the answer is rejected, these five bytes are lost, and the client has got its own hello back.
\<close>

theorem rejected_client_sees_camouflage:
  assumes "accept ops env srv peer inbound rf = (Ready (Inl e), rf')" "\<forall>x. e \<noteq> AcceptIo x"
    and "sw_camouflage w = Inr b" "wr_room b = None" "wr_room inbound = None" "sw_warn_peer w = None"
    and "\<forall>cb. ae_connect env = Inr cb \<longrightarrow> wr_room cb = None"
  shows "\<exists>m c io b'. read_tls_message (ae_tls env) inbound = (Ready (Inr m), c) \<and>
    snd (fst (handle_connection ops env srv peer ac dns w inbound rf)) = [CopyFallback io b'] \<and>
    (if \<exists>buf io ob. e = ServerHelloInvalid buf io ob
     then \<exists>cb hello ans. ae_connect env = Inr cb \<and> m = Inr hello \<and> out b' @ inp io = out cb @ inp inbound \<and>
       read_tls_message (ae_tls env) (cb\<lparr>out := out cb @ hello\<rparr>) = (Ready (Inr ans), b') \<and>
       (case ans of
          Inr bs \<Rightarrow> out io = out inbound @ bs \<and> inp cb = bs @ inp b'
        | Inl _ \<Rightarrow> out io = out inbound @ hello \<and> inp b' = drop 5 (inp cb))
     else out io = out inbound \<and>
       out b' @ inp io = out b @ (case m of Inr _ \<Rightarrow> inp inbound | Inl _ \<Rightarrow> drop 5 (inp inbound)))"
proof -
  from accept_turns_away [OF assms(1,2)] obtain m c where r: "read_tls_message (ae_tls env) inbound = (Ready (Inr m), c)"
    and early: "(\<forall>buf io ob. e \<noteq> ServerHelloInvalid buf io ob) \<Longrightarrow>
       serve_rejected w e = fallback_relay w (case m of Inr b \<Rightarrow> b | Inl _ \<Rightarrow> []) c"
    and late: "\<And>buf io ob. e = ServerHelloInvalid buf io ob \<Longrightarrow> \<exists>hello. m = Inr hello \<and> camouflage env hello c = Ready (Inl e)" by metis
  have h: "fst (handle_connection ops env srv peer ac dns w inbound rf) = serve_rejected w e"
    using assms(1) by (simp add: handle_connection_def)
  show ?thesis
  proof (cases "\<exists>buf io ob. e = ServerHelloInvalid buf io ob")
    case False
    let ?b = "b\<lparr>out := out b @ (case m of Inr b \<Rightarrow> b | Inl _ \<Rightarrow> [])\<rparr>"
    have "snd (fst (handle_connection ops env srv peer ac dns w inbound rf)) = [CopyFallback c ?b]"
      using assms(3,4) h early False by (simp add: fallback_relay_def write_all_unbounded)
    moreover have "out c = out inbound \<and> out ?b @ inp c = out b @ (case m of Inr _ \<Rightarrow> inp inbound | Inl _ \<Rightarrow> drop 5 (inp inbound))"
      using r by (cases m) (auto dest!: read_tls_message_Inr read_tls_message_Inl)
    ultimately show ?thesis using r False by auto
  next
    case True
    with late obtain hello where m: "m = Inr hello" and f: "camouflage env hello c = Ready (Inl e)" by blast
    from f assms(2) obtain cb sh ob where cb: "ae_connect env = Inr cb"
      and io: "io_bind (write_all hello) (\<lambda>_. read_tls_message (ae_tls env)) cb = (Ready (Inr sh), ob)"
      and e: "e = ServerHelloInvalid (case sh of Inr b \<Rightarrow> b | Inl _ \<Rightarrow> hello) c ob" by (rule camouflage_invalid)
    let ?got = "case sh of Inr b \<Rightarrow> b | Inl _ \<Rightarrow> hello"
    have c: "inp inbound = hello @ inp c" "out c = out inbound" "wr_room c = wr_room inbound"
      using r m by (auto dest!: read_tls_message_Inr) (metis conn.select_convs(4) conn.surjective conn.update_convs(1))
    have rs: "read_tls_message (ae_tls env) (cb\<lparr>out := out cb @ hello\<rparr>) = (Ready (Inr sh), ob)"
      using io assms(7) cb by (simp add: io_bind_def write_all_unbounded)
    then have ob: "out ob = out cb @ hello" "case sh of Inr bs \<Rightarrow> inp cb = bs @ inp ob | Inl _ \<Rightarrow> inp ob = drop 5 (inp cb)"
      by (cases sh; auto dest!: read_tls_message_Inr read_tls_message_Inl)+
    have "snd (fst (handle_connection ops env srv peer ac dns w inbound rf)) = [CopyFallback (c\<lparr>out := out c @ ?got\<rparr>) ob]"
      using h e c(3) assms(5,6) by (simp add: write_all_unbounded)
    with True r m cb rs ob c show ?thesis
      by (intro exI [of _ m] exI [of _ c] exI [of _ "c\<lparr>out := out c @ ?got\<rparr>"] exI [of _ ob]) (auto split: sum.splits)
  qed
qed

definition sample_serve_world :: "((bytes \<times> u16) \<times> socket_addr) list serve_world" where
  "sample_serve_world = \<lparr>sw_stream = (\<lambda>c. c), sw_connect = (\<lambda>_. Inr fresh_conn), sw_camouflage = Inr fresh_conn, sw_warn_peer = None,
     sw_copy = (\<lambda>_ _. Pending), sw_udp_bind = None, sw_udp_events = [], sw_udp_cache = [], sw_now = 0, sw_now' = 0,
     sw_events = []\<rparr>"

text \<open>
  The sample hello, sent to a server with another key that accepts no challenge; and a server that accepts it, with a camouflage server that
  answers with an empty record.
\<close>

theorem rejected_client_sees_camouflage_witness:
  "(\<exists>io b'. snd (fst (handle_connection (list_lru 2) ((sample_env 0)\<lparr>ae_noise_read := (\<lambda>k m. False)\<rparr>)
       (server_new rev [9]) (Some (0 :: nat)) rfc1928 (list_lru 64) sample_serve_world hello_conn (mutex_new []))) = [CopyFallback io b'] \<and>
     out io = [] \<and> out b' @ inp io = sample_hello) \<and>
   (\<exists>io b'. snd (fst (handle_connection (list_lru 2)
       ((sample_env 1000020)\<lparr>ae_connect := Inr (fresh_conn\<lparr>inp := [0x16, 3, 3, 0, 0, 8]\<rparr>)\<rparr>)
       (server_new rev [1, 2, 3]) (Some (0 :: nat)) rfc1928 (list_lru 64) sample_serve_world hello_conn (mutex_new []))) = [CopyFallback io b'] \<and>
     out io = sample_hello \<and> out b' = sample_hello \<and> inp b' = [8])"
  (is "?refused \<and> ?echoed")
proof
  let ?env = "(sample_env 0)\<lparr>ae_noise_read := (\<lambda>k m. False)\<rparr>"
  have r: "read_tls_message (ae_tls ?env) hello_conn = (Ready (Inr (Inr sample_hello)), fresh_conn)"
    using sample_hello_read [of 0] by simp
  have "hello_of ?env (Inr sample_hello) = Some (replicate 32 7, replicate 16 0 @ replicate 16 7)"
    using sample_hello_parsed [of 0 7] by (simp add: hello_of_def)
  with r have a: "accept (list_lru 2) ?env (server_new rev [9]) (Some (0 :: nat)) hello_conn (mutex_new []) =
      (Ready (Inl (Unauthenticated sample_hello fresh_conn)), mutex_new [])"
    by (simp add: accept_def authentic_def Let_def)
  have w: "sw_camouflage sample_serve_world = Inr fresh_conn" "wr_room fresh_conn = None" "wr_room hello_conn = None"
    "sw_warn_peer sample_serve_world = None" by (simp_all add: sample_serve_world_def fresh_conn_def)
  have cw: "\<forall>cb. ae_connect ?env = Inr cb \<longrightarrow> wr_room cb = None" by (simp add: sample_env_def fresh_conn_def)
  from rejected_client_sees_camouflage [OF a _ w cw, of rfc1928 "list_lru 64"] r show ?refused
    by (auto simp: fresh_conn_def)
next
  let ?cb = "fresh_conn\<lparr>inp := [0x16, 3, 3, 0, 0, 8]\<rparr>"
  let ?env = "(sample_env 1000020)\<lparr>ae_connect := Inr ?cb\<rparr>" and ?srv = "server_new rev [1, 2, 3]"
  let ?chp = "(replicate 32 7, replicate 16 0 @ replicate 16 7) :: bytes \<times> bytes"
  have "no_overflow (srv_totp ?srv) 1000020" by (simp add: no_overflow_def server_new_def totp_new_def)
  from sample_hello_authentic [OF this, of 7] have au: "authentic ?env ?srv ?chp" by (simp add: authentic_def)
  have r: "read_tls_message (ae_tls ?env) hello_conn = (Ready (Inr (Inr sample_hello)), fresh_conn)"
    "hello_of ?env (Inr sample_hello) = Some ?chp"
    using sample_hello_read [of 1000020 7] sample_hello_parsed [of 1000020 7] by (simp_all add: hello_of_def)
  have t: "read_tls_message (ae_tls ?env) (?cb\<lparr>out := sample_hello\<rparr>) = (Ready (Inr (Inl InvalidEmptyPayload)), fresh_conn\<lparr>inp := [8], out := sample_hello\<rparr>)"
    by (simp add: read_tls_message_def sample_env_def fresh_conn_def io_bind_def read_exact_def io_return_def of_be16_def Let_def)
  then have "(camouflage ?env sample_hello fresh_conn :: (nat accept_error + conn) outcome) =
      Ready (Inl (ServerHelloInvalid sample_hello fresh_conn (fresh_conn\<lparr>inp := [8], out := sample_hello\<rparr>)))"
    by (simp add: camouflage_def write_all_unbounded fresh_conn_def)
  then obtain rf' where a: "accept (list_lru 2) ?env ?srv (Some (0 :: nat)) hello_conn (mutex_new []) =
      (Ready (Inl (ServerHelloInvalid sample_hello fresh_conn (fresh_conn\<lparr>inp := [8], out := sample_hello\<rparr>))), rf')"
    using accept_authentic [OF r au refl, of "list_lru 2" "Some (0 :: nat)" "mutex_new []"]
    by (auto simp: consult_filter_def list_lru_def mutex_new_def)
  have w: "sw_camouflage sample_serve_world = Inr fresh_conn" "wr_room fresh_conn = None" "wr_room hello_conn = None"
    "sw_warn_peer sample_serve_world = None" by (simp_all add: sample_serve_world_def fresh_conn_def)
  have cw: "\<forall>cb. ae_connect ?env = Inr cb \<longrightarrow> wr_room cb = None" by (simp add: fresh_conn_def)
  from rejected_client_sees_camouflage [OF a _ w cw, of rfc1928 "list_lru 64"] r(1) t show ?echoed
    by (auto simp: fresh_conn_def)
qed

end
