(* ===== verification/Connector.thy ===== *)
theory Connector
  imports Opt
begin

text \<open>
  \<open>shuttle/src/client/connector.rs\<close> and \<open>run_client\<close> of \<open>client/mod.rs\<close>: how the client gets its tunnels,
  connecting in advance or on demand. The bounded queue of the \<open>deadqueue\<close> crate is its capacity together
  with the sequence of what is taken from it; the operations on \<open>f32\<close> are a parameter.
\<close>

section \<open>Model\<close>

abbreviation (input) PREFLIHGTER_CONNIDLE :: nat where "PREFLIHGTER_CONNIDLE \<equiv> 120"

record 't f32_ops =
  f_add :: "'t \<Rightarrow> 't \<Rightarrow> 't"
  f_sub :: "'t \<Rightarrow> 't \<Rightarrow> 't"
  f_mul :: "'t \<Rightarrow> 't \<Rightarrow> 't"
  f_gt :: "'t \<Rightarrow> 't \<Rightarrow> bool"
  f_zero :: 't
  f_coeff :: 't
  f_rest :: 't

text \<open>\<open>f_coeff\<close> is \<open>PREFLIHGTER_EMA_COEFF\<close> and \<open>f_rest\<close> is one minus it.\<close>

record 't preflighter =
  pf_capacity :: nat
  pf_aht :: 't
  pf_chd :: 't
  pf_min :: nat
  pf_max :: "nat option"

definition new_flighting :: "'t f32_ops \<Rightarrow> nat \<Rightarrow> nat option \<Rightarrow> 't preflighter outcome" where
  "new_flighting ops mn mx =
     (if 0 < mn \<and> mn \<le> (case mx of Some m \<Rightarrow> m | None \<Rightarrow> USIZE_BOUND - 1)
      then Ready \<lparr>pf_capacity = mn, pf_aht = f_zero ops, pf_chd = f_zero ops, pf_min = mn, pf_max = mx\<rparr>
      else Panics ''assertion failed: min > 0 && min <= max.unwrap_or(usize::MAX)'')"

text \<open>A connection task that ends with a tunnel updates the average handshake time.\<close>

definition handshaked :: "'t f32_ops \<Rightarrow> 't \<Rightarrow> 't preflighter \<Rightarrow> 't preflighter" where
  "handshaked ops elapsed pf =
     pf\<lparr>pf_aht := f_add ops (f_mul ops elapsed (f_coeff ops)) (f_mul ops (pf_aht pf) (f_rest ops))\<rparr>"

text \<open>
  The statistics of \<open>run\<close> after it has queued a connection: the instants of the last minute and their
  number. Times are in nanoseconds.
\<close>

definition run_window :: "instant \<Rightarrow> instant \<Rightarrow> instant list \<times> int \<Rightarrow> instant list \<times> int" where
  "run_window pushed now st =
     (let window = fst st @ [pushed]; old = takeWhile (\<lambda>t. (now - t) div 1000000000 > 60) window in
      (drop (length old) window, snd st + 1 - int (length old)))"

text \<open>
  What \<open>get\<close> takes from the queue: how many seconds ago it was queued, how the task ended (\<open>None\<close> when it
  panicked), and how long \<open>get\<close> waited for it. In between, connection tasks change the average, and other
  tasks that call \<open>get\<close> resize the queue.
\<close>

record ('t, 's) popped =
  pop_age :: nat
  pop_result :: "(io_error + 's) option"
  pop_delay :: 't

datatype ('t, 's) pf_event = Popped "('t, 's) popped" | Handshaked 't | OtherIdle nat | OtherDelay 't

text \<open>Reading the capacity and the awaited \<open>resize\<close> that follows are one step here: another task may act before or after
  the two, and not between them.\<close>

definition idle_resize :: "nat \<Rightarrow> 't preflighter \<Rightarrow> 't preflighter" where
  "idle_resize age pf =
     (if age > PREFLIHGTER_CONNIDLE then pf\<lparr>pf_capacity := max (pf_capacity pf - 1) (pf_min pf)\<rparr> else pf)"

definition delay_resize :: "'t f32_ops \<Rightarrow> 't \<Rightarrow> 't preflighter \<Rightarrow> 't preflighter outcome" where
  "delay_resize ops elapsed pf0 =
     (let aht = pf_aht pf0; chd = f_add ops (pf_chd pf0) elapsed;
          pf = pf0\<lparr>pf_chd := if f_gt ops chd aht then f_sub ops chd aht else chd\<rparr> in
      if f_gt ops chd aht then
        (if pf_capacity pf + 1 \<ge> USIZE_BOUND then Panics ''attempt to add with overflow''
         else Ready (pf\<lparr>pf_capacity :=
                min (pf_capacity pf + 1) (case pf_max pf of Some m \<Rightarrow> m | None \<Rightarrow> USIZE_BOUND - 1)\<rparr>))
      else Ready pf)"

fun get_loop :: "'t f32_ops \<Rightarrow> ('t, 's) pf_event list \<Rightarrow> nat \<Rightarrow> 't preflighter \<Rightarrow>
    (io_error + 's) outcome \<times> 't preflighter" where
  "get_loop ops [] errcnt pf = (Pending, pf)"
| "get_loop ops (Handshaked elapsed # evs) errcnt pf = get_loop ops evs errcnt (handshaked ops elapsed pf)"
| "get_loop ops (OtherIdle age # evs) errcnt pf = get_loop ops evs errcnt (idle_resize age pf)"
| "get_loop ops (OtherDelay elapsed # evs) errcnt pf =
     get_loop ops evs errcnt (case delay_resize ops elapsed pf of Ready pf' \<Rightarrow> pf' | _ \<Rightarrow> pf)"
| "get_loop ops (Popped p # evs) errcnt pf0 =
     (if pop_age p > PREFLIHGTER_CONNIDLE \<and> pf_capacity pf0 = 0
      then (Panics ''assertion failed: self.queue.capacity() > 0'', pf0)
      else
        (let pf = idle_resize (pop_age p) pf0 in
         case pop_result p of
           None \<Rightarrow> (Panics ''called `Result::unwrap()` on an `Err` value'', pf)
         | Some (Inr s) \<Rightarrow>
             (case delay_resize ops (pop_delay p) pf of
                Ready pf' \<Rightarrow> (Ready (Inr s), pf')
              | Pending \<Rightarrow> (Pending, pf)
              | Panics msg \<Rightarrow> (Panics msg, pf))
         | Some (Inl e) \<Rightarrow>
             (if errcnt + 1 = pf_capacity pf then (Ready (Inl e), pf)
              else get_loop ops evs (errcnt + 1) pf)))"

definition get :: "'t f32_ops \<Rightarrow> ('t, 's) pf_event list \<Rightarrow> 't preflighter \<Rightarrow> (io_error + 's) outcome \<times> 't preflighter" where
  "get ops evs pf = get_loop ops evs 0 pf"

text \<open>The connector that connects on demand: \<open>TcpStream::connect\<close>, then the handshake over it.\<close>

definition adhoc_connect :: "io_error + 'tcp \<Rightarrow> ('tcp \<Rightarrow> (io_error + 's) outcome) \<Rightarrow> (io_error + 's) outcome" where
  "adhoc_connect tcp handshake = (case tcp of Inl e \<Rightarrow> Ready (Inl e) | Inr s \<Rightarrow> handshake s)"

text \<open>Which connector the client runs with, and the configuration of its pool.\<close>

datatype 't connector = AdHoc | Preflight "'t preflighter"

definition run_client :: "'t f32_ops \<Rightarrow> clt_opt \<Rightarrow> (string + 't connector \<times> reuse_config option) outcome" where
  "run_client ops opt =
     (if preflight opt = (0, Some 0) then Ready (map_sum id (Pair AdHoc) (opt_reuse_config opt))
      else
        (case new_flighting ops (fst (preflight opt)) (snd (preflight opt)) of
           Ready pf \<Rightarrow> Ready (map_sum id (Pair (Preflight pf)) (opt_reuse_config opt))
         | Pending \<Rightarrow> Pending
         | Panics msg \<Rightarrow> Panics msg))"

section \<open>Lemmas\<close>

definition pf_max_or :: "'t preflighter \<Rightarrow> nat" where
  "pf_max_or pf = (case pf_max pf of Some m \<Rightarrow> m | None \<Rightarrow> USIZE_BOUND - 1)"

definition pf_inv :: "'t preflighter \<Rightarrow> bool" where
  "pf_inv pf \<longleftrightarrow> 0 < pf_min pf \<and> pf_min pf \<le> pf_capacity pf \<and> pf_capacity pf \<le> pf_max_or pf"

lemma new_flighting_inv: "new_flighting ops mn mx = Ready pf \<Longrightarrow> pf_inv pf"
  by (auto simp: new_flighting_def pf_inv_def pf_max_or_def split: if_splits)

lemma handshaked_inv: "pf_inv pf \<Longrightarrow> pf_inv (handshaked ops t pf)"
  by (simp add: handshaked_def pf_inv_def pf_max_or_def)

lemma idle_resize_inv: "pf_inv pf \<Longrightarrow> pf_inv (idle_resize age pf)"
  by (auto simp: idle_resize_def pf_inv_def pf_max_or_def)

lemma delay_resize_inv: "pf_inv pf \<Longrightarrow> delay_resize ops t pf = Ready pf' \<Longrightarrow> pf_inv pf'"
  by (auto simp: delay_resize_def pf_inv_def pf_max_or_def Let_def split: if_splits)

lemma other_delay_inv: "pf_inv pf \<Longrightarrow> pf_inv (case delay_resize ops t pf of Ready pf' \<Rightarrow> pf' | _ \<Rightarrow> pf)"
  using delay_resize_inv [of pf ops t] by (auto split: outcome.splits)

lemma get_loop_inv: "pf_inv pf \<Longrightarrow> pf_inv (snd (get_loop ops evs n pf))"
proof (induction ops evs n pf rule: get_loop.induct)
  case (5 ops p evs n pf0)
  let ?pf = "idle_resize (pop_age p) pf0"
  have i: "pf_inv ?pf" by (rule idle_resize_inv [OF 5(2)])
  show ?case
  proof (cases "pop_result p")
    case (Some r)
    show ?thesis
    proof (cases r)
      case (Inl e)
      with Some i 5 show ?thesis by (auto simp: Let_def)
    next
      case (Inr s)
      with Some i 5(2) delay_resize_inv [OF i] show ?thesis by (auto simp: Let_def split: outcome.splits)
    qed
  qed (use i 5(2) in \<open>auto simp: Let_def\<close>)
qed (simp_all add: handshaked_inv idle_resize_inv other_delay_inv)

lemma bounds_kept:
  "pf_min (handshaked ops t pf) = pf_min pf" "pf_max (handshaked ops t pf) = pf_max pf"
  "pf_min (idle_resize a pf) = pf_min pf" "pf_max (idle_resize a pf) = pf_max pf"
  "delay_resize ops t pf = Ready pf' \<Longrightarrow> pf_min pf' = pf_min pf \<and> pf_max pf' = pf_max pf"
  by (auto simp: handshaked_def idle_resize_def delay_resize_def Let_def split: if_splits)

lemma get_loop_bounds: "pf_min (snd (get_loop ops evs n pf)) = pf_min pf \<and> pf_max (snd (get_loop ops evs n pf)) = pf_max pf"
  by (induction ops evs n pf rule: get_loop.induct)
    (auto simp: bounds_kept Let_def split: outcome.splits option.splits sum.splits dest: bounds_kept(5))

lemma get_loop_no_assert:
  "pf_inv pf \<Longrightarrow> fst (get_loop ops evs n pf) \<noteq> Panics ''assertion failed: self.queue.capacity() > 0''"
proof (induction ops evs n pf rule: get_loop.induct)
  case (5 ops p evs n pf0)
  then have "0 < pf_capacity pf0" by (simp add: pf_inv_def)
  with 5(1) idle_resize_inv [OF 5(2), of "pop_age p"] show ?case
    by (auto simp: Let_def delay_resize_def split: outcome.splits option.splits sum.splits if_splits)
qed (simp_all add: handshaked_inv idle_resize_inv other_delay_inv)

text \<open>Attempts that fail, some of them queued too long ago.\<close>

definition failing :: "('t, 's) popped \<Rightarrow> bool" where
  "failing p \<longleftrightarrow> (case pop_result p of Some (Inl _) \<Rightarrow> True | _ \<Rightarrow> False)"

lemma failingE: "failing p \<Longrightarrow> (\<And>e. pop_result p = Some (Inl e) \<Longrightarrow> R) \<Longrightarrow> R"
  by (auto simp: failing_def split: option.splits sum.splits)

lemma fresh_failures:
  assumes "\<forall>p \<in> set ps. failing p \<and> pop_age p \<le> PREFLIHGTER_CONNIDLE" "n + length ps < pf_capacity pf"
  shows "get_loop ops (map Popped ps @ evs) n pf = get_loop ops evs (n + length ps) pf"
  using assms
proof (induction ps arbitrary: n)
  case (Cons p ps)
  then obtain e where "pop_result p = Some (Inl e)" by (auto elim: failingE)
  with Cons.prems Cons.IH [of "n + 1"] show ?case by (simp add: idle_resize_def Let_def)
qed simp

lemma skipped_forever:
  assumes "\<forall>p \<in> set ps. failing p" "pf_inv pf" "pf_capacity pf \<le> n"
  shows "fst (get_loop ops (map Popped ps) n pf) = Pending"
  using assms
proof (induction ps arbitrary: n pf)
  case (Cons p ps)
  let ?pf = "idle_resize (pop_age p) pf"
  from Cons.prems obtain e where e: "pop_result p = Some (Inl e)" by (auto elim: failingE)
  have c: "pf_capacity ?pf \<le> n" using Cons.prems by (auto simp: idle_resize_def pf_inv_def)
  have "fst (get_loop ops (map Popped ps) (n + 1) ?pf) = Pending"
    using Cons.prems c by (intro Cons.IH idle_resize_inv) simp_all
  moreover have "0 < pf_capacity pf" using Cons.prems(2) by (simp add: pf_inv_def)
  ultimately show ?case using e c by (simp add: Let_def)
qed simp

section \<open>Properties\<close>

text \<open>
  C34. Preflighting keeps within the bounds it was given. Over any number of calls of \<open>get\<close>, whatever is
  taken from the queue and whatever other tasks do to it between its steps, the capacity of the queue stays between the
  minimum and the maximum, and the assertion that it is positive never fails.
\<close>

theorem preflight_bounded:
  assumes "new_flighting ops mn mx = Ready pf0"
    and "pf = fold (\<lambda>evs pf. snd (get ops evs pf)) calls pf0"
  shows "mn \<le> pf_capacity pf \<and> pf_capacity pf \<le> (case mx of Some m \<Rightarrow> m | None \<Rightarrow> USIZE_BOUND - 1) \<and>
    fst (get ops evs pf) \<noteq> Panics ''assertion failed: self.queue.capacity() > 0''"
proof -
  have "pf_inv (fold (\<lambda>evs pf. snd (get ops evs pf)) calls p) \<and>
      pf_min (fold (\<lambda>evs pf. snd (get ops evs pf)) calls p) = pf_min p \<and>
      pf_max (fold (\<lambda>evs pf. snd (get ops evs pf)) calls p) = pf_max p" if "pf_inv p" for p
    using that by (induction calls arbitrary: p) (simp_all add: get_def get_loop_inv get_loop_bounds)
  from this [OF new_flighting_inv [OF assms(1)]] assms
  have "pf_inv pf" "pf_min pf = mn" "pf_max pf = mx" by (auto simp: new_flighting_def split: if_splits)
  with get_loop_no_assert [of pf ops evs 0] show ?thesis by (simp add: pf_inv_def pf_max_or_def get_def)
qed

theorem preflight_bounded_witness:
  "\<exists>pf0. new_flighting \<lparr>f_add = (+), f_sub = (-), f_mul = (*), f_gt = (>), f_zero = 0 :: nat, f_coeff = 1, f_rest = 0\<rparr>
       1 (Some 2) = Ready pf0 \<and>
     pf_capacity (snd (get \<lparr>f_add = (+), f_sub = (-), f_mul = (*), f_gt = (>), f_zero = 0 :: nat, f_coeff = 1, f_rest = 0\<rparr>
       [Popped \<lparr>pop_age = 0, pop_result = Some (Inr ()), pop_delay = 3\<rparr>] pf0)) = 2"
proof -
  let ?ops = "\<lparr>f_add = (+), f_sub = (-), f_mul = (*), f_gt = (>), f_zero = 0 :: nat, f_coeff = 1, f_rest = 0\<rparr>"
  let ?evs = "[Popped \<lparr>pop_age = 0, pop_result = Some (Inr ()), pop_delay = 3\<rparr>] :: (nat, unit) pf_event list"
  obtain pf0 where n: "new_flighting ?ops 1 (Some 2) = Ready pf0" by (simp add: new_flighting_def)
  from preflight_bounded [OF n, of "snd (get ?ops ?evs pf0)" "[?evs]" "[] :: (nat, unit) pf_event list"]
  have "pf_capacity (snd (get ?ops ?evs pf0)) \<le> 2" by simp
  moreover have "pf_capacity (snd (get ?ops ?evs pf0)) = 2"
    using n by (auto simp: new_flighting_def get_def idle_resize_def delay_resize_def)
  ultimately show ?thesis using n by blast
qed

text \<open>
  When the server is down, \<open>get\<close> reports it after as many failures as the queue is long, unless a
  connection that was queued too long ago comes up at the last of them: the capacity drops below the
  number of failures, the comparison for equality is missed, and from then on \<open>get\<close> keeps waiting for as
  long as the attempts keep failing.
\<close>

lemma failures_reported_or_missed:
  assumes "pf_inv pf" "pf_capacity pf = Suc n"
    and "\<forall>p \<in> set ps. failing p \<and> pop_age p \<le> PREFLIHGTER_CONNIDLE" "length ps = n"
    and "failing p" "pop_result p = Some (Inl e)" "\<forall>p \<in> set later. failing p"
  shows "(pop_age p \<le> PREFLIHGTER_CONNIDLE \<longrightarrow>
      fst (get ops (map Popped (ps @ p # later)) pf) = Ready (Inl e)) \<and>
    (pop_age p > PREFLIHGTER_CONNIDLE \<and> pf_min pf < Suc n \<longrightarrow>
      fst (get ops (map Popped (ps @ p # later)) pf) = Pending)"
proof -
  have g: "get ops (map Popped (ps @ p # later)) pf = get_loop ops (Popped p # map Popped later) n pf"
    using fresh_failures [OF assms(3), of 0 pf ops "Popped p # map Popped later"] assms(2,4) by (simp add: get_def)
  let ?pf = "idle_resize (pop_age p) pf"
  have "fst (get_loop ops (map Popped later) (n + 1) ?pf) = Pending"
    using assms(1,2,7) by (intro skipped_forever idle_resize_inv) (auto simp: idle_resize_def pf_inv_def)
  with g assms(2,6) show ?thesis by (auto simp: idle_resize_def Let_def)
qed

lemma parsed_min_bound: "parse_preflight_bounds s = Inr (a, b) \<Longrightarrow> a < USIZE_BOUND"
  by (auto simp: parse_preflight_bounds.simps res_bind_Inr Let_def split: if_splits option.splits
      dest: parse_unsigned_bound parse_unsigned_bound [OF sym])

text \<open>
  Every value of the preflight option that its parser accepts starts the client, except one whose
  maximum is below its minimum: the parser lets it through and the client panics on an assertion.
\<close>

lemma preflight_option_starts:
  assumes "parse_preflight_bounds s = Inr (preflight opt)"
  shows "(\<exists>msg. run_client ops opt = Panics msg) \<longleftrightarrow>
    (\<exists>m. snd (preflight opt) = Some m \<and> m < fst (preflight opt))"
proof -
  obtain a b where ab: "preflight opt = (a, b)" by (metis surj_pair)
  with assms have "a = 0 \<longrightarrow> b = Some 0" "a < USIZE_BOUND"
    using parse_preflight_bounds_min [of s a b] parsed_min_bound [of s a b] by auto
  with ab show ?thesis
    by (cases b) (auto simp: run_client_def new_flighting_def)
qed

definition crossed_opt :: clt_opt where
  "crossed_opt = \<lparr>preflight = (5, Some 3), reuse_flag = False, opt_max_idle = 4, opt_max_requests = 100,
     opt_max_age = 1800, opt_idle_timeout = 300, opt_keepalive_interval = 30, opt_keepalive_timeout = 10,
     opt_jitter_percent = 10\<rparr>"

end
