(* ===== verification/TunnelClient.thy ===== *)
theory TunnelClient
  imports Accept Loop
begin

text \<open>
  \<open>tunnel/src/client.rs\<close>: the client's side of the handshake. \<open>connect\<close> hides the first Noise message and
  the time signature in the random and the session id of a ClientHello, plays the TLS handshake with
  what the server relays from the camouflage server, and takes the answer of the tunnel's server from the
  first record afterwards. The \<open>rustls\<close> client connection and the Noise handshake are parameters.
\<close>

section \<open>The rest of a TLS 1.2 handshake\<close>

text \<open>
  The client connection of \<open>rustls\<close>: what it wants to do next, the bytes it wants to send, feeding it
  bytes (how many it took; \<open>None\<close> for an error), and processing what it was fed.
\<close>

record 'c rustls_ops =
  wants_read :: "'c \<Rightarrow> bool"
  wants_write :: "'c \<Rightarrow> bool"
  write_tls :: "'c \<Rightarrow> bytes \<times> 'c"
  read_tls :: "'c \<Rightarrow> bytes \<Rightarrow> (io_error + nat) \<times> 'c"
  process_new_packets :: "'c \<Rightarrow> (string + unit) \<times> 'c"

text \<open>The loop that feeds a whole record.\<close>

fun feed :: "'c rustls_ops \<Rightarrow> bytes \<Rightarrow> 'c \<Rightarrow> 'c outcome" where
  "feed ops bs c =
     (if bs = [] then Ready c
      else
        (case read_tls ops c bs of
           (Inl e, c) \<Rightarrow> Panics ''called `Result::unwrap()` on an `Err` value''
         | (Inr n, c) \<Rightarrow> (if n = 0 then Panics ''TLS feed zero'' else feed ops (drop n bs) c)))"

declare feed.simps [simp del]

text \<open>
  One round of the loop of \<open>tls12_handshake\<close>; \<open>cap\<close> is the length of the buffer, which grows with what
  the connection writes into it.
\<close>

record 'c handshake_state =
  hs_conn :: 'c
  hs_stream :: conn
  hs_seen_ccs :: bool
  hs_cap :: nat

definition tls12_round :: "'c rustls_ops \<Rightarrow> bool \<Rightarrow> 'c handshake_state \<Rightarrow>
    'c handshake_state + (io_error + unit) outcome \<times> 'c handshake_state" where
  "tls12_round ops stop_after_server_ccs st =
     (if wants_write ops (hs_conn st) then
        (case write_tls ops (hs_conn st) of
           (bs, c) \<Rightarrow>
             (case write_all bs (hs_stream st) of
                (r, s) \<Rightarrow>
                  (let st = st\<lparr>hs_conn := c, hs_stream := s, hs_cap := max (hs_cap st) (length bs)\<rparr> in
                   case r of
                     Ready (Inr _) \<Rightarrow> Inl st
                   | Ready (Inl e) \<Rightarrow> Inr (Ready (Inl e), st)
                   | Pending \<Rightarrow> Inr (Pending, st)
                   | Panics msg \<Rightarrow> Inr (Panics msg, st))))
      else if wants_read ops (hs_conn st) then
        (case read_exact 5 (hs_stream st) of
           (Ready (Inr header), s) \<Rightarrow>
             (let len = unat (of_be16 (header ! 3) (header ! 4)) in
              if hs_cap st < 5 + len then Inr (Panics ''range end index out of range'', st\<lparr>hs_stream := s\<rparr>)
              else
                (case read_exact len s of
                   (Ready (Inr bs), s) \<Rightarrow>
                     (case feed ops (header @ bs) (hs_conn st) of
                        Ready c \<Rightarrow>
                          (case process_new_packets ops c of
                             (Inl msg, c) \<Rightarrow>
                               Inr (Ready (Inl (IoError InvalidData (''TLS handshake state: '' @ msg))),
                                    st\<lparr>hs_conn := c, hs_stream := s\<rparr>)
                           | (Inr _, c) \<Rightarrow>
                               (let st = st\<lparr>hs_conn := c, hs_stream := s\<rparr> in
                                if header ! 0 = CHANGE_CIPHER_SPEC then
                                  (let st = st\<lparr>hs_seen_ccs := True\<rparr> in
                                   if stop_after_server_ccs then Inr (Ready (Inr ()), st) else Inl st)
                                else if hs_seen_ccs st then Inr (Ready (Inr ()), st) else Inl st))
                      | Pending \<Rightarrow> Inr (Pending, st\<lparr>hs_stream := s\<rparr>)
                      | Panics msg \<Rightarrow> Inr (Panics msg, st\<lparr>hs_stream := s\<rparr>))
                 | (Ready (Inl e), s) \<Rightarrow> Inr (Ready (Inl e), st\<lparr>hs_stream := s\<rparr>)
                 | (Pending, s) \<Rightarrow> Inr (Pending, st\<lparr>hs_stream := s\<rparr>)
                 | (Panics msg, s) \<Rightarrow> Inr (Panics msg, st\<lparr>hs_stream := s\<rparr>)))
         | (Ready (Inl e), s) \<Rightarrow> Inr (Ready (Inl e), st\<lparr>hs_stream := s\<rparr>)
         | (Pending, s) \<Rightarrow> Inr (Pending, st\<lparr>hs_stream := s\<rparr>)
         | (Panics msg, s) \<Rightarrow> Inr (Panics msg, st\<lparr>hs_stream := s\<rparr>))
      else Inr (Ready (Inr ()), st))"

definition tls12_handshake :: "'c rustls_ops \<Rightarrow> bool \<Rightarrow> 'c \<Rightarrow> conn \<Rightarrow>
    ((io_error + unit) outcome \<times> 'c handshake_state) option" where
  "tls12_handshake ops stop_after_server_ccs c stream =
     run_loop (tls12_round ops stop_after_server_ccs)
       \<lparr>hs_conn = c, hs_stream = stream, hs_seen_ccs = False, hs_cap = 5 + MAXIMUM_CIPHERTEXT_LENGTH\<rparr>"

section \<open>Connecting\<close>

record 'n client =
  clt_key :: bytes
  clt_server_name :: 'n
  clt_fingerprint_spec :: fingerprint_spec
  clt_totp :: totp

definition client_new_with_fingerprint :: "(bytes \<Rightarrow> bytes) \<Rightarrow> bytes \<Rightarrow> 'n \<Rightarrow> fingerprint_spec \<Rightarrow> 'n client" where
  "client_new_with_fingerprint H key server_name fingerprint_spec =
     \<lparr>clt_key = derive_psk H key, clt_server_name = server_name, clt_fingerprint_spec = fingerprint_spec,
      clt_totp = totp_new H key 60 2\<rparr>"

definition client_new :: "(bytes \<Rightarrow> bytes) \<Rightarrow> bytes \<Rightarrow> 'n \<Rightarrow> 'n client" where
  "client_new H key server_name = client_new_with_fingerprint H key server_name fp_new"

text \<open>
  The application protocols that the \<open>rustls\<close> configuration is given: those of the fingerprint, or default
  ones, when the fingerprint lists the extension.
\<close>

definition alpn_protocols :: "fingerprint_spec \<Rightarrow> bytes list" where
  "alpn_protocols fp =
     (case fp_ja3 fp of
        None \<Rightarrow> []
      | Some ja3 \<Rightarrow>
          (if ALProtocolNegotiation \<in> set (ja3_extensions ja3)
           then (case fp_alpn fp of Some ps \<Rightarrow> ps | None \<Rightarrow> [ascii ''http/2'', ascii ''http/1.1''])
           else []))"

text \<open>\<open>writen::<N>\<close>: a Noise handshake message of exactly \<open>n\<close> bytes.\<close>

definition writen :: "nat \<Rightarrow> bytes \<Rightarrow> bytes outcome" where
  "writen n m =
     (if n < length m then Panics ''Noise state valid: Input''
      else if length m < n then Panics ''Expected, got when writing snow handshake message''
      else Ready m)"

text \<open>
  What an execution of \<open>connect\<close> meets: the first Noise message for a key, the \<open>rustls\<close> connection that
  is created for a server name, application protocols, a random, a session id and a function that rewrites the
  hello, the parsers of \<open>rustls\<close>, whether the Noise initiator accepts the answer, the clock, and the random values
  for the fingerprint. A panic of the rewriting is one of creating the connection.
\<close>

record ('n, 'c) connect_env =
  ce_tls :: tls_params
  ce_hash :: "bytes \<Rightarrow> bytes"
  ce_noise_write :: "bytes \<Rightarrow> bytes"
  ce_rustls :: "'c rustls_ops"
  ce_rustls_new :: "'n \<Rightarrow> bytes list \<Rightarrow> bytes \<Rightarrow> bytes \<Rightarrow>
    (tls_message \<Rightarrow> (u16 list \<times> tls_message) outcome) option \<Rightarrow> 'c outcome"
  ce_parsers :: rustls_parsers
  ce_noise_read :: "bytes \<Rightarrow> bytes \<Rightarrow> bool"
  ce_time :: u64
  ce_fp :: "(hello_ids, parsed_other) fp_env"
  ce_draws :: "u16 stream"
  ce_draws' :: "u16 stream"

text \<open>The random and the session id of the ClientHello.\<close>

definition hello_random :: "('n, 'c) connect_env \<Rightarrow> 'n client \<Rightarrow> bytes" where
  "hello_random env clt = take 32 (ce_noise_write env (clt_key clt))"

definition hello_session_id :: "('n, 'c) connect_env \<Rightarrow> 'n client \<Rightarrow> bytes" where
  "hello_session_id env clt =
     take 16 (drop 32 (ce_noise_write env (clt_key clt)))
     @ sign (ce_hash env) 16 (clt_totp clt) (ce_time env) (hello_random env clt)"

text \<open>The TLS connection that is made for the camouflage.\<close>

definition tls_client :: "('n, 'c) connect_env \<Rightarrow> 'n client \<Rightarrow> 'c outcome" where
  "tls_client env clt =
     (case writen 48 (ce_noise_write env (clt_key clt)) of
        Ready _ \<Rightarrow>
          ce_rustls_new env (clt_server_name clt) (alpn_protocols (clt_fingerprint_spec clt))
            (hello_random env clt) (hello_session_id env clt)
            (get_client_hello_overwriter (ce_fp env) (ce_draws env) (ce_draws' env) (clt_fingerprint_spec clt) True True)
      | Pending \<Rightarrow> Pending
      | Panics msg \<Rightarrow> Panics msg)"

text \<open>The last part: the answer of the tunnel's server.\<close>

definition finish :: "('n, 'c) connect_env \<Rightarrow> 'n client \<Rightarrow> (conn, io_error, unit) action" where
  "finish env clt =
     io_bind (read_tls_message (ce_tls env)) (\<lambda>m.
       case m of
         Inl e \<Rightarrow> io_fail (IoError InvalidData ''First data frame not noise'')
       | Inr msg \<Rightarrow>
           (if length msg < 5 + 48
            then io_fail (IoError InvalidData ''Noise handshake failed due to message length shorter than expected'')
            else if ce_noise_read env (clt_key clt) (take 48 (drop 5 msg)) then io_return ()
            else io_fail (IoError InvalidData ''decrypt error'')))"

definition connect :: "('n, 'c) connect_env \<Rightarrow> 'n client \<Rightarrow> conn \<Rightarrow>
    ((io_error + unit) outcome \<times> conn) option" where
  "connect env clt stream0 =
     (case tls_client env clt of
        Pending \<Rightarrow> Some (Pending, stream0)
      | Panics msg \<Rightarrow> Some (Panics msg, stream0)
      | Ready tlsconn0 \<Rightarrow>
      (case write_tls (ce_rustls env) tlsconn0 of
        (hello, tlsconn) \<Rightarrow>
          (case io_bind (write_all hello) (\<lambda>_. read_tls_message (ce_tls env)) stream0 of
             (Ready (Inr m), stream) \<Rightarrow>
               (case (case m of Inr buf \<Rightarrow> map_option (Pair buf) (server_hello_of (ce_parsers env) buf) | Inl _ \<Rightarrow> None) of
                  None \<Rightarrow> Some (Ready (Inl (IoError InvalidData ''Not or invalid Server Hello'')), stream)
                | Some (buf, True) \<Rightarrow> Some (finish env clt stream)
                | Some (buf, False) \<Rightarrow>
                    (case read_tls (ce_rustls env) tlsconn buf of
                       (Inl e, _) \<Rightarrow> Some (Ready (Inl e), stream)
                     | (Inr _, tlsconn) \<Rightarrow>
                         (case tls12_handshake (ce_rustls env) False tlsconn stream of
                            None \<Rightarrow> None
                          | Some (Ready (Inr _), st) \<Rightarrow> Some (finish env clt (hs_stream st))
                          | Some (Ready (Inl e), st) \<Rightarrow> Some (Ready (Inl e), hs_stream st)
                          | Some (Pending, st) \<Rightarrow> Some (Pending, hs_stream st)
                          | Some (Panics msg, st) \<Rightarrow> Some (Panics msg, hs_stream st))))
           | (Ready (Inl e), stream) \<Rightarrow> Some (Ready (Inl e), stream)
           | (Pending, stream) \<Rightarrow> Some (Pending, stream)
           | (Panics msg, stream) \<Rightarrow> Some (Panics msg, stream))))"

section \<open>The handshake of client and server\<close>

text \<open>A whole record that both sides read as one.\<close>

definition tls_record_ok :: "tls_params \<Rightarrow> bytes \<Rightarrow> bool" where
  "tls_record_ok P r \<longleftrightarrow>
     5 \<le> length r \<and> length r = 5 + unat (of_be16 (r ! 3) (r ! 4)) \<and> length r < 5 + MAXIMUM_CIPHERTEXT_LENGTH \<and>
     \<not> unknown_type P (r ! 0) \<and> \<not> unknown_version P (of_be16 (r ! 1) (r ! 2)) \<and> (r ! 0 \<noteq> 0x17 \<longrightarrow> 5 < length r)"

lemma read_tls_record:
  assumes "tls_record_ok P r" "inp c = r @ rest"
  shows "read_tls_message P c = (Ready (Inr (Inr r)), c\<lparr>inp := rest\<rparr>)"
proof -
  let ?h = "take 5 r" and ?d = "drop 5 r"
  have n: "?h ! i = r ! i" if "i < 5" for i using that assms(1) by (simp add: tls_record_ok_def)
  have "read_exact 5 c = (Ready (Inr ?h), c\<lparr>inp := ?d @ rest\<rparr>)"
    using assms by (simp add: read_exact_def tls_record_ok_def)
  moreover have "read_exact (unat (of_be16 (r ! 3) (r ! 4))) (c\<lparr>inp := ?d @ rest\<rparr>) = (Ready (Inr ?d), c\<lparr>inp := rest\<rparr>)"
    using assms(1) by (simp add: read_exact_def tls_record_ok_def)
  ultimately show ?thesis
    using assms(1) n by (auto simp: read_tls_message_def tls_record_ok_def Let_def)
qed

lemma pong_record:
  assumes "length (ae_noise_write env) = 48" "length (ae_padding env) \<le> 24"
    and "\<not> unknown_type P 0x17" "\<not> unknown_version P 0x0303"
  shows "tls_record_ok P (pong env)" "take 48 (drop 5 (pong env)) = ae_noise_write env" "\<not> length (pong env) < 5 + 48"
proof -
  let ?n = "length (ae_padding env)"
  have "(0x30 + of_nat ?n :: byte) = of_nat (48 + ?n)" by simp
  then have u: "unat (0x30 + of_nat ?n :: byte) = 48 + ?n"
    using assms(2) by (simp only: unat_of_nat) (simp add: take_bit_nat_eq_self)
  have z: "of_be16 0 b = ucast b" for b by (simp add: of_be16_def)
  have "unat (ucast (0x30 + of_nat ?n :: byte) :: u16) = 48 + ?n"
    using u assms(2) by (simp add: unsigned_ucast_eq take_bit_nat_eq_self)
  moreover have "of_be16 3 3 = 0x0303" by (simp add: of_be16_def)
  ultimately show "tls_record_ok P (pong env)"
    using assms by (simp add: tls_record_ok_def pong_def z)
qed (use assms in \<open>simp_all add: pong_def\<close>)

text \<open>The hello of the client, as the server reads it.\<close>

lemma hello_authentic:
  assumes "clt = client_new_with_fingerprint H key name fp" "srv = server_new H key"
    and "ce_hash cenv = H" "ae_hash env = H" "length (ce_noise_write cenv (derive_psk H key)) = 48"
    and "no_overflow (totp_new H key 60 2) (ae_time env)"
    and "steps_apart (totp_new H key 60 2) (ce_time cenv) (ae_time env) \<le> 2"
    and "ae_noise_read env (derive_psk H key) (ce_noise_write cenv (derive_psk H key))"
  shows "authentic env srv (hello_random cenv clt, hello_session_id cenv clt)"
    and "nonce_of (hello_random cenv clt, hello_session_id cenv clt) = hello_random cenv clt"
proof -
  let ?w = "ce_noise_write cenv (derive_psk H key)" and ?t = "totp_new H key 60 2"
  let ?sig = "sign H 16 ?t (ce_time cenv) (take 32 ?w)"
  have r: "hello_random cenv clt = take 32 ?w" "hello_session_id cenv clt = drop 32 ?w @ ?sig"
    using assms(1,3,5) by (simp_all add: hello_random_def hello_session_id_def client_new_with_fingerprint_def)
  have psk: "psk_e_of (take 32 ?w, drop 32 ?w @ ?sig) = ?w" using assms(5) by (simp add: psk_e_of_def)
  then show nonce: "nonce_of (hello_random cenv clt, hello_session_id cenv clt) = hello_random cenv clt"
    by (simp add: nonce_of_def r)
  have "length ?sig \<le> 16" by (simp add: sign_def)
  then have sig: "timesig_of (take 32 ?w, drop 32 ?w @ ?sig) = ?sig" using assms(5) by (simp add: timesig_of_def)
  have "totp_skew ?t = 2" by (simp add: totp_new_def)
  then have "verify H 16 ?t (take 32 ?w) ?sig (ae_time env)"
    using verify_iff [OF assms(6)] assms(7) by auto
  with assms(2,4,8) psk sig nonce show "authentic env srv (hello_random cenv clt, hello_session_id cenv clt)"
    by (simp add: authentic_def r server_new_def)
qed

text \<open>
  C7. The handshake of client and server completes. When both were given the same key, their clocks are
  at most two time steps apart, the hello is new to the replay filter, and the camouflage server answers
  with a ServerHello of TLS 1.3, then \<open>accept\<close> at the server returns a tunnel, and \<open>connect\<close> at the client,
  fed with what the server wrote, returns a tunnel as well; both are at the first byte after the handshake.
\<close>

theorem handshake_completes:
  fixes cenv :: "('n, 'c) connect_env" and env :: accept_env
  assumes same_key: "clt = client_new_with_fingerprint H key name fp" "srv = server_new H key"
      "ce_hash cenv = H" "ae_hash env = H"
    and clocks: "no_overflow (totp_new H key 60 2) (ae_time env)"
      "steps_apart (totp_new H key 60 2) (ce_time cenv) (ae_time env) \<le> 2"
    and noise: "length (ce_noise_write cenv (derive_psk H key)) = 48" "length (ae_noise_write env) = 48"
      "ae_noise_read env (derive_psk H key) (ce_noise_write cenv (derive_psk H key))"
      "ce_noise_read cenv (derive_psk H key) (ae_noise_write env)" "length (ae_padding env) \<le> 24"
    and hello: "ce_rustls_new cenv name (alpn_protocols fp) (hello_random cenv clt) (hello_session_id cenv clt)
        (get_client_hello_overwriter (ce_fp cenv) (ce_draws cenv) (ce_draws' cenv) fp True True) = Ready tlsconn0"
      "write_tls (ce_rustls cenv) tlsconn0 = (ch, tlsconn)" "tls_record_ok (ae_tls env) ch"
      "client_hello_of (ae_rustls env) ch = Some (hello_random cenv clt, hello_session_id cenv clt)"
    and fresh: "\<not> poisoned rf" "fst (lru_get ops (guarded rf) (hello_random cenv clt)) = None"
    and camouflage: "ae_connect env = Inr cam" "wr_room cam = None" "inp cam = sh @ rest"
      "tls_record_ok (ae_tls env) sh" "server_hello_of (ae_rustls env) sh = Some True"
      "tls_record_ok (ce_tls cenv) sh" "server_hello_of (ce_parsers cenv) sh = Some True"
      "\<not> unknown_type (ce_tls cenv) 0x17" "\<not> unknown_version (ce_tls cenv) 0x0303"
    and ends: "inp inbound = ch @ early" "out inbound = []" "wr_room inbound = None" "wr_room stream = None"
  shows "\<exists>inbound'. fst (accept ops env srv (Some peer) inbound rf) = Ready (Inr inbound') \<and> inp inbound' = early \<and>
    connect cenv clt (stream\<lparr>inp := out inbound' @ later\<rparr>) =
      Some (Ready (Inr ()), stream\<lparr>inp := later, out := out stream @ ch\<rparr>)"
proof -
  note a = hello_authentic [OF same_key noise(1) clocks noise(3)]
  note p = pong_record [OF noise(2,5) camouflage(8,9)]
  obtain rf' where g: "lru_get ops (guarded rf) (hello_random cenv clt) = (None, rf')" using fresh(2) by (metis prod.collapse)
  let ?in = "inbound\<lparr>inp := early, out := sh @ pong env\<rparr>"
  have "camouflage env ch (inbound\<lparr>inp := early\<rparr>) = Ready (Inr ?in)"
    using read_tls_record [OF camouflage(4), of "cam\<lparr>out := out cam @ ch\<rparr>" rest] camouflage(1-3,5) ends(2,3)
    by (simp add: camouflage_def answer_def write_all_unbounded)
  then have acc: "fst (accept ops env srv (Some peer) inbound rf) = Ready (Inr ?in)"
    using read_tls_record [OF hello(3) ends(1)] hello(4) a g fresh(1)
    by (simp add: accept_def hello_of_def consult_filter_def)
  let ?s = "stream\<lparr>inp := sh @ pong env @ later, out := out stream @ ch\<rparr>"
  have r: "io_bind (write_all ch) (\<lambda>_. read_tls_message (ce_tls cenv)) (stream\<lparr>inp := (sh @ pong env) @ later\<rparr>) =
      (Ready (Inr (Inr sh)), ?s\<lparr>inp := pong env @ later\<rparr>)"
    using read_tls_record [OF camouflage(6), of ?s "pong env @ later"] ends(4) by (simp add: write_all_unbounded)
  have key: "clt_key clt = derive_psk H key" "clt_server_name clt = name" "clt_fingerprint_spec clt = fp"
    by (simp_all add: same_key(1) client_new_with_fingerprint_def)
  have f: "finish cenv clt (?s\<lparr>inp := pong env @ later\<rparr>) = (Ready (Inr ()), ?s\<lparr>inp := later\<rparr>)"
    using read_tls_record [OF p(1), of "?s\<lparr>inp := pong env @ later\<rparr>" later] p(2,3) noise(4) key
    by (simp add: finish_def)
  have "connect cenv clt (stream\<lparr>inp := (sh @ pong env) @ later\<rparr>) = Some (Ready (Inr ()), ?s\<lparr>inp := later\<rparr>)"
    using hello(1,2) noise(1) r f camouflage(7) key by (simp add: connect_def tls_client_def writen_def)
  with acc show ?thesis by simp
qed

definition sample_rustls :: "bytes rustls_ops" where
  "sample_rustls = \<lparr>wants_read = (\<lambda>_. False), wants_write = (\<lambda>_. False), write_tls = (\<lambda>c. (c, [])),
     read_tls = (\<lambda>c bs. (Inr (length bs), c)), process_new_packets = (\<lambda>c. (Inr (), c))\<rparr>"

definition sample_cenv :: "(unit, bytes) connect_env" where
  "sample_cenv = \<lparr>ce_tls = \<lparr>unknown_type = (\<lambda>_. False), unknown_version = (\<lambda>_. False)\<rparr>, ce_hash = rev,
     ce_noise_write = (\<lambda>_. replicate 48 7), ce_rustls = sample_rustls,
     ce_rustls_new = (\<lambda>_ _ r s _. Ready ([0x16, 3, 3, 0, 65] @ HELLO_CLIENT # r @ s)), ce_parsers = toy_parsers,
     ce_noise_read = (\<lambda>_ m. length m = 48), ce_time = 1000150,
     ce_fp = \<lparr>get_type = sample_type, get_encoding = (\<lambda>_. []), is_grease = (\<lambda>_. False), regrease = (\<lambda>_ v. v),
       into_values = (\<lambda>_. [])\<rparr>, ce_draws = sconst 0, ce_draws' = sconst 0\<rparr>"

definition sample_sh :: bytes where
  "sample_sh = [0x16, 3, 3, 0, 1, 2]"

theorem handshake_completes_witness:
  "\<exists>ch inbound'.
     fst (accept (list_lru 2) ((sample_env 1000020)\<lparr>ae_connect := Inr (fresh_conn\<lparr>inp := sample_sh\<rparr>)\<rparr>)
       (server_new rev [1, 2, 3]) (Some (5 :: nat)) (fresh_conn\<lparr>inp := ch @ [42]\<rparr>) (mutex_new [])) = Ready (Inr inbound') \<and>
     inp inbound' = [42] \<and>
     connect sample_cenv (client_new_with_fingerprint rev [1, 2, 3] () fp_new) (fresh_conn\<lparr>inp := out inbound' @ [43]\<rparr>) =
       Some (Ready (Inr ()), fresh_conn\<lparr>inp := [43], out := ch\<rparr>)"
proof -
  let ?clt = "client_new_with_fingerprint rev [1, 2, 3] () fp_new" and ?t = "totp_new rev [1, 2, 3] 60 2"
  let ?env = "(sample_env 1000020)\<lparr>ae_connect := Inr (fresh_conn\<lparr>inp := sample_sh\<rparr>)\<rparr>"
  have sig: "sign rev 16 t time (replicate 32 7) = replicate 16 7" for t time
    by (simp add: sign_def possibly_insecure_hash_with_key_def)
  have r: "hello_random sample_cenv ?clt = replicate 32 7" by (simp add: hello_random_def sample_cenv_def)
  have s: "hello_session_id sample_cenv ?clt = replicate 32 7"
    unfolding hello_session_id_def r by (simp add: sample_cenv_def sig) (simp add: numeral_eq_Suc)
  let ?ch = "[0x16, 3, 3, 0, 65] @ HELLO_CLIENT # replicate 32 7 @ replicate 32 7 :: bytes"
  have "\<exists>inbound'. fst (accept (list_lru 2) ?env (server_new rev [1, 2, 3]) (Some (5 :: nat)) (fresh_conn\<lparr>inp := ?ch @ [42]\<rparr>) (mutex_new [])) =
      Ready (Inr inbound') \<and> inp inbound' = [42] \<and>
    connect sample_cenv ?clt (fresh_conn\<lparr>inp := out inbound' @ [43]\<rparr>) =
      Some (Ready (Inr ()), fresh_conn\<lparr>inp := [43], out := out fresh_conn @ ?ch\<rparr>)"
  proof (rule handshake_completes [OF refl refl, where ?tlsconn0.0 = ?ch and tlsconn = "[]" and sh = sample_sh and rest = "[]" and cam = "fresh_conn\<lparr>inp := sample_sh\<rparr>"])
    show "no_overflow ?t (ae_time ?env)" by (simp add: no_overflow_def totp_new_def sample_env_def)
    show "steps_apart ?t (ce_time sample_cenv) (ae_time ?env) \<le> 2"
      by (simp add: steps_apart_def totp_new_def sample_env_def sample_cenv_def)
    show "tls_record_ok (ae_tls ?env) ?ch"
      by (simp add: tls_record_ok_def sample_env_def of_be16_def)
    show "client_hello_of (ae_rustls ?env) ?ch = Some (hello_random sample_cenv ?clt, hello_session_id sample_cenv ?clt)"
      unfolding r s by (simp add: sample_env_def toy_client_hello del: append.simps)
    show "ce_rustls_new sample_cenv () (alpn_protocols fp_new) (hello_random sample_cenv ?clt) (hello_session_id sample_cenv ?clt)
        (get_client_hello_overwriter (ce_fp sample_cenv) (ce_draws sample_cenv) (ce_draws' sample_cenv) fp_new True True) = Ready ?ch"
      unfolding r s by (simp add: sample_cenv_def)
    show "server_hello_of (ae_rustls ?env) sample_sh = Some True" "server_hello_of (ce_parsers sample_cenv) sample_sh = Some True"
      using toy_server_hello [of "[0x16, 3, 3, 0, 1]" 2 "[]"] by (simp_all add: sample_env_def sample_cenv_def sample_sh_def)
    show "tls_record_ok (ae_tls ?env) sample_sh" "tls_record_ok (ce_tls sample_cenv) sample_sh"
      by (simp_all add: tls_record_ok_def sample_env_def sample_cenv_def sample_sh_def of_be16_def)
  qed (simp_all add: sample_env_def sample_cenv_def fresh_conn_def list_lru_def mutex_new_def sample_rustls_def)
  then show ?thesis by (auto simp: fresh_conn_def intro!: exI [of _ ?ch])
qed

section \<open>A TLS 1.2 handshake through the server\<close>

text \<open>
  A handshake that goes well, as seen by the \<open>rustls\<close> connection: \<open>Q k\<close> are its states while \<open>k\<close> more records are to
  come, and \<open>m\<close> bounds how often it wants to write before it wants to read. Fed with bytes, it takes some of
  them; processing a record brings it one record closer to the end.
\<close>

definition rustls_handshaking :: "'c rustls_ops \<Rightarrow> (nat \<Rightarrow> 'c \<Rightarrow> bool) \<Rightarrow> ('c \<Rightarrow> nat) \<Rightarrow> bool" where
  "rustls_handshaking ops Q m \<longleftrightarrow>
     (\<forall>k c. Q (Suc k) c \<and> \<not> wants_write ops c \<longrightarrow> wants_read ops c) \<and>
     (\<forall>k c. Q (Suc k) c \<and> wants_write ops c \<longrightarrow>
        Q (Suc k) (snd (write_tls ops c)) \<and> m (snd (write_tls ops c)) < m c) \<and>
     (\<forall>k c bs. Q (Suc k) c \<and> bs \<noteq> [] \<longrightarrow> (\<exists>n c'. read_tls ops c bs = (Inr n, c') \<and> 0 < n \<and> Q (Suc k) c')) \<and>
     (\<forall>k c. Q (Suc k) c \<longrightarrow> (\<exists>c'. process_new_packets ops c = (Inr (), c') \<and> Q k c'))"

lemma feed_handshaking:
  assumes "rustls_handshaking ops Q m"
  shows "Q (Suc k) c \<Longrightarrow> \<exists>c'. feed ops bs c = Ready c' \<and> Q (Suc k) c'"
proof (induction "length bs" arbitrary: bs c rule: less_induct)
  case less
  show ?case
  proof (cases "bs = []")
    case True
    with less.prems show ?thesis by (simp add: feed.simps)
  next
    case False
    with assms less.prems obtain n c' where n: "read_tls ops c bs = (Inr n, c')" "0 < n" "Q (Suc k) c'"
      unfolding rustls_handshaking_def by blast
    from False n(2) have "length (drop n bs) < length bs" by simp
    from less.hyps [OF this n(3)] n False show ?thesis by (simp add: feed.simps [of ops bs])
  qed
qed

text \<open>The states of the client's loop at the beginning of a round.\<close>

definition hs_at :: "(nat \<Rightarrow> 'c \<Rightarrow> bool) \<Rightarrow> nat \<Rightarrow> bool \<Rightarrow> bytes \<Rightarrow> 'c handshake_state \<Rightarrow> bool" where
  "hs_at Q k seen bs st \<longleftrightarrow> Q k (hs_conn st) \<and> hs_seen_ccs st = seen \<and> inp (hs_stream st) = bs \<and>
     wr_room (hs_stream st) = None \<and> 5 + MAXIMUM_CIPHERTEXT_LENGTH \<le> hs_cap st"

lemma writes_done:
  assumes "rustls_handshaking ops Q m"
  shows "hs_at Q (Suc k) seen bs st \<Longrightarrow> \<exists>st'. run_loop (tls12_round ops stop) st = run_loop (tls12_round ops stop) st' \<and>
    hs_at Q (Suc k) seen bs st' \<and> \<not> wants_write ops (hs_conn st')"
proof (induction "m (hs_conn st)" arbitrary: st rule: less_induct)
  case less
  show ?case
  proof (cases "wants_write ops (hs_conn st)")
    case False
    with less.prems show ?thesis by blast
  next
    case True
    obtain out' c where w: "write_tls ops (hs_conn st) = (out', c)" by (metis surj_pair)
    let ?st = "st\<lparr>hs_conn := c, hs_stream := (hs_stream st)\<lparr>out := out (hs_stream st) @ out'\<rparr>,
      hs_cap := max (hs_cap st) (length out')\<rparr>"
    have r: "tls12_round ops stop st = Inl ?st"
      using True w less.prems by (simp add: tls12_round_def hs_at_def write_all_unbounded)
    have "Q (Suc k) (snd (write_tls ops (hs_conn st))) \<and> m (snd (write_tls ops (hs_conn st))) < m (hs_conn st)"
      using assms True less.prems unfolding rustls_handshaking_def hs_at_def by blast
    with w less.prems have "m (hs_conn ?st) < m (hs_conn st)" "hs_at Q (Suc k) seen bs ?st"
      by (auto simp: hs_at_def)
    from less.hyps [OF this] show ?thesis by (simp add: run_loop_again [of "tls12_round ops stop", OF r])
  qed
qed

lemma record_round:
  assumes ok: "rustls_handshaking ops Q m" and st: "hs_at Q (Suc k) seen (tls_wire (t, v, d) @ rest) st"
    and w: "\<not> wants_write ops (hs_conn st)" and len: "length d \<le> MAXIMUM_CIPHERTEXT_LENGTH"
  shows "\<exists>st'. hs_at Q k (seen \<or> t = CHANGE_CIPHER_SPEC) rest st' \<and>
    tls12_round ops False st = (if t \<noteq> CHANGE_CIPHER_SPEC \<and> seen then Inr (Ready (Inr ()), st') else Inl st')"
proof -
  let ?s = "hs_stream st"
  obtain a b where v: "be16 v = [a, b]" by (simp add: be16_def)
  obtain h l where n: "be16 (of_nat (length d)) = [h, l]" by (simp add: be16_def)
  then have u: "unat (of_be16 h l) = length d"
    using len by (simp add: of_be16_be16 unat_of_nat take_bit_nat_eq_self)
  have "inp ?s = [t, a, b, h, l] @ d @ rest" using st v n by (simp add: tls_wire_def hs_at_def)
  then have h: "read_exact 5 ?s = (Ready (Inr [t, a, b, h, l]), ?s\<lparr>inp := d @ rest\<rparr>)"
    by (rule read_exact_append) simp
  have b: "read_exact (length d) (?s\<lparr>inp := d @ rest\<rparr>) = (Ready (Inr d), ?s\<lparr>inp := rest\<rparr>)"
    by (simp add: read_exact_def)
  have Q: "Q (Suc k) (hs_conn st)" using st by (simp add: hs_at_def)
  with ok w have r: "wants_read ops (hs_conn st)" unfolding rustls_handshaking_def by blast
  from feed_handshaking [OF ok Q] obtain c where c: "feed ops ([t, a, b, h, l] @ d) (hs_conn st) = Ready c" "Q (Suc k) c"
    by blast
  with ok obtain c' where c': "process_new_packets ops c = (Inr (), c')" "Q k c'"
    unfolding rustls_handshaking_def by blast
  let ?st = "st\<lparr>hs_conn := c', hs_stream := ?s\<lparr>inp := rest\<rparr>, hs_seen_ccs := seen \<or> t = CHANGE_CIPHER_SPEC\<rparr>"
  have "\<not> hs_cap st < 5 + length d" using st len by (simp add: hs_at_def)
  then have "tls12_round ops False st = (if t \<noteq> CHANGE_CIPHER_SPEC \<and> seen then Inr (Ready (Inr ()), ?st) else Inl ?st)"
    using w r h u b c(1) c'(1) st by (simp add: tls12_round_def Let_def hs_at_def)
  moreover have "hs_at Q k (seen \<or> t = CHANGE_CIPHER_SPEC) rest ?st" using st c'(2) by (simp add: hs_at_def)
  ultimately show ?thesis by blast
qed

text \<open>One record, after whatever the client had to write before it.\<close>

lemma record_consumed:
  assumes "rustls_handshaking ops Q m" "hs_at Q (Suc k) seen (tls_wire (t, v, d) @ rest) st"
    and "length d \<le> MAXIMUM_CIPHERTEXT_LENGTH"
  shows "\<exists>st'. hs_at Q k (seen \<or> t = CHANGE_CIPHER_SPEC) rest st' \<and> run_loop (tls12_round ops False) st =
    (if t \<noteq> CHANGE_CIPHER_SPEC \<and> seen then Some (Ready (Inr ()), st') else run_loop (tls12_round ops False) st')"
proof -
  from writes_done [OF assms(1,2), of False] obtain st1 where
    st1: "run_loop (tls12_round ops False) st = run_loop (tls12_round ops False) st1"
      "hs_at Q (Suc k) seen (tls_wire (t, v, d) @ rest) st1" "\<not> wants_write ops (hs_conn st1)" by blast
  from record_round [OF assms(1) st1(2,3) assms(3)] obtain st' where
    "hs_at Q k (seen \<or> t = CHANGE_CIPHER_SPEC) rest st'"
    "tls12_round ops False st1 = (if t \<noteq> CHANGE_CIPHER_SPEC \<and> seen then Inr (Ready (Inr ()), st') else Inl st')" by blast
  with st1(1) show ?thesis by (intro exI [of _ st']) (auto simp: run_loop_round)
qed

lemma handshake_records_consumed:
  assumes "rustls_handshaking ops Q m"
  shows "list_all (\<lambda>x. fst x = HANDSHAKE \<and> length (snd (snd x)) \<le> MAXIMUM_CIPHERTEXT_LENGTH) xs \<Longrightarrow>
    hs_at Q (length xs + k) False (concat (map tls_wire xs) @ rest) st \<Longrightarrow>
    \<exists>st'. hs_at Q k False rest st' \<and> run_loop (tls12_round ops False) st = run_loop (tls12_round ops False) st'"
proof (induction xs arbitrary: st)
  case Nil
  then show ?case by auto
next
  case (Cons x xs)
  obtain v d where x: "x = (HANDSHAKE, v, d)" using Cons.prems(1) by (cases x) auto
  from record_consumed [OF assms, of "length xs + k" False HANDSHAKE v d "concat (map tls_wire xs) @ rest" st] Cons.prems x
  obtain st1 where "hs_at Q (length xs + k) False (concat (map tls_wire xs) @ rest) st1"
    "run_loop (tls12_round ops False) st = run_loop (tls12_round ops False) st1" by auto
  with Cons.IH [of st1] Cons.prems(1) show ?case by auto
qed

lemma tls12_handshake_consumes:
  assumes "rustls_handshaking ops Q m" "Q (length xs + 2) c"
    and "list_all (\<lambda>x. fst x = HANDSHAKE \<and> length (snd (snd x)) \<le> MAXIMUM_CIPHERTEXT_LENGTH) xs"
    and "length d1 \<le> MAXIMUM_CIPHERTEXT_LENGTH" "length d2 \<le> MAXIMUM_CIPHERTEXT_LENGTH"
    and "inp stream = concat (map tls_wire (xs @ [(CHANGE_CIPHER_SPEC, v1, d1), (HANDSHAKE, v2, d2)])) @ later"
    and "wr_room stream = None"
  shows "\<exists>st. tls12_handshake ops False c stream = Some (Ready (Inr ()), st) \<and> inp (hs_stream st) = later"
proof -
  let ?f = "run_loop (tls12_round ops False)" and ?ccs = "(CHANGE_CIPHER_SPEC, v1, d1)" and ?fin = "(HANDSHAKE, v2, d2)"
  let ?st = "\<lparr>hs_conn = c, hs_stream = stream, hs_seen_ccs = False, hs_cap = 5 + MAXIMUM_CIPHERTEXT_LENGTH\<rparr>"
  have "hs_at Q (length xs + Suc (Suc 0)) False (concat (map tls_wire xs) @ tls_wire ?ccs @ tls_wire ?fin @ later) ?st"
    using assms(2,6,7) by (simp add: hs_at_def)
  from handshake_records_consumed [OF assms(1,3) this] obtain st1 where
    st1: "hs_at Q (Suc (Suc 0)) False (tls_wire ?ccs @ tls_wire ?fin @ later) st1" "?f ?st = ?f st1" by blast
  from record_consumed [OF assms(1) st1(1) assms(4)] obtain st2 where
    st2: "hs_at Q (Suc 0) True (tls_wire ?fin @ later) st2" "?f st1 = ?f st2" by auto
  from record_consumed [OF assms(1) st2(1) assms(5)] obtain st3 where
    "hs_at Q 0 True later st3" "?f st2 = Some (Ready (Inr ()), st3)" by auto
  with st1(2) st2(2) show ?thesis by (auto simp: tls12_handshake_def hs_at_def)
qed

text \<open>
  C8. In a TLS 1.2 handshake the server and the client agree on where the handshake ends. The server forwards
  the camouflage server's handshake records, its ChangeCipherSpec and the record after it, and stops
  there; the client, fed with what was forwarded and whatever comes later, ends its loop without an error and at exactly
  that byte, so that the next record it reads is the answer to its challenge. What the client has to write in
  between does not matter.
\<close>

theorem tls12_handshake_aligned:
  assumes "rustls_handshaking ops Q m" "Q (length xs + 2) c"
    and "list_all (\<lambda>x. fst x = HANDSHAKE \<and> length (snd (snd x)) \<le> MAXIMUM_CIPHERTEXT_LENGTH) xs"
    and "length d1 \<le> MAXIMUM_CIPHERTEXT_LENGTH" "length d2 \<le> MAXIMUM_CIPHERTEXT_LENGTH"
    and "inp cam = concat (map tls_wire (xs @ [(CHANGE_CIPHER_SPEC, v1, d1), (HANDSHAKE, v2, d2)])) @ rest"
    and "wr_room inbound = None" "wr_room stream = None"
  shows "\<exists>sent. copy_until_tls12_handshake_finished False (cam, inbound) =
      (Ready (Inr ()), (cam\<lparr>inp := rest\<rparr>, inbound\<lparr>out := out inbound @ sent\<rparr>)) \<and>
    (\<exists>st. tls12_handshake ops False c (stream\<lparr>inp := sent @ later\<rparr>) = Some (Ready (Inr ()), st) \<and>
       inp (hs_stream st) = later)"
proof -
  let ?sent = "concat (map tls_wire (xs @ [(CHANGE_CIPHER_SPEC, v1, d1), (HANDSHAKE, v2, d2)]))"
  have "list_all (\<lambda>x. fst x = HANDSHAKE \<and> tls_fits x) xs"
    using assms(3) by (auto simp: list_all_iff tls_fits_def)
  then have "copy_until_tls12_handshake_finished False (cam, inbound) =
      (Ready (Inr ()), (cam\<lparr>inp := rest\<rparr>, inbound\<lparr>out := out inbound @ ?sent\<rparr>))"
    using assms(4-7) by (intro tls12_handshake_forwarded [OF _ refl refl]) (auto simp: tls_fits_def)
  moreover have "\<exists>st. tls12_handshake ops False c (stream\<lparr>inp := ?sent @ later\<rparr>) = Some (Ready (Inr ()), st) \<and> inp (hs_stream st) = later"
    using assms(8) by (intro tls12_handshake_consumes [OF assms(1-5)]) simp_all
  ultimately show ?thesis by blast
qed

text \<open>A connection that counts the records that are to come, and has its key exchange to send first.\<close>

definition counting_rustls :: "(nat \<times> bytes) rustls_ops" where
  "counting_rustls = \<lparr>wants_read = (\<lambda>c. 0 < fst c), wants_write = (\<lambda>c. snd c \<noteq> []), write_tls = (\<lambda>c. (snd c, (fst c, []))),
     read_tls = (\<lambda>c bs. (Inr (min 4096 (length bs)), c)), process_new_packets = (\<lambda>c. (Inr (), (fst c - 1, snd c)))\<rparr>"

theorem tls12_handshake_aligned_witness:
  "\<exists>sent. copy_until_tls12_handshake_finished False
       (fresh_conn\<lparr>inp := concat (map tls_wire ([(HANDSHAKE, 0x0303, [11])] @
          [(CHANGE_CIPHER_SPEC, 0x0303, [1]), (HANDSHAKE, 0x0303, [9, 9])])) @ [0x15]\<rparr>, fresh_conn) =
      (Ready (Inr ()), (fresh_conn\<lparr>inp := [0x15]\<rparr>, fresh_conn\<lparr>out := out fresh_conn @ sent\<rparr>)) \<and>
    (\<exists>st. tls12_handshake counting_rustls False (3, [0x16]) (fresh_conn\<lparr>inp := sent @ [0x17]\<rparr>) = Some (Ready (Inr ()), st) \<and>
       inp (hs_stream st) = [0x17])"
proof -
  have "rustls_handshaking counting_rustls (\<lambda>k c. fst c = k) (\<lambda>c. length (snd c))"
    by (auto simp: rustls_handshaking_def counting_rustls_def)
  from tls12_handshake_aligned [OF this, where xs = "[(HANDSHAKE, 0x0303, [11])]" and c = "(3, [0x16])" and ?d1.0 = "[1]"
      and ?d2.0 = "[9, 9]" and ?v1.0 = "0x0303" and ?v2.0 = "0x0303" and rest = "[0x15]" and inbound = fresh_conn
      and stream = fresh_conn and later = "[0x17]"
      and cam = "fresh_conn\<lparr>inp := concat (map tls_wire ([(HANDSHAKE, 0x0303, [11])] @
          [(CHANGE_CIPHER_SPEC, 0x0303, [1]), (HANDSHAKE, 0x0303, [9, 9])])) @ [0x15]\<rparr>"]
  show ?thesis by (simp add: fresh_conn_def)
qed

end
