(* ===== verification/Config.thy ===== *)
theory Config
  imports Connector TunnelClient
begin

text \<open>
  From the command line to the two ends of a tunnel: \<open>get_fingerprint_spec\<close>, \<open>build_client\<close> and \<open>build_server\<close> of
  \<open>shuttle/src/opt.rs\<close>, and the connectors of \<open>client/connector.rs\<close> over the client that was built. Parsing a server name
  is a function of the \<open>rustls\<close> crate and a parameter.
\<close>

section \<open>Options\<close>

record client_opt = clt_opt +
  opt_server_name :: string
  opt_key :: bytes
  opt_tls_ja3 :: "ja3 option"
  opt_tls_alpn :: "bytes list option"
  opt_tls_sigalgos :: "u16 list option"
  opt_tls_versions :: "u16 list option"
  opt_tls_keyshare :: "u16 list option"

record server_opt =
  svr_opt_key :: bytes
  svr_opt_replay_filter_size :: nat

definition get_fingerprint_spec :: "client_opt \<Rightarrow> fingerprint_spec" where
  "get_fingerprint_spec opt =
     \<lparr>fp_ja3 = opt_tls_ja3 opt, fp_alpn = opt_tls_alpn opt, fp_signature_algos = opt_tls_sigalgos opt,
      fp_supported_versions = opt_tls_versions opt, fp_keyshare_curves = opt_tls_keyshare opt\<rparr>"

definition build_client :: "(bytes \<Rightarrow> bytes) \<Rightarrow> (string \<Rightarrow> 'n option) \<Rightarrow> client_opt \<Rightarrow> 'n client outcome" where
  "build_client H parse_name opt =
     (case parse_name (opt_server_name opt) of
        None \<Rightarrow> Panics ''called `Result::unwrap()` on an `Err` value: InvalidDnsNameError''
      | Some name \<Rightarrow> Ready (client_new_with_fingerprint H (opt_key opt) name (get_fingerprint_spec opt)))"

text \<open>The server together with its replay filter.\<close>

definition build_server :: "(bytes \<Rightarrow> bytes) \<Rightarrow> (nat \<Rightarrow> 'f) \<Rightarrow> server_opt \<Rightarrow> server \<times> 'f mutex" where
  "build_server H new_cache opt =
     (server_new H (svr_opt_key opt), mutex_new (new_cache (svr_opt_replay_filter_size opt)))"

section \<open>Connectors\<close>

text \<open>
  The task that the preflighter spawns for a connection: it connects, shakes hands, and updates the average handshake
  time when that succeeded. \<open>connect\<close> of the preflighter takes the result of such a task out of the queue.
\<close>

definition preflight_task :: "'t f32_ops \<Rightarrow> io_error + 'tcp \<Rightarrow> ('tcp \<Rightarrow> (io_error + 's) outcome) \<Rightarrow> 't \<Rightarrow>
    't preflighter \<Rightarrow> (io_error + 's) outcome \<times> 't preflighter" where
  "preflight_task ops tcp handshake elapsed pf =
     (case (case tcp of Inl e \<Rightarrow> Ready (Inl e) | Inr s \<Rightarrow> handshake s) of
        Ready (Inr s) \<Rightarrow> (Ready (Inr s), handshaked ops elapsed pf)
      | r \<Rightarrow> (r, pf))"

definition preflighter_connect :: "'t f32_ops \<Rightarrow> ('t, 's) pf_event list \<Rightarrow> 't preflighter \<Rightarrow>
    (io_error + 's) outcome \<times> 't preflighter" where
  "preflighter_connect ops evs pf = get ops evs pf"

section \<open>The two ends fit together\<close>

text \<open>
  A client and a server that were started with the same key agree on it, whatever their other options are: within
  the time window the server takes the hello of the client as authentic.
\<close>

lemma same_key_authentic:
  assumes "build_client H parse_name opt = Ready clt" "build_server H new_cache sopt = (srv, rf)"
    and "opt_key opt = svr_opt_key sopt" "ce_hash cenv = H" "ae_hash env = H"
    and "length (ce_noise_write cenv (derive_psk H (opt_key opt))) = 48"
    and "no_overflow (totp_new H (opt_key opt) 60 2) (ae_time env)"
    and "steps_apart (totp_new H (opt_key opt) 60 2) (ce_time cenv) (ae_time env) \<le> 2"
    and "ae_noise_read env (derive_psk H (opt_key opt)) (ce_noise_write cenv (derive_psk H (opt_key opt)))"
  shows "authentic env srv (hello_random cenv clt, hello_session_id cenv clt)" "\<not> poisoned rf"
proof -
  from assms(1) obtain name where "clt = client_new_with_fingerprint H (opt_key opt) name (get_fingerprint_spec opt)"
    by (auto simp: build_client_def split: option.splits)
  moreover have "srv = server_new H (opt_key opt)" "rf = mutex_new (new_cache (svr_opt_replay_filter_size sopt))"
    using assms(2,3) by (simp_all add: build_server_def)
  ultimately show "authentic env srv (hello_random cenv clt, hello_session_id cenv clt)" "\<not> poisoned rf"
    using hello_authentic(1) [OF _ _ assms(4-9)] by (simp_all add: mutex_new_def)
qed

end
