(* ===== verification/Daemon.thy ===== *)
theory Daemon
  imports Serve Config
begin

text \<open>
  The server as a whole: the accept loops of \<open>run_server\<close> in \<open>shuttle/src/server.rs\<close> and of \<open>serve\<close> in
  \<open>client/plain.rs\<close>, and the tasks they spawn. The tasks of the server share nothing but the replay filter behind
  its lock; a step relation lets them run in any order, and every run is shown to have the effect of handling the
  connections one after the other.
\<close>

section \<open>Accept loops\<close>

text \<open>
  The results of \<open>listener.accept()\<close>, one after the other; the value is how the loop ends and the connections for which
  it has spawned a task. The loop ends with the first error, and does not report it.
\<close>

fun accept_loop :: "(io_error + 'x) list \<Rightarrow> (anyhow + unit) outcome \<times> 'x list" where
  "accept_loop [] = (Pending, [])"
| "accept_loop (Inr x # evs) = (case accept_loop evs of (r, xs) \<Rightarrow> (r, x # xs))"
| "accept_loop (Inl e # evs) = (Ready (Inr ()), [])"

definition run_server :: "(bytes \<Rightarrow> bytes) \<Rightarrow> (nat \<Rightarrow> 'f) \<Rightarrow> server_opt \<Rightarrow> io_error option \<Rightarrow> (io_error + 'x) list \<Rightarrow>
    ((anyhow + unit) outcome \<times> 'x list) \<times> server \<times> 'f mutex" where
  "run_server H new_cache opt bind evs =
     ((case bind of
         Some e \<Rightarrow> (Ready (Inl (Context ''Failed to listen on local addr'' (IoErr e))), [])
       | None \<Rightarrow> accept_loop evs),
      build_server H new_cache opt)"

definition serve_plain :: "io_error option \<Rightarrow> (io_error + 'x) list \<Rightarrow> (anyhow + unit) outcome \<times> 'x list" where
  "serve_plain bind evs =
     (case bind of
        Some e \<Rightarrow> (Ready (Inl (Context ''failed to bind on'' (IoErr e))), [])
      | None \<Rightarrow> accept_loop evs)"

text \<open>\<open>run_client\<close> from the options to its accept loop, with the connector it serves with and the configuration of its pool.\<close>

definition client_main :: "(bytes \<Rightarrow> bytes) \<Rightarrow> (string \<Rightarrow> 'n option) \<Rightarrow> 't f32_ops \<Rightarrow> client_opt \<Rightarrow> io_error option \<Rightarrow>
    (io_error + 'x) list \<Rightarrow> ((anyhow + unit) outcome \<times> 'x list) \<times> ('n client \<times> 't connector \<times> reuse_config option) option" where
  "client_main H parse_name ops opt bind evs =
     (case build_client H parse_name opt of
        Ready clt \<Rightarrow>
          (case run_client ops (clt_opt.truncate opt) of
             Ready (Inr (cn, cfg)) \<Rightarrow> (serve_plain bind evs, Some (clt, cn, cfg))
           | Ready (Inl msg) \<Rightarrow> ((Ready (Inl (Anyhow msg)), []), None)
           | Pending \<Rightarrow> ((Pending, []), None)
           | Panics msg \<Rightarrow> ((Panics msg, []), None))
      | Pending \<Rightarrow> ((Pending, []), None)
      | Panics msg \<Rightarrow> ((Panics msg, []), None))"

text \<open>The end of \<open>main\<close>, where the role that was asked for decides; the connections are those for which a task was spawned.\<close>

datatype role = Client_role client_opt | Server_role server_opt

fun run_role :: "(bytes \<Rightarrow> bytes) \<Rightarrow> (string \<Rightarrow> 'n option) \<Rightarrow> 't f32_ops \<Rightarrow> (nat \<Rightarrow> 'f) \<Rightarrow> role \<Rightarrow> io_error option \<Rightarrow>
    (io_error + 'x) list \<Rightarrow> (anyhow + unit) outcome \<times> 'x list" where
  "run_role H parse_name ops new_cache (Client_role opt) bind evs = fst (client_main H parse_name ops opt bind evs)"
| "run_role H parse_name ops new_cache (Server_role opt) bind evs = fst (run_server H new_cache opt bind evs)"

lemma accept_loop_until_error:
  "accept_loop (map Inr xs @ Inl e # rest) = (Ready (Inr ()), xs)" "accept_loop (map Inr xs) = (Pending, xs)"
  by (induction xs) simp_all

text \<open>Whatever the role: the program reports success only when its listener has failed.\<close>

lemma accept_loop_success: "fst (accept_loop evs) = Ready (Inr u) \<Longrightarrow> \<exists>xs e rest. evs = map Inr xs @ Inl e # rest"
proof (induction evs rule: accept_loop.induct)
  case (2 x evs)
  then obtain xs e rest where "evs = map Inr xs @ Inl e # rest" by (auto split: prod.splits)
  then have "Inr x # evs = map Inr (x # xs) @ Inl e # rest" by simp
  then show ?case by blast
next
  case (3 e evs)
  have "Inl e # evs = map Inr [] @ Inl e # evs" by simp
  then show ?case by blast
qed simp

lemma run_role_success:
  assumes "fst (run_role H parse_name ops new_cache r bind evs) = Ready (Inr u)"
  shows "bind = None \<and> (\<exists>xs e rest. evs = map Inr xs @ Inl e # rest)"
  using assms by (cases r)
    (auto simp: client_main_def run_server_def serve_plain_def intro: accept_loop_success split: outcome.splits sum.splits option.splits)

section \<open>One task\<close>

text \<open>
  \<open>accept\<close> in three parts: what it does before it takes the lock, the part under the lock (\<^const>\<open>consult_filter\<close>), and
  what it does afterwards.
\<close>

definition accept_begin :: "accept_env \<Rightarrow> server \<Rightarrow> conn \<Rightarrow>
    ('p accept_error + conn) outcome + bytes \<times> bytes \<times> conn" where
  "accept_begin env srv inbound0 =
     (case read_tls_message (ae_tls env) inbound0 of
        (Ready (Inl e), _) \<Rightarrow> Inl (Ready (Inl (AcceptIo e)))
      | (Pending, _) \<Rightarrow> Inl Pending
      | (Panics msg, _) \<Rightarrow> Inl (Panics msg)
      | (Ready (Inr m), inbound) \<Rightarrow>
          (let buf = (case m of Inr b \<Rightarrow> b | Inl _ \<Rightarrow> []) in
           case hello_of env m of
             None \<Rightarrow> Inl (Ready (Inl (ClientHelloInvalid buf inbound)))
           | Some chp \<Rightarrow>
               (if authentic env srv chp then Inr (nonce_of chp, buf, inbound)
                else Inl (Ready (Inl (Unauthenticated buf inbound))))))"

definition accept_end :: "accept_env \<Rightarrow> bytes \<Rightarrow> conn \<Rightarrow> ('p accept_error + unit) outcome \<Rightarrow> ('p accept_error + conn) outcome" where
  "accept_end env buf inbound r =
     (case r of
        Ready (Inr _) \<Rightarrow> camouflage env buf inbound
      | Ready (Inl e) \<Rightarrow> Ready (Inl e)
      | Pending \<Rightarrow> Pending
      | Panics msg \<Rightarrow> Panics msg)"

lemma accept_Inl: "accept_begin env srv c = Inl r \<Longrightarrow> accept ops env srv peer c rf = (r, rf)"
  by (auto simp: accept_begin_def accept_def Let_def split: prod.splits outcome.splits sum.splits option.splits if_splits)

lemma accept_Inr:
  assumes "accept_begin env srv c = Inr (e, buf, c')" "consult_filter ops peer e buf c' rf = (r, rf')"
  shows "accept ops env srv peer c rf = (accept_end env buf c' r, rf')"
proof -
  from assms(1) obtain m chp where "read_tls_message (ae_tls env) c = (Ready (Inr m), c')" "hello_of env m = Some chp"
    "authentic env srv chp" "e = nonce_of chp" "buf = (case m of Inr b \<Rightarrow> b | Inl _ \<Rightarrow> [])"
    by (auto simp: accept_begin_def Let_def split: prod.splits outcome.splits sum.splits option.splits if_splits)
  from accept_authentic [OF this(1-3,5), of ops peer rf] this(4) assms(2) show ?thesis
    by (auto simp: accept_end_def split: outcome.splits sum.splits)
qed

text \<open>What the handler does with the result does not involve the filter.\<close>

definition handle_accepted :: "addr_codec \<Rightarrow> ('f, bytes \<times> u16, socket_addr) lru_ops \<Rightarrow> 'f serve_world \<Rightarrow>
    ('p accept_error + conn) outcome \<Rightarrow> (anyhow + unit) outcome \<times> 'f served list" where
  "handle_accepted ac dns w r =
     (case r of
        Ready (Inr io) \<Rightarrow> serve_tunnel ac dns w (sw_stream w io)
      | Ready (Inl e) \<Rightarrow> serve_rejected w e
      | Pending \<Rightarrow> (Pending, [])
      | Panics msg \<Rightarrow> (Panics msg, []))"

lemma handle_connection_accepted:
  "handle_connection ops env srv peer ac dns w c rf =
     (handle_accepted ac dns w (fst (accept ops env srv peer c rf)), snd (accept ops env srv peer c rf))"
  by (auto simp: handle_connection_def handle_accepted_def split: prod.splits outcome.splits sum.splits)

section \<open>All tasks\<close>

record 'p arrival =
  ar_env :: accept_env
  ar_peer :: "'p option"
  ar_conn :: conn

datatype 'p task =
    Reading
  | AtFilter bytes bytes conn
  | Behind "('p accept_error + unit) outcome" bytes conn
  | Finished "('p accept_error + conn) outcome"

text \<open>
  The order in which the tasks took effect is recorded: a task takes effect when it consults the filter, or when
  it ends without doing so. A failure of the listener ends the process, and with it every task.
\<close>

record ('f, 'p) daemon =
  sv_filter :: "'f mutex"
  sv_tasks :: "('p arrival \<times> 'p task) list"
  sv_order :: "nat list"
  sv_up :: bool

definition daemon_new :: "'f mutex \<Rightarrow> ('f, 'p) daemon" where
  "daemon_new rf = \<lparr>sv_filter = rf, sv_tasks = [], sv_order = [], sv_up = True\<rparr>"

inductive daemon_step :: "('f, bytes, 'p) lru_ops \<Rightarrow> server \<Rightarrow> ('f, 'p) daemon \<Rightarrow> ('f, 'p) daemon \<Rightarrow> bool" for ops srv where
  spawns: "sv_up st \<Longrightarrow> daemon_step ops srv st (st\<lparr>sv_tasks := sv_tasks st @ [(a, Reading)]\<rparr>)"
| turns_away: "sv_up st \<Longrightarrow> i < length (sv_tasks st) \<Longrightarrow> sv_tasks st ! i = (a, Reading) \<Longrightarrow>
    accept_begin (ar_env a) srv (ar_conn a) = Inl r \<Longrightarrow>
    daemon_step ops srv st (st\<lparr>sv_tasks := (sv_tasks st)[i := (a, Finished r)], sv_order := sv_order st @ [i]\<rparr>)"
| authenticates: "sv_up st \<Longrightarrow> i < length (sv_tasks st) \<Longrightarrow> sv_tasks st ! i = (a, Reading) \<Longrightarrow>
    (accept_begin (ar_env a) srv (ar_conn a) :: ('p accept_error + conn) outcome + bytes \<times> bytes \<times> conn) = Inr (e, buf, c) \<Longrightarrow>
    daemon_step ops srv st (st\<lparr>sv_tasks := (sv_tasks st)[i := (a, AtFilter e buf c)]\<rparr>)"
| consults: "sv_up st \<Longrightarrow> i < length (sv_tasks st) \<Longrightarrow> sv_tasks st ! i = (a, AtFilter e buf c) \<Longrightarrow>
    consult_filter ops (ar_peer a) e buf c (sv_filter st) = (r, rf) \<Longrightarrow>
    daemon_step ops srv st (st\<lparr>sv_filter := rf, sv_tasks := (sv_tasks st)[i := (a, Behind r buf c)], sv_order := sv_order st @ [i]\<rparr>)"
| finishes: "sv_up st \<Longrightarrow> i < length (sv_tasks st) \<Longrightarrow> sv_tasks st ! i = (a, Behind r buf c) \<Longrightarrow>
    daemon_step ops srv st (st\<lparr>sv_tasks := (sv_tasks st)[i := (a, Finished (accept_end (ar_env a) buf c r))]\<rparr>)"
| listener_fails: "sv_up st \<Longrightarrow> daemon_step ops srv st (st\<lparr>sv_up := False\<rparr>)"

text \<open>The connections of some tasks, as the sequential server takes them.\<close>

definition connections :: "server \<Rightarrow> ('f, 'p) daemon \<Rightarrow> nat list \<Rightarrow> (accept_env \<times> server \<times> 'p option \<times> conn) list" where
  "connections srv st = map (\<lambda>i. let a = fst (sv_tasks st ! i) in (ar_env a, srv, ar_peer a, ar_conn a))"

fun decided :: "'p task \<Rightarrow> bool" where
  "decided Reading \<longleftrightarrow> False"
| "decided (AtFilter _ _ _) \<longleftrightarrow> False"
| "decided (Behind _ _ _) \<longleftrightarrow> True"
| "decided (Finished _) \<longleftrightarrow> True"

text \<open>What is known of a task when \<open>rf\<close> was the filter as it took effect.\<close>

fun task_ok :: "('f, bytes, 'p) lru_ops \<Rightarrow> server \<Rightarrow> 'p arrival \<Rightarrow> 'f mutex \<Rightarrow> 'p task \<Rightarrow> bool" where
  "task_ok ops srv a rf Reading \<longleftrightarrow> True"
| "task_ok ops srv a rf (AtFilter e buf c) \<longleftrightarrow>
     (accept_begin (ar_env a) srv (ar_conn a) :: ('p accept_error + conn) outcome + bytes \<times> bytes \<times> conn) = Inr (e, buf, c)"
| "task_ok ops srv a rf (Behind r buf c) \<longleftrightarrow>
     fst (accept ops (ar_env a) srv (ar_peer a) (ar_conn a) rf) = accept_end (ar_env a) buf c r"
| "task_ok ops srv a rf (Finished r) \<longleftrightarrow> fst (accept ops (ar_env a) srv (ar_peer a) (ar_conn a) rf) = r"

definition daemon_inv :: "('f, bytes, 'p) lru_ops \<Rightarrow> server \<Rightarrow> 'f mutex \<Rightarrow> ('f, 'p) daemon \<Rightarrow> bool" where
  "daemon_inv ops srv rf0 st \<longleftrightarrow>
     distinct (sv_order st) \<and>
     set (sv_order st) = {i. i < length (sv_tasks st) \<and> decided (snd (sv_tasks st ! i))} \<and>
     sv_filter st = accept_all ops (connections srv st (sv_order st)) rf0 \<and>
     (\<forall>i < length (sv_tasks st). \<not> decided (snd (sv_tasks st ! i)) \<longrightarrow> task_ok ops srv (fst (sv_tasks st ! i)) rf0 (snd (sv_tasks st ! i))) \<and>
     (\<forall>k < length (sv_order st). case sv_tasks st ! (sv_order st ! k) of (a, t) \<Rightarrow>
        task_ok ops srv a (accept_all ops (connections srv st (take k (sv_order st))) rf0) t)"

section \<open>The invariant\<close>

lemma accept_all_append: "accept_all ops (xs @ ys) rf = accept_all ops ys (accept_all ops xs rf)"
  by (induction ops xs rf rule: accept_all.induct) simp_all

lemma connections_update:
  assumes "i < length (sv_tasks st)" "fst (sv_tasks st ! i) = a" "sv_tasks st' = (sv_tasks st)[i := (a, t)]"
  shows "connections srv st' = connections srv st"
proof -
  have "fst ((sv_tasks st)[i := (a, t)] ! j) = fst (sv_tasks st ! j)" for j
    using assms(1,2) by (cases "j = i") simp_all
  then show ?thesis by (simp add: connections_def assms(3))
qed

lemma connections_spawn:
  assumes "set is \<subseteq> {..<length (sv_tasks st)}" "sv_tasks st' = sv_tasks st @ ts"
  shows "connections srv st' is = connections srv st is"
  using assms by (auto simp: connections_def nth_append)

lemma inv_spawns:
  assumes "daemon_inv ops srv rf0 st"
  shows "daemon_inv ops srv rf0 (st\<lparr>sv_tasks := sv_tasks st @ [(a, Reading)]\<rparr>)"
proof -
  let ?st = "st\<lparr>sv_tasks := sv_tasks st @ [(a, Reading)]\<rparr>"
  have s: "set (sv_order st) \<subseteq> {..<length (sv_tasks st)}" using assms by (auto simp: daemon_inv_def)
  have e: "connections srv ?st (sv_order st) = connections srv st (sv_order st)"
    "connections srv ?st (take k (sv_order st)) = connections srv st (take k (sv_order st))" for k
    using s set_take_subset [of k "sv_order st"] by (auto intro!: connections_spawn)
  have n: "sv_order st ! k < length (sv_tasks st)" if "k < length (sv_order st)" for k
    using s nth_mem [OF that] by auto
  show ?thesis
    using assms e n unfolding daemon_inv_def by (auto simp: nth_append less_Suc_eq split: prod.splits)
qed

text \<open>A task moves on without taking effect, or after it has.\<close>

lemma inv_moves:
  assumes "daemon_inv ops srv rf0 st" "i < length (sv_tasks st)" "sv_tasks st ! i = (a, t)"
    and "decided t' = decided t" "\<And>rf. task_ok ops srv a rf t \<Longrightarrow> task_ok ops srv a rf t'"
  shows "daemon_inv ops srv rf0 (st\<lparr>sv_tasks := (sv_tasks st)[i := (a, t')]\<rparr>)"
proof -
  let ?st = "st\<lparr>sv_tasks := (sv_tasks st)[i := (a, t')]\<rparr>"
  have e: "connections srv ?st = connections srv st" using assms(2,3) by (intro connections_update [where i = i]) simp_all
  have d: "decided (snd ((sv_tasks st)[i := (a, t')] ! j)) = decided (snd (sv_tasks st ! j))" for j
    using assms(2-4) by (cases "j = i") simp_all
  have o: "task_ok ops srv (fst ((sv_tasks st)[i := (a, t')] ! j)) rf (snd ((sv_tasks st)[i := (a, t')] ! j))"
    if "task_ok ops srv (fst (sv_tasks st ! j)) rf (snd (sv_tasks st ! j))" for j rf
    using that assms(2,3,5) by (cases "j = i") simp_all
  show ?thesis
    using assms(1) o unfolding daemon_inv_def by (simp add: e d case_prod_unfold)
qed

text \<open>A task takes effect.\<close>

lemma inv_decides:
  assumes "daemon_inv ops srv rf0 st" "i < length (sv_tasks st)" "sv_tasks st ! i = (a, t)"
    and "\<not> decided t" "decided t'" "task_ok ops srv a (sv_filter st) t'"
    and "snd (accept ops (ar_env a) srv (ar_peer a) (ar_conn a) (sv_filter st)) = rf"
    and "st' = st\<lparr>sv_filter := rf, sv_tasks := (sv_tasks st)[i := (a, t')], sv_order := sv_order st @ [i]\<rparr>"
  shows "daemon_inv ops srv rf0 st'"
proof -
  let ?ts = "(sv_tasks st)[i := (a, t')]"
  have e: "connections srv st' = connections srv st"
    using assms(2,3,8) by (intro connections_update [where i = i]) simp_all
  have i: "i \<notin> set (sv_order st)" using assms(1,3,4) by (auto simp: daemon_inv_def)
  have o: "sv_filter st = accept_all ops (connections srv st (sv_order st)) rf0" using assms(1) by (simp add: daemon_inv_def)
  have "accept_all ops (connections srv st (sv_order st @ [i])) rf0 = rf"
    using assms(3,7) by (simp add: connections_def accept_all_append o [unfolded connections_def, symmetric])
  moreover have "set (sv_order st @ [i]) = {j. j < length ?ts \<and> decided (snd (?ts ! j))}"
    using assms(1-5) unfolding daemon_inv_def by (auto simp: nth_list_update split: if_splits)
  moreover have "case ?ts ! ((sv_order st @ [i]) ! k) of (a, t) \<Rightarrow>
      task_ok ops srv a (accept_all ops (connections srv st (take k (sv_order st @ [i]))) rf0) t"
    if "k < length (sv_order st @ [i])" for k
  proof (cases "k < length (sv_order st)")
    case True
    then have "sv_order st ! k \<noteq> i" using i nth_mem by metis
    with True assms(1) show ?thesis by (simp add: daemon_inv_def nth_append)
  next
    case False
    with that have "k = length (sv_order st)" by simp
    with assms(2,6) o show ?thesis by simp
  qed
  moreover have "\<forall>j < length ?ts. \<not> decided (snd (?ts ! j)) \<longrightarrow> task_ok ops srv (fst (?ts ! j)) rf0 (snd (?ts ! j))"
    using assms(1,2,5) unfolding daemon_inv_def by (auto simp: nth_list_update)
  ultimately show ?thesis
    using assms(1,8) i e unfolding daemon_inv_def by simp
qed

lemma undecided_ok:
  "daemon_inv ops srv rf0 st \<Longrightarrow> i < length (sv_tasks st) \<Longrightarrow> \<not> decided (snd (sv_tasks st ! i)) \<Longrightarrow>
     task_ok ops srv (fst (sv_tasks st ! i)) rf0 (snd (sv_tasks st ! i))"
  by (simp add: daemon_inv_def)

lemma daemon_inv_step:
  assumes "daemon_step ops srv st st'" "daemon_inv ops srv rf0 st"
  shows "daemon_inv ops srv rf0 st'"
  using assms(1)
proof cases
  case (spawns a)
  with assms(2) show ?thesis by (simp add: inv_spawns)
next
  case (turns_away i a r)
  have "st' = st\<lparr>sv_filter := sv_filter st, sv_tasks := (sv_tasks st)[i := (a, Finished r)], sv_order := sv_order st @ [i]\<rparr>"
    using turns_away(1) by simp
  from inv_decides [OF assms(2) turns_away(3,4) _ _ _ _ this] show ?thesis
    by (simp add: accept_Inl [OF turns_away(5)])
next
  case (authenticates i a e buf c)
  show ?thesis unfolding authenticates(1)
    by (rule inv_moves [OF assms(2) authenticates(3,4)]) (use authenticates(5) in simp_all)
next
  case (consults i a e buf c r rf)
  have "task_ok ops srv a rf0 (AtFilter e buf c)"
    using undecided_ok [OF assms(2) consults(3)] consults(4) by simp
  then have "accept ops (ar_env a) srv (ar_peer a) (ar_conn a) (sv_filter st) = (accept_end (ar_env a) buf c r, rf)"
    using consults(5) by (simp add: accept_Inr)
  then show ?thesis
    by (intro inv_decides [OF assms(2) consults(3,4) _ _ _ _ consults(1)]) simp_all
next
  case (finishes i a r buf c)
  show ?thesis unfolding finishes(1) by (rule inv_moves [OF assms(2) finishes(3,4)]) simp_all
next
  case listener_fails
  with assms(2) show ?thesis by (simp add: daemon_inv_def connections_def)
qed

lemma daemon_inv_reach: "(daemon_step ops srv)\<^sup>*\<^sup>* (daemon_new rf0) st \<Longrightarrow> daemon_inv ops srv rf0 st"
proof (induction rule: rtranclp_induct)
  case base
  show ?case by (simp add: daemon_inv_def daemon_new_def connections_def)
qed (rule daemon_inv_step)

text \<open>Conversely, a connection can be handled from beginning to end before anything else happens.\<close>

lemma daemon_sequential:
  fixes a :: "'p arrival"
  assumes "sv_up st" "accept ops (ar_env a) srv (ar_peer a) (ar_conn a) (sv_filter st) = (r, rf)"
  shows "(daemon_step ops srv)\<^sup>*\<^sup>* st (st\<lparr>sv_filter := rf, sv_tasks := sv_tasks st @ [(a, Finished r)],
    sv_order := sv_order st @ [length (sv_tasks st)]\<rparr>)"
proof -
  let ?n = "length (sv_tasks st)" and ?s0 = "st\<lparr>sv_tasks := sv_tasks st @ [(a, Reading)]\<rparr>"
  let ?with = "\<lambda>t rf ord. st\<lparr>sv_filter := rf, sv_tasks := sv_tasks st @ [(a, t)], sv_order := ord\<rparr>"
  have s0: "daemon_step ops srv st ?s0" using assms(1) by (rule spawns)
  have n: "?n < length (sv_tasks ?s0)" "sv_tasks ?s0 ! ?n = (a, Reading)" "sv_up ?s0" using assms(1) by simp_all
  show ?thesis
  proof (cases "accept_begin (ar_env a) srv (ar_conn a) :: ('p accept_error + conn) outcome + bytes \<times> bytes \<times> conn")
    case (Inl r')
    from accept_Inl [OF this, of ops "ar_peer a" "sv_filter st"] assms(2) have "r' = r" "rf = sv_filter st" by simp_all
    with turns_away [OF n(3,1,2) Inl, of ops] s0 show ?thesis by (simp add: converse_rtranclp_into_rtranclp)
  next
    case (Inr x)
    then obtain e buf c where x: "accept_begin (ar_env a) srv (ar_conn a) = (Inr (e, buf, c) :: ('p accept_error + conn) outcome + bytes \<times> bytes \<times> conn)"
      by (metis prod_cases3)
    obtain q rf' where q: "consult_filter ops (ar_peer a) e buf c (sv_filter st) = (q, rf')" by (metis surj_pair)
    from accept_Inr [OF x q] assms(2) have r: "r = accept_end (ar_env a) buf c q" "rf' = rf" by simp_all
    let ?s1 = "?with (AtFilter e buf c) (sv_filter st) (sv_order st)" and ?s2 = "?with (Behind q buf c) rf (sv_order st @ [?n])"
    have s1: "daemon_step ops srv ?s0 ?s1" using authenticates [OF n(3,1,2) x, of ops] by simp
    have s2: "daemon_step ops srv ?s1 ?s2"
      using consults [of ?s1 ?n a e buf c ops q rf srv] q r(2) assms(1) by simp
    have s3: "daemon_step ops srv ?s2 (?with (Finished r) rf (sv_order st @ [?n]))"
      using finishes [of ?s2 ?n a q buf c ops srv] r(1) assms(1) by (cases st) simp
    from s0 s1 s2 s3 show ?thesis by (meson converse_rtranclp_into_rtranclp rtranclp.rtrancl_refl)
  qed
qed

section \<open>Properties\<close>

text \<open>
  C3. The concurrent server does what a sequential one would. However the tasks of the connections are interleaved, there is
  an order of those that have taken effect, each of them once, such that accepting them one after the other leaves the same
  replay filter, and gives every task that has ended the result with which it ended; what the handler then does depends on
  nothing else.
\<close>

theorem server_linearizable:
  assumes "(daemon_step ops srv)\<^sup>*\<^sup>* (daemon_new rf0) st"
  shows "\<exists>ord. distinct ord \<and> set ord = {i. i < length (sv_tasks st) \<and> decided (snd (sv_tasks st ! i))} \<and>
    sv_filter st = accept_all ops (connections srv st ord) rf0 \<and>
    (\<forall>k a r ac dns w. k < length ord \<and> sv_tasks st ! (ord ! k) = (a, Finished r) \<longrightarrow>
       handle_accepted ac dns w r = fst (handle_connection ops (ar_env a) srv (ar_peer a) ac dns w (ar_conn a)
         (accept_all ops (connections srv st (take k ord)) rf0)))"
proof -
  have i: "daemon_inv ops srv rf0 st" by (rule daemon_inv_reach [OF assms])
  have "fst (accept ops (ar_env a) srv (ar_peer a) (ar_conn a) (accept_all ops (connections srv st (take k (sv_order st))) rf0)) = r"
    if "k < length (sv_order st)" "sv_tasks st ! (sv_order st ! k) = (a, Finished r)" for k a r
    using i that unfolding daemon_inv_def by (metis (no_types, lifting) case_prod_conv task_ok.simps(4))
  with i show ?thesis
    unfolding daemon_inv_def by (intro exI [of _ "sv_order st"]) (auto simp: handle_connection_accepted)
qed

text \<open>The nonce of an authentic hello.\<close>

definition hello_nonce :: "accept_env \<Rightarrow> server \<Rightarrow> conn \<Rightarrow> bytes option" where
  "hello_nonce env srv c =
     (case read_tls_message (ae_tls env) c of
        (Ready (Inr m), _) \<Rightarrow>
          (case hello_of env m of
             None \<Rightarrow> None
           | Some chp \<Rightarrow> (if authentic env srv chp then Some (nonce_of chp) else None))
      | _ \<Rightarrow> None)"

lemma consult_admits:
  assumes "consult_filter ops peer e buf c rf = (Ready (Inr u), rf')"
  shows "\<exists>f p. lru_get ops (guarded rf) e = (None, f) \<and> rf' = rf\<lparr>guarded := lru_put ops f e p\<rparr>"
  using assms by (auto simp: consult_filter_def split: if_splits prod.splits option.splits)

lemma accepted_consults:
  assumes "fst (accept ops env srv peer c rf) = Ready (Inr io)"
  obtains e p where "hello_nonce env srv c = Some e" "fst (lru_get ops (guarded rf) e) = None"
    "guarded (snd (accept ops env srv peer c rf)) = lru_put ops (snd (lru_get ops (guarded rf) e)) e p"
proof -
  from assms obtain m c' chp where r: "read_tls_message (ae_tls env) c = (Ready (Inr m), c')" "hello_of env m = Some chp"
    "authentic env srv chp"
    by (auto simp: accept_def Let_def split: prod.splits outcome.splits sum.splits option.splits if_splits)
  obtain q rf' where q: "consult_filter ops peer (nonce_of chp) (case m of Inr b \<Rightarrow> b | Inl _ \<Rightarrow> []) c' rf = (q, rf')"
    by (metis surj_pair)
  with accept_authentic [OF r refl, of ops peer rf] assms have "q = Ready (Inr ())"
    and s: "snd (accept ops env srv peer c rf) = rf'"
    by (auto split: outcome.splits sum.splits)
  with q obtain f p where "lru_get ops (guarded rf) (nonce_of chp) = (None, f)"
    "rf' = rf\<lparr>guarded := lru_put ops f (nonce_of chp) p\<rparr>"
    by (auto dest: consult_admits)
  with r s show ?thesis by (intro that [of "nonce_of chp" p]) (simp_all add: hello_nonce_def)
qed

lemma later_hello_refused:
  assumes "lru_ok ops cap" "k < l" "l < length ord" "length ord \<le> cap"
    and f: "\<And>j. rf j = accept_all ops (connections srv st (take j ord)) rf0"
    and t: "sv_tasks st ! (ord ! k) = (a, ta)" "sv_tasks st ! (ord ! l) = (b, tb)"
    and r: "fst (accept ops (ar_env a) srv (ar_peer a) (ar_conn a) (rf k)) = Ready (Inr io)"
    and r': "fst (accept ops (ar_env b) srv (ar_peer b) (ar_conn b) (rf l)) = Ready (Inr io')"
  shows "hello_nonce (ar_env a) srv (ar_conn a) \<noteq> hello_nonce (ar_env b) srv (ar_conn b)"
proof -
  from accepted_consults [OF r] obtain e p where e: "hello_nonce (ar_env a) srv (ar_conn a) = Some e"
    and p: "guarded (snd (accept ops (ar_env a) srv (ar_peer a) (ar_conn a) (rf k))) = lru_put ops (snd (lru_get ops (guarded (rf k)) e)) e p"
    by blast
  from accepted_consults [OF r'] obtain e' where e': "hello_nonce (ar_env b) srv (ar_conn b) = Some e'"
    "fst (lru_get ops (guarded (rf l)) e') = None" by blast
  have s: "snd (accept ops (ar_env a) srv (ar_peer a) (ar_conn a) (rf k)) = rf (Suc k)"
    using assms(2,3) t(1) by (simp add: f take_Suc_conv_app_nth connections_def accept_all_append)
  have 1: "map_of (take 1 (lru_iter ops (guarded (rf (Suc k))))) e = Some p"
    using p s assms(2-4) by (simp add: lru_put_ok [OF assms(1)] promote_def)
  let ?between = "connections srv st (take (l - Suc k) (drop (Suc k) ord))"
  have "take l ord = take (Suc k) ord @ take (l - Suc k) (drop (Suc k) ord)"
    using assms(2) by (metis le_add_diff_inverse Suc_leI take_add)
  then have 2: "rf l = accept_all ops ?between (rf (Suc k))"
    by (simp add: f connections_def accept_all_append)
  have "map_of (take (1 + length ?between) (lru_iter ops (guarded (rf l)))) e = Some p"
    unfolding 2 using assms(2-4) by (intro accept_all_keeps [OF assms(1) 1]) (simp add: connections_def)
  from map_of_take [OF this] have "fst (lru_get ops (guarded (rf l)) e) = Some p"
    using assms(1) by (simp add: lru_ok_def)
  with e e' show ?thesis by auto
qed

text \<open>
  C4. However connections are interleaved, a hello is accepted at most once: as long as no more connections have taken effect
  than the replay filter has places, two different tasks that ended with a tunnel had different nonces.
\<close>

theorem nonce_accepted_once:
  assumes "lru_ok ops cap" "(daemon_step ops srv)\<^sup>*\<^sup>* (daemon_new rf0) st" "length (sv_order st) \<le> cap"
    and "i < length (sv_tasks st)" "j < length (sv_tasks st)" "i \<noteq> j"
    and "sv_tasks st ! i = (a, Finished (Ready (Inr io)))" "sv_tasks st ! j = (b, Finished (Ready (Inr io')))"
  shows "hello_nonce (ar_env a) srv (ar_conn a) \<noteq> hello_nonce (ar_env b) srv (ar_conn b)"
proof -
  let ?rf = "\<lambda>k. accept_all ops (connections srv st (take k (sv_order st))) rf0"
  have inv: "daemon_inv ops srv rf0 st" by (rule daemon_inv_reach [OF assms(2)])
  have "i \<in> set (sv_order st)" "j \<in> set (sv_order st)" using inv assms(4,5,7,8) by (auto simp: daemon_inv_def)
  then obtain k l where k: "k < length (sv_order st)" "sv_order st ! k = i" and l: "l < length (sv_order st)" "sv_order st ! l = j"
    by (auto simp: in_set_conv_nth)
  have ra: "fst (accept ops (ar_env a) srv (ar_peer a) (ar_conn a) (?rf k)) = Ready (Inr io)"
    and rb: "fst (accept ops (ar_env b) srv (ar_peer b) (ar_conn b) (?rf l)) = Ready (Inr io')"
    using inv k l assms(7,8) unfolding daemon_inv_def by fastforce+
  have t: "sv_tasks st ! (sv_order st ! k) = (a, Finished (Ready (Inr io)))" "sv_tasks st ! (sv_order st ! l) = (b, Finished (Ready (Inr io')))"
    using k l assms(7,8) by simp_all
  from k(2) l(2) assms(6) consider "k < l" | "l < k" by (metis linorder_neqE_nat)
  then show ?thesis
  proof cases
    case 1
    from later_hello_refused [OF assms(1) 1 l(1) assms(3) refl t ra rb] show ?thesis .
  next
    case 2
    from later_hello_refused [OF assms(1) 2 k(1) assms(3) refl t(2,1) rb ra] show ?thesis by (rule not_sym)
  qed
qed


text \<open>Two clients with different nonces, one after the other.\<close>

definition sample_arrival :: "byte \<Rightarrow> nat arrival" where
  "sample_arrival b = \<lparr>ar_env = (sample_env 1000020)\<lparr>ae_connect := Inr (fresh_conn\<lparr>inp := sample_sh\<rparr>)\<rparr>,
     ar_peer = Some 5, ar_conn = fresh_conn\<lparr>inp := hello_with b\<rparr>\<rparr>"

lemma sample_arrival_accepted:
  assumes "\<not> poisoned rf" "fst (lru_get ops (guarded rf) (replicate 32 b)) = None"
  shows "\<exists>io. accept ops (ar_env (sample_arrival b)) (server_new rev [1, 2, 3]) (ar_peer (sample_arrival b)) (ar_conn (sample_arrival b)) rf =
    (Ready (Inr io), rf\<lparr>guarded := lru_put ops (snd (lru_get ops (guarded rf) (replicate 32 b))) (replicate 32 b) 5\<rparr>)"
    and "hello_nonce (ar_env (sample_arrival b)) (server_new rev [1, 2, 3]) (ar_conn (sample_arrival b)) = Some (replicate 32 b)"
proof -
  let ?env = "(sample_env 1000020)\<lparr>ae_connect := Inr (fresh_conn\<lparr>inp := sample_sh\<rparr>)\<rparr>" and ?srv = "server_new rev [1, 2, 3]"
  let ?chp = "(replicate 32 b, replicate 16 0 @ replicate 16 b) :: bytes \<times> bytes"
  have "no_overflow (srv_totp ?srv) 1000020" by (simp add: no_overflow_def server_new_def totp_new_def)
  from sample_hello_authentic [OF this, of b] have a: "authentic ?env ?srv ?chp" by (simp add: authentic_def)
  have r: "read_tls_message (ae_tls ?env) (fresh_conn\<lparr>inp := hello_with b\<rparr>) = (Ready (Inr (Inr (hello_with b))), fresh_conn)"
    "hello_of ?env (Inr (hello_with b)) = Some ?chp"
    using sample_hello_read [of 1000020 b] sample_hello_parsed [of 1000020 b] by (simp_all add: hello_of_def)
  have "tls_record_ok (ae_tls ?env) sample_sh"
    by (simp add: tls_record_ok_def sample_env_def sample_sh_def of_be16_def)
  from read_tls_record [OF this, of "fresh_conn\<lparr>inp := sample_sh, out := hello_with b\<rparr>" "[]"]
  have sh: "read_tls_message (ae_tls ?env) (fresh_conn\<lparr>inp := sample_sh, out := hello_with b\<rparr>) = (Ready (Inr (Inr sample_sh)), fresh_conn\<lparr>inp := [], out := hello_with b\<rparr>)"
    by simp
  have "server_hello_of (ae_rustls ?env) sample_sh = Some True"
    using toy_server_hello [of "[0x16, 3, 3, 0, 1]" 2 "[]"] by (simp add: sample_env_def sample_sh_def)
  with sh have "\<exists>io. camouflage ?env (hello_with b) fresh_conn = Ready (Inr io)"
    by (simp add: camouflage_def answer_def write_all_unbounded fresh_conn_def)
  moreover obtain f where "lru_get ops (guarded rf) (replicate 32 b) = (None, f)" using assms(2) by (metis prod.collapse)
  ultimately show "\<exists>io. accept ops (ar_env (sample_arrival b)) ?srv (ar_peer (sample_arrival b)) (ar_conn (sample_arrival b)) rf =
    (Ready (Inr io), rf\<lparr>guarded := lru_put ops (snd (lru_get ops (guarded rf) (replicate 32 b))) (replicate 32 b) 5\<rparr>)"
    using accept_authentic [OF r a refl, of ops "Some 5" rf] assms(1)
    by (auto simp: sample_arrival_def consult_filter_def sample_hello_nonce)
  show "hello_nonce (ar_env (sample_arrival b)) ?srv (ar_conn (sample_arrival b)) = Some (replicate 32 b)"
    using r a by (simp add: hello_nonce_def sample_arrival_def sample_hello_nonce)
qed

lemma sample_server_run:
  "\<exists>st io io'. (daemon_step (list_lru 2) (server_new rev [1, 2, 3]))\<^sup>*\<^sup>* (daemon_new (mutex_new [])) st \<and>
     sv_tasks st = [(sample_arrival 7, Finished (Ready (Inr io))), (sample_arrival 8, Finished (Ready (Inr io')))] \<and>
     sv_order st = [0, 1]"
proof -
  let ?step = "daemon_step (list_lru 2) (server_new rev [1, 2, 3])" and ?st0 = "daemon_new (mutex_new []) :: ((bytes \<times> nat) list, nat) daemon"
  let ?rf1 = "\<lparr>guarded = [(replicate 32 7, 5)], poisoned = False\<rparr> :: (bytes \<times> nat) list mutex"
  have d: "(replicate 32 8 :: bytes) \<noteq> replicate 32 7" by (simp add: replicate_eq_replicate)
  from sample_arrival_accepted(1) [of "mutex_new []" "list_lru 2" 7] obtain io where
    "accept (list_lru 2) (ar_env (sample_arrival 7)) (server_new rev [1, 2, 3]) (ar_peer (sample_arrival 7))
      (ar_conn (sample_arrival 7)) (sv_filter ?st0) = (Ready (Inr io), ?rf1)"
    by (auto simp: mutex_new_def list_lru_def promote_def daemon_new_def)
  from daemon_sequential [OF _ this] have 1: "?step\<^sup>*\<^sup>* ?st0 \<lparr>sv_filter = ?rf1, sv_tasks = [(sample_arrival 7, Finished (Ready (Inr io)))],
      sv_order = [0], sv_up = True\<rparr>" (is "?step\<^sup>*\<^sup>* ?st0 ?st1")
    by (simp add: daemon_new_def)
  have "lru_get (list_lru 2) (guarded ?rf1) (replicate 32 8 :: bytes) = (None, guarded ?rf1)" using d by (simp add: list_lru_def)
  with sample_arrival_accepted(1) [of ?rf1 "list_lru 2" 8] obtain io' rf2 where
    "accept (list_lru 2) (ar_env (sample_arrival 8)) (server_new rev [1, 2, 3]) (ar_peer (sample_arrival 8))
      (ar_conn (sample_arrival 8)) (sv_filter ?st1) = (Ready (Inr io'), rf2)"
    by auto
  from daemon_sequential [OF _ this] 1 show ?thesis
    by (intro exI conjI) (erule rtranclp_trans, simp, simp_all)
qed

theorem server_linearizable_witness:
  "\<exists>(st :: ((bytes \<times> nat) list, nat) daemon) ord. (daemon_step (list_lru 2) (server_new rev [1, 2, 3]))\<^sup>*\<^sup>* (daemon_new (mutex_new [])) st \<and>
     length (sv_tasks st) = 2 \<and> set ord = {0, 1} \<and>
     sv_filter st = accept_all (list_lru 2) (connections (server_new rev [1, 2, 3]) st ord) (mutex_new [])"
proof -
  from sample_server_run obtain st io io' where
    st: "(daemon_step (list_lru 2) (server_new rev [1, 2, 3]))\<^sup>*\<^sup>* (daemon_new (mutex_new [])) st"
      "sv_tasks st = [(sample_arrival 7, Finished (Ready (Inr io))), (sample_arrival 8, Finished (Ready (Inr io')))]" by blast
  from server_linearizable [OF st(1)] obtain ord where
    "set ord = {i. i < length (sv_tasks st) \<and> decided (snd (sv_tasks st ! i))}"
    "sv_filter st = accept_all (list_lru 2) (connections (server_new rev [1, 2, 3]) st ord) (mutex_new [])" by blast
  moreover have "{i. i < length (sv_tasks st) \<and> decided (snd (sv_tasks st ! i))} = {0, 1}"
    unfolding st(2) by (auto simp: less_Suc_eq)
  moreover have "length (sv_tasks st) = 2" by (simp add: st(2))
  ultimately show ?thesis by (intro exI [of _ st] exI [of _ ord] conjI st(1)) simp_all
qed

theorem nonce_accepted_once_witness:
  "hello_nonce (ar_env (sample_arrival 7)) (server_new rev [1, 2, 3]) (ar_conn (sample_arrival 7)) \<noteq>
   hello_nonce (ar_env (sample_arrival 8)) (server_new rev [1, 2, 3]) (ar_conn (sample_arrival 8))"
proof -
  from sample_server_run obtain st io io' where
    st: "(daemon_step (list_lru 2) (server_new rev [1, 2, 3]))\<^sup>*\<^sup>* (daemon_new (mutex_new [])) st"
      "sv_tasks st = [(sample_arrival 7, Finished (Ready (Inr io))), (sample_arrival 8, Finished (Ready (Inr io')))]"
      "sv_order st = [0, 1]" by blast
  from nonce_accepted_once [OF list_lru_ok st(1), of 0 1 "sample_arrival 7" io "sample_arrival 8" io'] st(2,3)
  show ?thesis by simp
qed

end
