(* ===== verification/Spec2Isabelle.thy ===== *)
theory Spec2Isabelle
  imports Keepalive Proxy Tunnel SnowyWf Daemon
begin

text \<open>
  Verification of noisy-shuttle, a proxy whose client and server talk through an encrypted tunnel that looks like
  a TLS connection to another site.

  \<^bold>\<open>The program.\<close> A local application speaks SOCKS5 or HTTP to the client (\<open>shuttle/src/client/plain.rs\<close>). For each
  request the client gets a tunnel to the server, either from a connector (\<open>client/connector.rs\<close>: on demand, or
  connected in advance) or from a pool of reusable sessions (\<open>client/pool.rs\<close>), writes the destination as a
  trojan-like header (\<open>trojan.rs\<close>) or as a frame of the session protocol (\<open>session/\<close>), and relays. A tunnel
  (\<open>tunnel/src/\<close>) is made by a TLS handshake in whose ClientHello the client hides the first message of a Noise
  handshake and a signature of the time (\<open>client.rs\<close>, \<open>totp.rs\<close>, \<open>fp.rs\<close>); the server (\<open>server.rs\<close>) authenticates it, has the handshake
  answered by a camouflage server, and answers the Noise handshake in the first record afterwards. A client
  that is not authentic is relayed to the camouflage server. On an accepted tunnel the server
  (\<open>shuttle/src/server.rs\<close>, \<open>server/session_loop.rs\<close>) serves one request, or a session of several.

  \<^bold>\<open>How the code is modelled.\<close> Functions of the code are functions of HOL with the names of the code. A call of an
  asynchronous function is an \<open>outcome\<close>: it is ready with a value or an error, waits for ever, or panics. A
  connection (\<open>conn\<close>) is the bytes that will arrive, how they end, the bytes written, and how many more can be
  written. Functions on a connection are actions that pass the state and an error; \<open>?\<close> is \<open>io_bind\<close>. What is decided
  outside of the code (the branch of a \<open>select!\<close>, the clock, what a socket does next, random values) is a list of
  events or an argument, and the theorems quantify over it. An event list that ends means that the code waits; where a theorem says that something
  completes, it says which events are enough. Loops that may run for ever on one call (the polls of the
  encrypted stream, the TLS 1.2 handshake of the client) are \<open>run_loop\<close> of theory Loop, where \<open>None\<close> is
  a loop that does not return; that they return is proved. No fuel is used. Integers keep their width where the code computes
  with them (the lengths of frames, the time steps and the skew of the signatures, the codes); sizes and
  counters that are bounded by memory are natural numbers. Code of other crates is a parameter, and what is
  relied on of it is a named predicate: \<open>addr_codec_ok\<close> and \<open>parse_ok\<close> of the addresses of socks5-protocol, \<open>lru_ok\<close> of the cache,
  \<open>om_progress\<close>, \<open>records_ok\<close> and \<open>noise_ok\<close> of the record parser and the ciphers, \<open>fp_env_ok\<close> and \<open>encoding_ok\<close> of the
  messages of rustls, \<open>rustls_handshaking\<close> of its client connection. Each is satisfied by a concrete instance
  that the witnesses use.

  \<^bold>\<open>The theories, and what they show.\<close>

  \<^item> Prelude, Net, Loop: bytes, outcomes, actions and connections; errors with context; loops.

  \<^item> Codec, Relay, Lease, Pipe: the interfaces as locales. A codec delivers messages in order (interpreted by the session
    frames and the trojan datagrams); a framed relay is transparent (interpreted by the relay loops of client and
    server); a pool of leases counts what is out (interpreted by the session pool); a byte pipe delivers what was
    written (interpreted by plain connections and by the encrypted tunnel).

  \<^item> Frame (\<open>session/frame.rs\<close>): round trip, delivery in order, and the exact outcome of reading a frame from any
    input. Lifecycle (\<open>lifecycle.rs\<close>): the states of a session and the codes of close reasons. Negotiate (\<open>negotiate.rs\<close>): both sides agree. Keepalive
    (\<open>keepalive.rs\<close>): a ping is answered, times out or fails.

  \<^item> Opt, Url, Connector, Config (\<open>opt.rs\<close>, \<open>utils.rs\<close>, \<open>client/connector.rs\<close>, \<open>client/mod.rs\<close>): validation of options, URLs, the bounds of
    connecting in advance, and that a client and a server started with the same key authenticate each other.

  \<^item> Pool (\<open>client/pool.rs\<close>): each critical section is a definition; the invariant holds over every interleaving of
    tasks, time, failures, cancellation and shutdown; what a checkout returns, retrying, closing and draining.

  \<^item> Trojan (\<open>trojan.rs\<close>): requests and datagrams round trip. UdpRelay (\<open>server.rs\<close>) and ClientUdp
    (\<open>client/plain.rs\<close>): the UDP relays of the two sides.

  \<^item> ServerRelay, SessionLoop, Serve (\<open>server/session_loop.rs\<close>, \<open>server.rs\<close>): the relay of a request of a session is transparent
    and completes; a session is bounded, ends with a notice, and stays open while it is pinged; a connection that is not accepted ends at the
    camouflage server.

  \<^item> Daemon (\<open>server.rs\<close>, \<open>client/mod.rs\<close>, \<open>client/plain.rs\<close>, \<open>main.rs\<close>): the accept loops, and the tasks of the server as a step relation. Every
    interleaving has the effect of handling the connections one after the other, and a nonce is accepted once.

  \<^item> ClientRelay, Client, Proxy (\<open>client/plain.rs\<close>): the same relay at the client; how a request gets its tunnel and
    gives its session back; the SOCKS5 and HTTP handlers.

  \<^item> Totp, TlsRecord, Hello, Lru, Accept, TunnelClient (\<open>totp.rs\<close>, \<open>utils.rs\<close>, \<open>server.rs\<close>, \<open>client.rs\<close> of the tunnel): the time window of a
    signature; records; replays are rejected; the handshake completes under TLS 1.3, and under TLS 1.2 both
    sides agree on where it ends.

  \<^item> Snowy, SnowyWf, Tunnel (\<open>common.rs\<close> of the tunnel): the four polls of \<open>SnowyStream\<close> on a socket with any behaviour. They return; the
    cursors stay within their buffers; two streams connected by TCP refine a byte pipe and deliver.

  \<^item> Fp (\<open>fp.rs\<close>): a rewritten ClientHello has the fingerprint that was asked for, except for its version, and the length that padding is for.

  \<^item> This theory: requests from the local application to the destination, through client and server (SOCKS5, HTTP, UDP), and that the two
    never agree on a reusable session.

  \<^bold>\<open>Where the code does not do what it means to.\<close> Some theorems state such behaviour as it is, because it is what
    holds: a frame that is lost when \<open>select!\<close> drops \<open>read_frame\<close>, memory that is handed out after a
    decryption error, a hello that is sent back to its client, a request that is sent twice, a wake-up that is lost, a replay filter whose lock is poisoned, an accept loop that ends with the first error, and the hello of a session that reads as a
    request.

  \<^bold>\<open>Bounds.\<close> The records of a TLS 1.2 handshake are taken to be at most 16384 bytes long, the size of the client's
  buffer. Names of requests are shorter than 256 bytes (\<open>addr_valid\<close>), frames and
  datagrams have the limits of the code (65535 and 65507 bytes). The signatures are treated for times at which the
  subtraction of the skew does not wrap (\<open>no_overflow\<close>), that is from two minutes after 1970 on.

  \<^bold>\<open>Not modelled.\<close> Of \<open>main\<close>, parsing the command line and setting up logging; the
  command line grammar of structopt, and \<open>parse_u16_array\<close> and \<open>parse_alpn_array\<close>, which call a parser of another crate;
  the implementations of \<open>Debug\<close>, and log messages, except where computing one can fail; \<open>NoCertificateVerification\<close> and
  \<open>SyncReadAdapter\<close>, which are glue for traits of other crates; the cryptography itself (the Noise handshake and ciphers, BLAKE2),
  rustls, httparse, socks5-protocol, lru, deadqueue and tokio's \<open>copy_bidirectional\<close>, which are parameters. Secrecy and
  indistinguishability, which would need a model of an adversary, are not stated. Parallel execution is the interleaving of the
  critical sections and of the events; there is no weaker memory model.
\<close>

section \<open>Requests through the proxy to the server\<close>

lemma connect_served:
  assumes "addr_codec_ok ac" "addr_valid a" "sw_connect sw a = Inr target"
    and "inp snowys = request_wire ac \<lparr>req_cmd = Connect, dest_addr = a\<rparr> @ data"
  shows "snd (serve_tunnel ac dns sw snowys) = [CopyTcp (snowys\<lparr>inp := data\<rparr>) target]"
proof -
  have "read_trojan_like_request ac snowys = (Ready (Inr \<lparr>req_cmd = Connect, dest_addr = a\<rparr>), snowys\<lparr>inp := data\<rparr>)"
    using assms(2,4) by (intro read_request_wire [OF assms(1)]) simp_all
  with assms(3) show ?thesis by (simp add: serve_tunnel_def)
qed

text \<open>The SOCKS5 messages of RFC 1928 without authentication, for the requests of the examples below.\<close>

definition plain_socks :: "bytes socks_ops" where
  "plain_socks = \<lparr>so_version = io_map_err IoErr (io_bind (read_exact 1) (\<lambda>_. io_return ())),
     so_auth = io_map_err IoErr (io_bind (read_exact 1) (\<lambda>n. read_exact (unat (n ! 0)))),
     so_select = (\<lambda>_. 0),
     so_command = io_map_err IoErr (io_bind (read_exact 3) (\<lambda>h. io_bind rfc1928_read (\<lambda>a.
       io_return (if h ! 1 = 1 then SocksConnect else if h ! 1 = 3 then SocksUdpAssociate else SocksBind, a)))),
     so_success = io_map_err IoErr (write_all [5, 0, 0]), so_default = SocketAddr (V4 [0, 0, 0, 0]) 0\<rparr>"

definition plain_world :: proxy_world where
  "plain_world = \<lparr>pw_reusable = None, pw_connected = Inr fresh_conn, pw_copy = (\<lambda>_ _. Pending), pw_first = Some 1,
     pw_endpoint = ''server'', pw_uninit = (\<lambda>_. 0), pw_udp_bind = None, pw_udp_env = rfc1928_env, pw_udp_events = []\<rparr>"

definition asked :: "bytes \<Rightarrow> remote_state" where
  "asked bs = \<lparr>rm_pool = pool_new, rm_tracker = tracker_new, rm_inbound = fresh_conn\<lparr>inp := bs\<rparr>, rm_outbound = None\<rparr>"

text \<open>
  C9. A SOCKS5 CONNECT request is served from one end to the other. When an application asks the client's
  proxy for a destination and the client relays over a tunnel of its own, the application is told that it is
  connected, and the server that reads what the client wrote to the tunnel connects to that very destination
  and starts its copy at the first byte the application sent: the early data that travelled with the header is
  there, once, in front of everything the client copies later.
\<close>

theorem socks5_request_served:
  assumes "addr_codec_ok ac" "addr_valid a"
    and "length (request_wire ac \<lparr>req_cmd = Connect, dest_addr = a\<rparr>) \<le> MAX_FIRST_PACKET_SIZE"
    and "inp (rm_inbound st) = 0x05 # hello" "socks5_request so (rm_inbound st) = (Ready (Inr (SocksConnect, a)), c)"
    and "wr_room c = None" "\<forall>e. inp_end c \<noteq> ReadError e"
    and "pw_reusable w = None" "pw_connected w = Inr tunnel" "wr_room tunnel = None" "out tunnel = []"
    and "proxy_connection ac so env ks w st = (r, st', cu)" "sw_connect sw a = Inr target"
  shows "\<exists>early outb. inp c = early @ inp (rm_inbound st') \<and> out (rm_inbound st') = out c @ SOCKS5_CONNECT_SUCCEEDED \<and>
    rm_outbound st' = Some outb \<and>
    (\<forall>snowys later. inp snowys = out outb @ later \<longrightarrow>
       snd (serve_tunnel ac dns sw snowys) = [CopyTcp (snowys\<lparr>inp := early @ later\<rparr>) target])"
proof -
  let ?hdr = "request_wire ac \<lparr>req_cmd = Connect, dest_addr = a\<rparr>"
  let ?st = "st\<lparr>rm_inbound := c\<lparr>out := out c @ SOCKS5_CONNECT_SUCCEEDED\<rparr>\<rparr>"
  have "encoded ac (pw_uninit w) \<lparr>req_cmd = Connect, dest_addr = a\<rparr> = Ready ?hdr"
    using assms(2) by (intro encoded_wire [OF assms(1)]) simp
  then obtain q where "tcp_remote w (Some ?hdr) ?st = (q, st')"
    using assms(4-6,12)
    by (auto simp: proxy_connection_def peek_first_def handle_connection_socks5_def socks5_connect_def
        write_all_unbounded split: prod.splits)
  from tcp_remote_sends [OF this assms(8,9,3,10)] assms(7,11) obtain early where
    e: "inp c = early @ inp (rm_inbound st')" "out (rm_inbound st') = out c @ SOCKS5_CONNECT_SUCCEEDED"
      "rm_outbound st' = Some (tunnel\<lparr>out := ?hdr @ early\<rparr>)" by auto
  have "snd (serve_tunnel ac dns sw snowys) = [CopyTcp (snowys\<lparr>inp := early @ later\<rparr>) target]"
    if "inp snowys = ?hdr @ early @ later" for snowys later
    by (rule connect_served [OF assms(1,2,13) that])
  with e show ?thesis by (intro exI [of _ early] exI [of _ "tunnel\<lparr>out := ?hdr @ early\<rparr>"]) simp
qed

text \<open>A request to 127.0.0.1:80 with two bytes behind it, of which one arrives in time to travel with the header.\<close>

theorem socks5_request_served_witness:
  "\<exists>outb r st' cu. proxy_connection rfc1928 plain_socks toy_env [] plain_world
       (asked [5, 1, 0, 5, 1, 0, 1, 127, 0, 0, 1, 0, 80, 7, 8]) = (r, st', cu) \<and> rm_outbound st' = Some outb \<and>
     snd (serve_tunnel rfc1928 (list_lru 64) sample_serve_world (fresh_conn\<lparr>inp := out outb @ [8]\<rparr>))
       = [CopyTcp (fresh_conn\<lparr>inp := [7, 8]\<rparr>) fresh_conn]"
proof -
  let ?a = "SocketAddr (V4 [127, 0, 0, 1]) 80"
  let ?st = "asked [5, 1, 0, 5, 1, 0, 1, 127, 0, 0, 1, 0, 80, 7, 8]"
  let ?c = "fresh_conn\<lparr>inp := [7, 8], out := [5, 0]\<rparr>"
  have w: "request_wire rfc1928 \<lparr>req_cmd = Connect, dest_addr = ?a\<rparr> = [1, 1, 127, 0, 0, 1, 0, 80, 13, 10]"
    by (simp add: request_wire_def addr_wire_def rfc1928_def be16_def drop_bit_eq_div)
  have q: "socks5_request plain_socks (rm_inbound ?st) = (Ready (Inr (SocksConnect, ?a)), ?c)"
    by (simp add: socks5_request_def plain_socks_def asked_def fresh_conn_def read_exact_def write_all_unbounded
        rfc1928_read_def rfc1928_rest_def read_u16_def of_be16_def)
  obtain r st' cu where p: "proxy_connection rfc1928 plain_socks toy_env [] plain_world ?st = (r, st', cu)"
    by (metis prod_cases3)
  have "\<exists>early outb. inp ?c = early @ inp (rm_inbound st') \<and> out (rm_inbound st') = out ?c @ SOCKS5_CONNECT_SUCCEEDED \<and>
    rm_outbound st' = Some outb \<and>
    (\<forall>snowys later. inp snowys = out outb @ later \<longrightarrow>
       snd (serve_tunnel rfc1928 (list_lru 64) sample_serve_world snowys) = [CopyTcp (snowys\<lparr>inp := early @ later\<rparr>) fresh_conn])"
    by (rule socks5_request_served [OF rfc1928_ok _ _ _ q _ _ _ _ _ _ p, where tunnel = fresh_conn])
      (simp_all add: w asked_def fresh_conn_def plain_world_def sample_serve_world_def)
  then obtain early outb where e: "inp ?c = early @ inp (rm_inbound st')" "rm_outbound st' = Some outb"
    "snd (serve_tunnel rfc1928 (list_lru 64) sample_serve_world (fresh_conn\<lparr>inp := out outb @ [8]\<rparr>))
      = [CopyTcp (fresh_conn\<lparr>inp := early @ [8]\<rparr>) fresh_conn]" by force
  moreover have "inp (rm_inbound st') = [8]"
    using p q by (auto simp: proxy_connection_def peek_first_def asked_def fresh_conn_def handle_connection_socks5_def
        socks5_connect_def encoded_wire [OF rfc1928_ok] w tcp_remote_def relay_tcp_remote_def relay_tcp_with_def plain_world_def
        write_all_unbounded read_some_def)
  ultimately show ?thesis using p by fastforce
qed

text \<open>
  C10. A plain HTTP request is served from one end to the other, if it arrives in one read and its URL has a path and names no port. When
  an application sends the proxy a request for such a URL with the method GET or another that is passed on, and the client relays over a
  tunnel of its own, the server connects to the host of the URL at the
  port of its scheme and finds the request as a client of that host would send it: the same method and version, the path
  in place of the URL, the headers without those meant for the proxy, and the body unchanged.
\<close>

theorem http_request_served:
  assumes "addr_codec_ok ac" "addr_valid (Domain (bytes_of host) (of_nat pno))"
    and "length (request_wire ac \<lparr>req_cmd = Connect, dest_addr = Domain (bytes_of host) (of_nat pno)\<rparr>) \<le> MAX_FIRST_PACKET_SIZE"
    and "(scheme, pno) \<in> set schemes" "CHR ''/'' \<notin> set host" "CHR '':'' \<notin> set host"
    and "http_path req = scheme @ ''://'' @ host @ ''/'' @ path"
    and "http_method req \<in> set [''GET'', ''POST'', ''OPTIONS'', ''HEAD'', ''PUT'', ''DELETE'', ''TRACE'', ''PATCH'']"
    and "case host_header (http_headers req) of Some h \<Rightarrow> utf8_valid h | None \<Rightarrow> True"
    and "inp (rm_inbound st) = b # bs" "b \<noteq> 0x04" "b \<noteq> 0x05" "length (b # bs) \<le> MAX_FIRST_PACKET_SIZE" "length (b # bs) \<le> k"
    and "he_parse env (b # bs) = Inr (Complete start req)"
    and "pw_reusable w = None" "pw_connected w = Inr tunnel" "wr_room tunnel = None" "out tunnel = []"
    and "proxy_connection ac so env (k # ks) w st = (r, st', cu)"
    and "sw_connect sw (Domain (bytes_of host) (of_nat pno)) = Inr target"
  shows "\<exists>outb. rm_outbound st' = Some outb \<and>
    (\<forall>snowys later. inp snowys = out outb @ later \<longrightarrow>
       snd (serve_tunnel ac dns sw snowys) =
         [CopyTcp (snowys\<lparr>inp := request_text (http_method req) (''/'' @ path) (http_version req)
            (passed_headers (http_headers req)) @ drop start (b # bs) @ later\<rparr>) target])"
proof -
  let ?a = "Domain (bytes_of host) (of_nat pno)" and ?c = "(rm_inbound st)\<lparr>inp := []\<rparr>"
  let ?hdr = "request_wire ac \<lparr>req_cmd = Connect, dest_addr = ?a\<rparr>"
  let ?text = "request_text (http_method req) (''/'' @ path) (http_version req) (passed_headers (http_headers req))"
  let ?tunnel = "tunnel\<lparr>out := ?hdr @ ?text @ drop start (b # bs)\<rparr>"
  have m: "http_method req \<noteq> ''CONNECT''" using assms(8) by auto
  have "http_loop ac env False (Inr tunnel) (k # ks) (map (he_uninit env) [0..<MAX_FIRST_PACKET_SIZE]) 0 (rm_inbound st) =
      http_request_handler ac env False (Inr tunnel) req (drop start (b # bs)) ?c"
    using assms(10,13,14,15) http_loop_first_read [of "rm_inbound st" k env start req] by simp
  also have "\<dots> = http_plain ac env False (Inr tunnel) req (drop start (b # bs)) ?c"
    using m assms(8,9) by (simp add: http_request_handler_def split: option.splits)
  also have "\<dots> = (Ready (Inr (None, Some ?tunnel, length ?text + length (drop start (b # bs)))), ?c)"
    using http_plain_ready [OF assms(1-7,18), of env "drop start (b # bs)" ?c] assms(19) by (simp add: Let_def)
  finally have l: "http_loop ac env False (Inr tunnel) (k # ks) (map (he_uninit env) [0..<MAX_FIRST_PACKET_SIZE]) 0 (rm_inbound st) =
      (Ready (Inr (None, Some ?tunnel, length ?text + length (drop start (b # bs)))), ?c)" .
  have "snd (relay_tcp_with (pw_copy w) (pw_first w) None ?c ?tunnel) = (?c, ?tunnel)"
    by (simp add: relay_tcp_with_def snd_copied)
  with l assms(10-12,16,17,20) have o: "rm_outbound st' = Some ?tunnel"
    by (auto simp: proxy_connection_def peek_first_def handle_connection_http_def simp del: http_loop.simps
        split: prod.splits)
  have "snd (serve_tunnel ac dns sw snowys) = [CopyTcp (snowys\<lparr>inp := ?text @ drop start (b # bs) @ later\<rparr>) target]"
    if "inp snowys = ?hdr @ ?text @ drop start (b # bs) @ later" for snowys later
    by (rule connect_served [OF assms(1,2,21) that])
  with o show ?thesis by (intro exI [of _ ?tunnel]) simp
qed

text \<open>The one request that the sample parser knows, with a body of one byte.\<close>

theorem http_request_served_witness:
  "\<exists>outb r st' cu. proxy_connection rfc1928 plain_socks toy_env [5] plain_world (asked [71, 69, 84, 32, 9]) = (r, st', cu) \<and>
     rm_outbound st' = Some outb \<and>
     snd (serve_tunnel rfc1928 (list_lru 64) sample_serve_world (fresh_conn\<lparr>inp := out outb\<rparr>))
       = [CopyTcp (fresh_conn\<lparr>inp := request_text ''GET'' ''/'' 1 [] @ [9]\<rparr>) fresh_conn]"
proof -
  let ?req = "\<lparr>http_method = ''GET'', http_path = ''http://a/'', http_version = 1, http_headers = []\<rparr>"
  have w: "length (request_wire rfc1928 \<lparr>req_cmd = Connect, dest_addr = Domain (bytes_of ''a'') (of_nat 80)\<rparr>) \<le> MAX_FIRST_PACKET_SIZE"
    by (simp add: request_wire_def addr_wire_def rfc1928_def be16_def bytes_of_def)
  obtain r st' cu where p: "proxy_connection rfc1928 plain_socks toy_env [5] plain_world (asked [71, 69, 84, 32, 9]) = (r, st', cu)"
    by (metis prod_cases3)
  have "\<exists>outb. rm_outbound st' = Some outb \<and>
    (\<forall>snowys later. inp snowys = out outb @ later \<longrightarrow>
       snd (serve_tunnel rfc1928 (list_lru 64) sample_serve_world snowys) =
         [CopyTcp (snowys\<lparr>inp := request_text (http_method ?req) (''/'' @ []) (http_version ?req)
            (passed_headers (http_headers ?req)) @ drop 4 [71, 69, 84, 32, 9] @ later\<rparr>) fresh_conn])"
    by (rule http_request_served [OF rfc1928_ok _ w, where scheme = "''http''" and tunnel = fresh_conn]) (use p in
      \<open>simp_all add: bytes_of_def host_header_def passed_headers_def asked_def fresh_conn_def toy_env_def plain_world_def
         sample_serve_world_def utf8_valid.simps\<close>)
  with p show ?thesis by (force simp: passed_headers_def)
qed

lemma wholes_ok:
  "addr_codec_ok ac \<Longrightarrow> list_all (packet_ok ac) ps \<Longrightarrow> list_all (\<lambda>d. datagram_ok ac MAX_DATAGRAM_SIZE (Some d)) (wholes ps)"
  by (induction ps rule: wholes.induct) (auto simp: socks_dgram_def)

text \<open>
  C11. A UDP association works from one end to the other. Let the client's relay and the server's relay each be
  given what the other one writes to the tunnel, in any interleaving on either side, while the network works:
  then the server sends exactly the payloads of the application's whole datagrams, in order, those for a socket
  address to that address, those for a name to the first address that a lookup of that very name gave, for this datagram
  or for an earlier one; and the application gets exactly the datagrams the server's socket receives, in
  order, with the address of their sender.
\<close>

theorem udp_association_served:
  assumes "addr_codec_ok ac" "parse_ok ac uenv" "\<not> ue_trace uenv" "addr_valid (dest_addr header)" "req_cmd header = UdpAssociate"
    and "list_all (packet_ok ac) (client_packets xs)" "hd xs \<noteq> None" "ws = wholes (client_packets xs)" "ws \<noteq> []"
    and "lru_ok dns MAX_CACHED_DOMAIN_ADDRS_PER_SOCKET" "lru_iter dns (sw_udp_cache sw) = []" "list_all smooth (sw_udp_events sw)" "sw_udp_bind sw = None"
    and "length (lookups (sw_udp_events sw)) = length ws" "ds = remotes (sw_udp_events sw)"
    and "list_all (\<lambda>d. addr_valid (snd d) \<and> length (socks_dgram ac d) \<le> MAX_DATAGRAM_SIZE) ds"
    and "length (filter (\<lambda>x. x = None) xs) = length ds" "io_kind_of e = io_kind.UnexpectedEof"
    and "wr_room tunnel = None" "out tunnel = []" "inp tunnel = dgrams_wire ac ds"
    and "relay_udp_with ac uenv garbage header (cu_events ac xs @ [CuControl (Inl e)]) tunnel = (r, cu)"
    and "wr_room snowys = None" "out snowys = []" "inp snowys = out (cu_tunnel cu)"
  shows "cu_sent cu = map (socks_dgram ac) ds \<and>
    (\<exists>ur sas. snd (serve_tunnel ac dns sw snowys) = [UdpAssociation ur] \<and> out (ur_inbound ur) = inp tunnel \<and>
       length sas = length ws \<and> ur_sent ur = zip (map fst ws) sas \<and>
       (\<forall>i ip p. i < length ws \<and> snd (ws ! i) = SocketAddr ip p \<longrightarrow> sas ! i = (ip, p)) \<and>
       (\<forall>i h p. i < length ws \<and> snd (ws ! i) = Domain h p \<longrightarrow>
          (\<exists>k \<le> i. snd (ws ! k) = Domain h p \<and> sas ! i = hd (lookups (sw_udp_events sw) ! k))))"
proof -
  have x: "xs = [] \<or> hd xs \<noteq> None" and t: "inp tunnel = dgrams_wire ac ds @ []" using assms(7,21) by simp_all
  from relay_udp_with_smooth [OF assms(1-4,6) x assms(19,16,17) t assms(18,8), of garbage] assms(9,20,22)
  have c: "cu_sent cu = map (socks_dgram ac) ds" "out (cu_tunnel cu) = request_wire ac header @ dgrams_wire ac ws"
    by auto
  let ?s = "snowys\<lparr>inp := dgrams_wire ac ws\<rparr>"
  let ?ur = "\<lparr>ur_inbound = ?s, ur_resolved = sw_udp_cache sw, ur_sent = [], ur_tx = 0, ur_rx = 0\<rparr>"
  have q: "read_trojan_like_request ac snowys = (Ready (Inr header), ?s)"
    using assms(25) c(2) by (intro read_request_wire [OF assms(1,4)]) simp
  have ok: "list_all (\<lambda>d. datagram_ok ac MAX_DATAGRAM_SIZE (Some d)) ws"
    unfolding assms(8) by (rule wholes_ok [OF assms(1,6)])
  have i: "inp (ur_inbound ?ur) = dgrams_wire ac ws @ []" "wr_room (ur_inbound ?ur) = None" using assms(23) by simp_all
  from relay_udp_delivers [OF assms(1,10,12,14) ok i] obtain ur sas where
    u: "relay_udp ac dns (sw_udp_events sw) ?ur = (Pending, ur)" "length sas = length ws" "ur_sent ur = zip (map fst ws) sas"
      "out (ur_inbound ur) = dgrams_wire ac ds"
    and a: "\<forall>i ip p. i < length ws \<and> snd (ws ! i) = SocketAddr ip p \<longrightarrow> sas ! i = (ip, p)"
      "\<forall>i h p. i < length ws \<and> snd (ws ! i) = Domain h p \<longrightarrow> ((h, p), sas ! i) \<in> set (lru_iter dns (sw_udp_cache sw)) \<or>
         (\<exists>k \<le> i. snd (ws ! k) = Domain h p \<and> sas ! i = hd (lookups (sw_udp_events sw) ! k))"
    using assms(15,24) by auto
  have "snd (serve_tunnel ac dns sw snowys) = [UdpAssociation ur]"
    using q u(1) assms(5,13) by (simp add: serve_tunnel_def)
  with c(1) u(2-4) a assms(11,21) show ?thesis by (intro conjI exI [of _ ur] exI [of _ sas]) simp_all
qed

text \<open>A datagram to 8.8.8.8:53, a fragment, a datagram to a name, and an answer.\<close>

theorem udp_association_served_witness:
  "\<exists>r cu ur. relay_udp_with rfc1928 rfc1928_env (\<lambda>_. 0) \<lparr>req_cmd = UdpAssociate, dest_addr = SocketAddr (V4 [0, 0, 0, 0]) 0\<rparr>
      (cu_events rfc1928 [Some (Whole [1, 2] dns8), Some (Fragment [0, 0, 1]), Some (Whole [3] (Domain [100] 53)), None] @
         [CuControl (Inl (IoError io_kind.UnexpectedEof ''early eof''))])
      (fresh_conn\<lparr>inp := datagram_wire rfc1928 [7] dns8\<rparr>) = (r, cu) \<and>
     snd (serve_tunnel rfc1928 (list_lru 64) (sample_serve_world\<lparr>sw_udp_events :=
       [FromTunnel (Inr [(V4 [9, 9, 9, 9], 53)]) None, FromRemote (Inr ([7], V4 [8, 8, 8, 8], 53)), FromTunnel (Inr [(V4 [1, 1, 1, 1], 53)]) None]\<rparr>)
         (fresh_conn\<lparr>inp := out (cu_tunnel cu)\<rparr>)) = [UdpAssociation ur] \<and>
     ur_sent ur = [([1, 2], (V4 [8, 8, 8, 8], 53)), ([3], (V4 [1, 1, 1, 1], 53))]"
proof -
  let ?h = "\<lparr>req_cmd = UdpAssociate, dest_addr = SocketAddr (V4 [0, 0, 0, 0]) 0\<rparr>"
  let ?xs = "[Some (Whole [1, 2] dns8), Some (Fragment [0, 0, 1]), Some (Whole [3] (Domain [100] 53)), None]"
  let ?ws = "[([1, 2], dns8), ([3], Domain [100] 53)] :: (bytes \<times> trojan_addr) list"
  let ?e = "IoError io_kind.UnexpectedEof ''early eof''" and ?t = "fresh_conn\<lparr>inp := datagram_wire rfc1928 [7] dns8\<rparr>"
  let ?sw = "sample_serve_world\<lparr>sw_udp_events :=
     [FromTunnel (Inr [(V4 [9, 9, 9, 9], 53)]) None, FromRemote (Inr ([7], V4 [8, 8, 8, 8], 53)), FromTunnel (Inr [(V4 [1, 1, 1, 1], 53)]) None]\<rparr>"
  have w: "addr_wire rfc1928 dns8 = [1, 8, 8, 8, 8, 0, 53]" "addr_wire rfc1928 (Domain [100] 53) = [3, 1, 100, 0, 53]"
    by (simp_all add: addr_wire_def rfc1928_def be16_def drop_bit_eq_div)
  obtain r cu where c: "relay_udp_with rfc1928 rfc1928_env (\<lambda>_. 0) ?h (cu_events rfc1928 ?xs @ [CuControl (Inl ?e)]) ?t = (r, cu)"
    by (metis surj_pair)
  have "cu_sent cu = map (socks_dgram rfc1928) [([7], dns8)] \<and>
    (\<exists>ur sas. snd (serve_tunnel rfc1928 (list_lru 64) ?sw (fresh_conn\<lparr>inp := out (cu_tunnel cu)\<rparr>)) = [UdpAssociation ur] \<and>
       out (ur_inbound ur) = inp ?t \<and> length sas = length ?ws \<and> ur_sent ur = zip (map fst ?ws) sas \<and>
       (\<forall>i ip p. i < length ?ws \<and> snd (?ws ! i) = SocketAddr ip p \<longrightarrow> sas ! i = (ip, p)) \<and>
       (\<forall>i h p. i < length ?ws \<and> snd (?ws ! i) = Domain h p \<longrightarrow>
          (\<exists>k \<le> i. snd (?ws ! k) = Domain h p \<and> sas ! i = hd (lookups (sw_udp_events ?sw) ! k))))"
    by (rule udp_association_served [OF rfc1928_ok rfc1928_parse_ok, where header = ?h and xs = ?xs and e = ?e and tunnel = ?t and garbage = "\<lambda>_. 0"])
      (use c in \<open>simp_all add: rfc1928_env_def socks_dgram_def w sample_serve_world_def fresh_conn_def list_lru_ok del: cu_events.simps\<close>,
       simp add: list_lru_def)
  then obtain ur sas where s: "snd (serve_tunnel rfc1928 (list_lru 64) ?sw (fresh_conn\<lparr>inp := out (cu_tunnel cu)\<rparr>)) = [UdpAssociation ur]"
    "length sas = Suc (Suc 0)" "ur_sent ur = zip [[1, 2], [3]] sas" "sas ! 0 = (V4 [8, 8, 8, 8], 53)"
    and n: "\<exists>k \<le> 1. snd (?ws ! k) = Domain [100] 53 \<and> sas ! 1 = hd (lookups (sw_udp_events ?sw) ! k)" by fastforce
  obtain a b where ab: "sas = [a, b]" using s(2) by (auto simp: length_Suc_conv)
  have "sas ! 1 = (V4 [1, 1, 1, 1], 53)" using n by (auto simp: le_Suc_eq)
  with s ab c show ?thesis by auto
qed

section \<open>A session that is to be reused\<close>

text \<open>The hello of the client on the wire, and what the server finds behind the byte it takes for a command.\<close>

abbreviation (input) reuse_hello :: bytes where
  "reuse_hello \<equiv> frame_wire (ClientHello PROTOCOL_VERSION CAP_REUSE)"

lemma reuse_hello_bytes: "reuse_hello = [cmd_to_u8 Connect, 0, 3, 1, 0, 1]"
  by (simp add: frame_wire_def be16_def drop_bit_eq_div)

text \<open>
  The test by which a reusable session could be told from a request without reading from the stream. It cannot tell
  them apart: the first byte of every CONNECT request passes it as well.
\<close>

definition looks_like_reuse_handshake :: "('s, 'r) snowy \<Rightarrow> bool" where
  "looks_like_reuse_handshake st =
     (case buffered_plaintext st of [] \<Rightarrow> False | b # _ \<Rightarrow> b = FRAME_CLIENT_HELLO)"

lemma connect_looks_like_reuse:
  assumes "buffered_plaintext st = reuse_hello @ rest \<or>
    (\<exists>a. buffered_plaintext st = request_wire ac \<lparr>req_cmd = Connect, dest_addr = a\<rparr> @ rest)"
  shows "looks_like_reuse_handshake st"
  using assms by (auto simp: looks_like_reuse_handshake_def reuse_hello_bytes request_wire_def)

lemma hello_tail_no_frame:
  assumes "inp c = [3, 1, 0, 1]"
  shows "\<exists>c'. read_frame c = (Pending, c') \<or> (\<exists>e. read_frame c = (Ready (Inl e), c'))"
proof -
  have "read_exact 3 c = (Ready (Inr [3, 1, 0]), c\<lparr>inp := [1]\<rparr>)"
    using assms by (simp add: read_exact_def)
  moreover have "unat (of_be16 1 0) = 256" by (simp add: of_be16_def)
  ultimately show ?thesis
    by (cases "inp_end c") (auto simp: read_frame_def read_exact_def Let_def)
qed

text \<open>
  C40. No session is ever negotiated between the client and the server. The type byte of the hello with
  which the client opens a pooled session is the command byte of a CONNECT request, so the server reads on
  for an address, finds address type 0 and starts neither a relay nor a session, whatever error the
  address reader reports; the client, which is waiting for a hello, gets no answer and gives the new session back as
  unhealthy. The one assumption on the address reader is that it refuses
  address type 0, having read that byte only.
\<close>

theorem reuse_never_negotiated:
  assumes "\<forall>c rest. inp c = 0 # rest \<longrightarrow> (\<exists>e. ac_read ac c = (Ready (Inl e), c\<lparr>inp := rest\<rparr>))"
    and "checkout_pool inner = (Inr s, inner1, ev)" "reuse_count s = 0"
    and "inp (stream s) = []" "wr_room (stream s) = None" "out (stream s) = []"
    and "s' = s\<lparr>stream := (stream s)\<lparr>out := reuse_hello\<rparr>\<rparr>" "inp snowys = out (stream s')"
  shows "relay_tcp_reusable checkout_pool give_back first es outbuf inbound inner =
      (Ready (Inl (Anyhow ''reusable session negotiation failed'')), inbound, give_back s' False inner1) \<and>
    snd (serve_tunnel ac dns w snowys) = [] \<and> fst (serve_tunnel ac dns w snowys) \<noteq> Ready (Inr ())"
proof
  let ?c = "(stream s)\<lparr>out := reuse_hello\<rparr>"
  have "write_frame (ClientHello PROTOCOL_VERSION CAP_REUSE) (stream s) = (Ready (Inr ()), ?c)"
    using assms(5,6) by (simp add: frames.send_wire)
  moreover obtain e where "read_with_timeout ?c = (Ready (Inl e), ?c)"
    using assms(4) by (cases "inp_end (stream s)") (auto simp: read_with_timeout_def read_frame_def read_exact_def)
  ultimately have "negotiate_client (Capabilities CAP_REUSE) (stream s) = (Ready (Inl e), ?c)"
    by (simp add: negotiate_client_def)
  with assms(2,3,7) show "relay_tcp_reusable checkout_pool give_back first es outbuf inbound inner =
      (Ready (Inl (Anyhow ''reusable session negotiation failed'')), inbound, give_back s' False inner1)"
    by (simp add: relay_tcp_reusable_def)
next
  let ?r = "[0, 3, 1, 0, 1] :: bytes"
  have i: "inp snowys = cmd_to_u8 Connect # ?r"
    using assms(7,8) by (simp add: reuse_hello_bytes)
  from assms(1) [rule_format, of "snowys\<lparr>inp := ?r\<rparr>" "[3, 1, 0, 1]"] obtain e where
    e: "ac_read ac (snowys\<lparr>inp := ?r\<rparr>) = (Ready (Inl e), snowys\<lparr>inp := [3, 1, 0, 1]\<rparr>)" by auto
  have "read_exact 1 snowys = (Ready (Inr [cmd_to_u8 Connect]), snowys\<lparr>inp := ?r\<rparr>)"
    using i by (simp add: read_exact_def)
  with e have t: "read_trojan_like_request ac snowys = (Ready (Inl e), snowys\<lparr>inp := [3, 1, 0, 1]\<rparr>)"
    by (simp add: read_trojan_like_request_def del: cmd_to_u8.simps)
  from hello_tail_no_frame [of "snowys\<lparr>inp := [3, 1, 0, 1]\<rparr>"] t
  show "snd (serve_tunnel ac dns w snowys) = [] \<and> fst (serve_tunnel ac dns w snowys) \<noteq> Ready (Inr ())"
    by (auto simp: serve_tunnel_def)
qed

text \<open>An empty pool whose connector works.\<close>

theorem reuse_never_negotiated_witness:
  "\<exists>inb inner e. relay_tcp_reusable (checkout sample_config False 1 1 (Inr fresh_conn) id False)
      (\<lambda>s healthy i. fst (return_session sample_config False 2 s healthy i)) None [] None fresh_conn pool_new
    = (Ready (Inl e), inb, inner) \<and>
   snd (serve_tunnel rfc1928 (list_lru 64) sample_serve_world (fresh_conn\<lparr>inp := reuse_hello\<rparr>)) = []"
proof -
  have a: "\<forall>c rest. inp c = 0 # rest \<longrightarrow> (\<exists>e. ac_read rfc1928 c = (Ready (Inl e), c\<lparr>inp := rest\<rparr>))"
    by (simp add: rfc1928_def rfc1928_read_def read_exact_def)
  have c: "checkout sample_config False 1 1 (Inr fresh_conn) id False pool_new =
     (Inr \<lparr>stream = fresh_conn, use_count = 1, created_at = 1, last_used = 1, reuse_count = 0\<rparr>,
      pool_new\<lparr>checked_out := 1, checkout_count := 1\<rparr>, [PoolMiss])"
    by (simp add: checkout_def checkout_begin_def checkout_finish_def new_session_def pool_new_def pop_reusable.simps)
  from reuse_never_negotiated
    [where checkout_pool = "checkout sample_config False 1 1 (Inr fresh_conn) id False" and inner = pool_new
       and snowys = "fresh_conn\<lparr>inp := reuse_hello\<rparr>", OF a c]
  show ?thesis by (fastforce simp: fresh_conn_def)
qed

end
